(* ===== verification/ConnBase.thy ===== *)
theory ConnBase
  imports Main "HOL-Library.Word"
begin

text \<open>
  The shared ground of the development: C's fixed-width integers, the byte order of the
  host, byte buffers with checked access, the GLib list operations the sources call, and the
  libc address conversions (\<^verbatim>\<open>inet_aton\<close>, \<^verbatim>\<open>inet_ntoa\<close>). Nothing in this theory is specific to
  one component; the lemmas are collected in the named theorem lists \<open>mem_simps\<close> (buffers)
  and \<open>bo_simps\<close> (byte order), which the component theories pass to the simplifier.

  Host byte order. The daemon is built for little-endian hosts (x86, ARM); \<^verbatim>\<open>htonl\<close>,
  \<^verbatim>\<open>ntohl\<close>, \<^verbatim>\<open>htons\<close>, \<^verbatim>\<open>ntohs\<close> therefore reverse the bytes, and the in-memory image of an
  integer is its little-endian byte list.
\<close>

unbundle bit_operations_syntax

section \<open>Machine integers and byte order\<close>

type_synonym u8 = "8 word"
type_synonym u16 = "16 word"
type_synonym u32 = "32 word"
type_synonym u64 = "64 word"

text \<open>Error numbers of Linux.\<close>

abbreviation "EIO \<equiv> (5 :: int)"
abbreviation "ENXIO \<equiv> (6 :: int)"
abbreviation "ENOMEM \<equiv> (12 :: int)"
abbreviation "ENODEV \<equiv> (19 :: int)"
abbreviation "EINVAL \<equiv> (22 :: int)"
abbreviation "ENOMSG \<equiv> (42 :: int)"
abbreviation "EPROTO \<equiv> (71 :: int)"
abbreviation "ENOBUFS \<equiv> (105 :: int)"

named_theorems mem_simps \<open>access to byte buffers\<close>
named_theorems bo_simps \<open>byte order conversions\<close>

definition le16_bytes :: "u16 \<Rightarrow> u8 list" where
  "le16_bytes w = [ucast w, ucast (drop_bit 8 w)]"

definition le32_bytes :: "u32 \<Rightarrow> u8 list" where
  "le32_bytes w = [ucast w, ucast (drop_bit 8 w), ucast (drop_bit 16 w), ucast (drop_bit 24 w)]"

definition le16_of :: "u8 \<Rightarrow> u8 \<Rightarrow> u16" where
  "le16_of a b = ucast a OR push_bit 8 (ucast b)"

definition le32_of :: "u8 \<Rightarrow> u8 \<Rightarrow> u8 \<Rightarrow> u8 \<Rightarrow> u32" where
  "le32_of a b c d =
     ucast a OR push_bit 8 (ucast b) OR push_bit 16 (ucast c) OR push_bit 24 (ucast d)"

definition bswap16 :: "u16 \<Rightarrow> u16" where
  "bswap16 w = le16_of (ucast (drop_bit 8 w)) (ucast w)"

definition bswap32 :: "u32 \<Rightarrow> u32" where
  "bswap32 w = le32_of (ucast (drop_bit 24 w)) (ucast (drop_bit 16 w)) (ucast (drop_bit 8 w)) (ucast w)"

abbreviation htons :: "u16 \<Rightarrow> u16" where "htons \<equiv> bswap16"
abbreviation ntohs :: "u16 \<Rightarrow> u16" where "ntohs \<equiv> bswap16"
abbreviation htonl :: "u32 \<Rightarrow> u32" where "htonl \<equiv> bswap32"
abbreviation ntohl :: "u32 \<Rightarrow> u32" where "ntohl \<equiv> bswap32"

lemma le16_of_ucast [bo_simps]:
  "ucast (le16_of a b) = a" "ucast (drop_bit 8 (le16_of a b)) = b"
  by (rule bit_word_eqI; auto simp: le16_of_def bit_simps dest: bit_imp_le_length)+

lemma le16_of_bytes [bo_simps]: "le16_of (ucast w) (ucast (drop_bit 8 w)) = w"
  by (rule bit_word_eqI) (auto simp: le16_of_def bit_simps dest: bit_imp_le_length)

lemma le32_of_ucast [bo_simps]:
  "ucast (le32_of a b c d) = a"
  "ucast (drop_bit 8 (le32_of a b c d)) = b"
  "ucast (drop_bit 16 (le32_of a b c d)) = c"
  "ucast (drop_bit 24 (le32_of a b c d)) = d"
  by (rule bit_word_eqI; auto simp: le32_of_def bit_simps dest: bit_imp_le_length)+

lemma le32_of_bytes [bo_simps]:
  "le32_of (ucast w) (ucast (drop_bit 8 w)) (ucast (drop_bit 16 w)) (ucast (drop_bit 24 w)) = w"
proof (rule bit_word_eqI)
  fix n :: nat
  assume "n < LENGTH(32)"
  then show "bit (le32_of (ucast w) (ucast (drop_bit 8 w)) (ucast (drop_bit 16 w))
    (ucast (drop_bit 24 w))) n = bit w n"
    by (cases "n < 24"; cases "n < 16") (auto simp: le32_of_def bit_simps dest: bit_imp_le_length)
qed

lemma bswap16_invol [simp]: "bswap16 (bswap16 w) = w"
  by (simp add: bswap16_def bo_simps)

lemma bswap32_invol [simp]: "bswap32 (bswap32 w) = w"
  by (simp add: bswap32_def bo_simps)

lemma bswap16_inj [simp]: "bswap16 a = bswap16 b \<longleftrightarrow> a = b"
  by (metis bswap16_invol)

lemma bswap32_inj [simp]: "bswap32 a = bswap32 b \<longleftrightarrow> a = b"
  by (metis bswap32_invol)

lemma bswap32_0 [simp]: "bswap32 0 = 0"
  by (simp add: bswap32_def le32_of_def)

lemma bswap32_eq_0 [simp]: "bswap32 w = 0 \<longleftrightarrow> w = 0"
  by (metis bswap32_0 bswap32_invol)

lemma length_le_bytes [simp]: "length (le16_bytes w) = 2" "length (le32_bytes x) = 4"
  by (simp_all add: le16_bytes_def le32_bytes_def)

lemma unat_u8_less [simp]: "unat (b :: u8) < 256"
  using unsigned_less [where 'a = nat, of b] by simp

lemma uint_u8_range [simp]: "0 \<le> uint (b :: u8)" "uint (b :: u8) < 256"
  using unsigned_less [where 'a = int, of b] by simp_all

definition be16_of :: "u8 \<Rightarrow> u8 \<Rightarrow> u16" where
  "be16_of a b = push_bit 8 (ucast a) OR ucast b"

definition be16_bytes :: "u16 \<Rightarrow> u8 list" where
  "be16_bytes w = [ucast (drop_bit 8 w), ucast w]"

lemma be16_of_bytes [bo_simps]: "be16_of (ucast (drop_bit 8 w)) (ucast w) = w"
  by (rule bit_word_eqI) (auto simp: be16_of_def bit_simps dest: bit_imp_le_length)

lemma length_be16_bytes [simp]: "length (be16_bytes w) = 2"
  by (simp add: be16_bytes_def)

lemma unat_of_nat_u8 [simp]: "n < 256 \<Longrightarrow> unat (of_nat n :: u8) = n"
  by (simp add: unsigned_of_nat take_bit_nat_eq_self)

lemma uint_of_nat_u8 [simp]: "n < 256 \<Longrightarrow> uint (of_nat n :: u8) = int n"
  by (metis int_nat_eq of_nat_unat unat_of_nat_u8 uint_nat)

lemma unat_of_nat_u16: "n < 65536 \<Longrightarrow> unat (of_nat n :: u16) = n"
  by (simp add: unsigned_of_nat take_bit_nat_eq_self)

lemma uint_of_nat_u16: "n < 65536 \<Longrightarrow> uint (of_nat n :: u16) = int n"
  by (metis int_nat_eq of_nat_unat unat_of_nat_u16 uint_nat)

lemma unat_of_nat_u32: "n < 4294967296 \<Longrightarrow> unat (of_nat n :: u32) = n"
  by (simp add: unat_of_nat take_bit_nat_eq_self)

section \<open>Byte buffers\<close>

text \<open>
  A buffer is the list of its bytes. \<open>byte_at\<close> is a read through a pointer \<open>p\<close> into the
  buffer; a read outside it is \<open>None\<close>. \<open>bytes_at\<close> reads \<open>n\<close> consecutive bytes and
  \<open>mem_write\<close> is \<^verbatim>\<open>memcpy\<close> into the buffer at an offset.
\<close>

definition byte_at :: "u8 list \<Rightarrow> nat \<Rightarrow> u8 option" where
  "byte_at m p = (if p < length m then Some (m ! p) else None)"

definition bytes_at :: "u8 list \<Rightarrow> nat \<Rightarrow> nat \<Rightarrow> u8 list option" where
  "bytes_at m p n = (if p + n \<le> length m then Some (take n (drop p m)) else None)"

definition mem_write :: "nat \<Rightarrow> u8 list \<Rightarrow> u8 list \<Rightarrow> u8 list" where
  "mem_write p bs m = take p m @ bs @ drop (p + length bs) m"

lemma byte_at_Some [mem_simps]: "byte_at m p = Some b \<longleftrightarrow> p < length m \<and> m ! p = b"
  by (auto simp: byte_at_def)

lemma byte_at_None [mem_simps]: "byte_at m p = None \<longleftrightarrow> length m \<le> p"
  by (auto simp: byte_at_def)

lemma byte_at_append_left [mem_simps]: "p < length xs \<Longrightarrow> byte_at (xs @ ys) p = Some (xs ! p)"
  by (simp add: byte_at_def nth_append)

lemma byte_at_append_right [mem_simps]: "length xs \<le> p \<Longrightarrow> byte_at (xs @ ys) p = byte_at ys (p - length xs)"
  by (auto simp: byte_at_def nth_append)

lemma byte_at_append_shift [mem_simps]: "byte_at (xs @ ys) (length xs + p) = byte_at ys p"
  by (simp add: byte_at_def nth_append)

lemma byte_at_Cons [mem_simps]:
  "byte_at (x # xs) 0 = Some x" "byte_at (x # xs) (Suc p) = byte_at xs p"
  by (simp_all add: byte_at_def)

lemma bytes_at_append [mem_simps]:
  "bytes_at (xs @ ys @ zs) (length xs) (length ys) = Some ys"
  by (simp add: bytes_at_def)

lemma length_mem_write [simp]: "p + length bs \<le> length m \<Longrightarrow> length (mem_write p bs m) = length m"
  by (simp add: mem_write_def)

lemma mem_write_append [mem_simps]:
  "length bs \<le> length ys \<Longrightarrow>
     mem_write (length xs) bs (xs @ ys) = xs @ bs @ drop (length bs) ys"
  by (simp add: mem_write_def)

lemma nth_mem_write:
  assumes "p + length bs \<le> length m" "i < length m"
  shows "mem_write p bs m ! i = (if p \<le> i \<and> i < p + length bs then bs ! (i - p) else m ! i)"
  using assms by (auto simp: mem_write_def nth_append)

text \<open>
  \<open>put_at\<close> is a checked write: \<open>None\<close> when it would leave the buffer. A C string in a buffer is
  the bytes up to the first zero; \<open>cstr_at\<close> is \<open>None\<close> when no zero follows, as \<^verbatim>\<open>strlen\<close> then runs
  out of the buffer. \<open>cstrn_at\<close> is what \<^verbatim>\<open>strncpy\<close> and \<^verbatim>\<open>strnlen\<close> read: they stop after
  \<open>n\<close> bytes.
\<close>

definition put_at :: "nat \<Rightarrow> u8 list \<Rightarrow> u8 list \<Rightarrow> u8 list option" where
  "put_at p bs m = (if p + length bs \<le> length m then Some (mem_write p bs m) else None)"

definition cstr_at :: "u8 list \<Rightarrow> nat \<Rightarrow> u8 list option" where
  "cstr_at m p = (if 0 \<in> set (drop p m) then Some (takeWhile (\<lambda>b. b \<noteq> 0) (drop p m)) else None)"

definition cstrn_at :: "u8 list \<Rightarrow> nat \<Rightarrow> nat \<Rightarrow> u8 list option" where
  "cstrn_at m p n =
     (if 0 \<in> set (take n (drop p m)) \<or> p + n \<le> length m
      then Some (takeWhile (\<lambda>b. b \<noteq> 0) (take n (drop p m))) else None)"

lemma takeWhile_stop [simp]: "0 \<notin> set s \<Longrightarrow> takeWhile (\<lambda>b. b \<noteq> 0) (s @ 0 # rest) = (s :: u8 list)"
  by (induction s) auto

lemma cstr_at_append [mem_simps]: "0 \<notin> set s \<Longrightarrow> cstr_at (pre @ s @ 0 # rest) (length pre) = Some s"
  by (simp add: cstr_at_def)

lemma cstr_at_0 [mem_simps]: "0 \<notin> set s \<Longrightarrow> cstr_at (s @ 0 # rest) 0 = Some s"
  by (simp add: cstr_at_def)

lemma cstrn_at_append [mem_simps]:
  "0 \<notin> set s \<Longrightarrow> length s < n \<Longrightarrow> cstrn_at (pre @ s @ 0 # rest) (length pre) n = Some s"
  by (cases "n - length s") (simp_all add: cstrn_at_def)

section \<open>GLib lists\<close>

text \<open>
  \<^verbatim>\<open>g_list_remove\<close> unlinks the first element equal to the pointer given;
  \<^verbatim>\<open>g_list_insert_sorted\<close> puts the new element before the first one for which the
  comparison of the new element with it is not positive.
\<close>

abbreviation g_list_remove :: "'a \<Rightarrow> 'a list \<Rightarrow> 'a list" where
  "g_list_remove \<equiv> remove1"

fun g_list_insert_sorted :: "('a \<Rightarrow> 'a \<Rightarrow> int) \<Rightarrow> 'a \<Rightarrow> 'a list \<Rightarrow> 'a list" where
  "g_list_insert_sorted cmp x [] = [x]"
| "g_list_insert_sorted cmp x (y # ys) =
     (if cmp x y > 0 then y # g_list_insert_sorted cmp x ys else x # y # ys)"

definition g_list_last :: "'a list \<Rightarrow> 'a option" where
  "g_list_last xs = (if xs = [] then None else Some (last xs))"

lemma set_insert_sorted [simp]: "set (g_list_insert_sorted cmp x xs) = insert x (set xs)"
  by (induction xs) auto

lemma distinct_insert_sorted [simp]:
  "distinct (g_list_insert_sorted cmp x xs) \<longleftrightarrow> x \<notin> set xs \<and> distinct xs"
  by (induction xs) auto

lemma insert_sorted_not_Nil [simp]: "g_list_insert_sorted cmp x xs \<noteq> []"
  by (cases xs) auto

text \<open>Inserting with a comparison that agrees with a total preorder keeps a list sorted.\<close>

lemma sorted_wrt_insert_sorted:
  assumes "sorted_wrt (\<lambda>a b. key b \<le> (key a :: int)) xs"
    and "\<And>y. y \<in> set xs \<Longrightarrow> cmp x y > 0 \<longleftrightarrow> key x < key y"
  shows "sorted_wrt (\<lambda>a b. key b \<le> key a) (g_list_insert_sorted cmp x xs)"
  using assms
proof (induction xs)
  case Nil
  then show ?case by simp
next
  case (Cons y ys)
  have IH: "sorted_wrt (\<lambda>a b. key b \<le> key a) (g_list_insert_sorted cmp x ys)"
    using Cons.prems by (intro Cons.IH) simp_all
  show ?case
  proof (cases "cmp x y > 0")
    case True
    then have "key x < key y" using Cons.prems(2) [of y] by simp
    with True IH Cons.prems(1) show ?thesis by auto
  next
    case False
    then have "key y \<le> key x" using Cons.prems(2) [of y] by simp
    with False Cons.prems(1) show ?thesis by fastforce
  qed
qed

section \<open>Dotted addresses\<close>

text \<open>
  \<^verbatim>\<open>inet_ntoa\<close> prints the four bytes of an address in network byte order in decimal.
  \<^verbatim>\<open>inet_aton\<close> reads one to four numbers in C notation (decimal, octal after \<open>0\<close>,
  hexadecimal after \<open>0x\<close>) separated by dots; all but the last are one byte each and the
  last fills the rest. The address is in network byte order (here the value as an integer of
  the host, so the first number is its low byte).
\<close>

definition digit_val :: "nat \<Rightarrow> char \<Rightarrow> nat option" where
  "digit_val base c =
     (let n = of_char c :: nat;
          v = (if 48 \<le> n \<and> n \<le> 57 then n - 48
               else if 97 \<le> n \<and> n \<le> 102 then n - 87
               else if 65 \<le> n \<and> n \<le> 70 then n - 55 else 16)
      in if v < base then Some v else None)"

fun strtoul_digits :: "nat \<Rightarrow> nat \<Rightarrow> string \<Rightarrow> nat \<times> string" where
  "strtoul_digits base acc [] = (acc, [])"
| "strtoul_digits base acc (c # cs) =
     (case digit_val base c of
        None \<Rightarrow> (acc, c # cs)
      | Some v \<Rightarrow> strtoul_digits base (acc * base + v) cs)"

definition strtoul0 :: "string \<Rightarrow> nat \<times> string" where
  "strtoul0 s =
     (case s of
        [] \<Rightarrow> (0, [])
      | c # cs \<Rightarrow>
        if c \<noteq> CHR ''0'' then strtoul_digits 10 0 s
        else
          case cs of
            x # d # ds \<Rightarrow>
              if (x = CHR ''x'' \<or> x = CHR ''X'') \<and> digit_val 16 d \<noteq> None
              then strtoul_digits 16 0 (d # ds) else strtoul_digits 8 0 s
          | _ \<Rightarrow> strtoul_digits 8 0 s)"

definition is_space :: "char \<Rightarrow> bool" where
  "is_space c \<longleftrightarrow> c = CHR '' '' \<or> (9 \<le> (of_char c :: nat) \<and> (of_char c :: nat) \<le> 13)"

definition inet_max :: "nat \<Rightarrow> nat" where
  "inet_max k = 2 ^ (32 - 8 * k) - 1"

text \<open>\<open>inet_parts n k acc s\<close>: \<open>k\<close> bytes read, \<open>acc\<close> their value in host order, at most \<open>n\<close> numbers to come.\<close>

fun inet_parts :: "nat \<Rightarrow> nat \<Rightarrow> nat \<Rightarrow> string \<Rightarrow> nat option" where
  "inet_parts 0 k acc s = None"
| "inet_parts (Suc n) k acc s =
     (if s = [] \<or> digit_val 10 (hd s) = None then None
      else
        (let (val, rest) = strtoul0 s in
         if val \<ge> 2 ^ 32 then None
         else if rest \<noteq> [] \<and> hd rest = CHR ''.'' then
           (if k > 2 \<or> val > 255 then None
            else inet_parts n (Suc k) (acc + val * 2 ^ (24 - 8 * k)) (tl rest))
         else if (rest = [] \<or> is_space (hd rest)) \<and> val \<le> inet_max k then Some (acc + val)
         else None))"

definition inet_aton :: "string \<Rightarrow> u32 option" where
  "inet_aton s = map_option (\<lambda>n. htonl (of_nat n)) (inet_parts 4 0 0 s)"

text \<open>\<^verbatim>\<open>inet_addr\<close> is \<^verbatim>\<open>inet_aton\<close> with INADDR_NONE for a string that does not parse.\<close>

definition inet_addr :: "string \<Rightarrow> u32" where
  "inet_addr cp = (case inet_aton cp of None \<Rightarrow> 0xffffffff | Some a \<Rightarrow> a)"

definition dec_char :: "nat \<Rightarrow> char" where
  "dec_char n = char_of (48 + n)"

definition dec_byte :: "nat \<Rightarrow> string" where
  "dec_byte n =
     (if n < 10 then [dec_char n]
      else if n < 100 then [dec_char (n div 10), dec_char (n mod 10)]
      else [dec_char (n div 100), dec_char (n div 10 mod 10), dec_char (n mod 10)])"

definition inet_ntoa :: "u32 \<Rightarrow> string" where
  "inet_ntoa a =
     dec_byte (unat (ucast a :: u8)) @ ''.'' @
     dec_byte (unat (ucast (drop_bit 8 a) :: u8)) @ ''.'' @
     dec_byte (unat (ucast (drop_bit 16 a) :: u8)) @ ''.'' @
     dec_byte (unat (ucast (drop_bit 24 a) :: u8))"

lemma of_char_dec_char: "d < 10 \<Longrightarrow> (of_char (dec_char d) :: nat) = 48 + d"
  by (simp add: dec_char_def)

lemma digit_val_dec_char: "d < 10 \<Longrightarrow> digit_val 10 (dec_char d) = Some d"
  by (simp add: digit_val_def of_char_dec_char)

lemma dec_char_eq_0: "d < 10 \<Longrightarrow> dec_char d = CHR ''0'' \<longleftrightarrow> d = 0"
  using of_char_eq_iff [where 'a = nat, of "dec_char d" "CHR ''0''"] by (simp add: of_char_dec_char)

lemma dec_char_0: "dec_char 0 = CHR ''0''"
  by (simp add: dec_char_eq_0)

definition num_stop :: "string \<Rightarrow> bool" where
  "num_stop s \<longleftrightarrow> s = [] \<or> (\<exists>cs. s = CHR ''.'' # cs)"

lemma strtoul_digits_stop: "num_stop s \<Longrightarrow> b \<le> 16 \<Longrightarrow> strtoul_digits b acc s = (acc, s)"
  by (auto simp: num_stop_def digit_val_def)

lemma strtoul0_nonzero:
  "0 < d \<Longrightarrow> d < 10 \<Longrightarrow> strtoul0 (dec_char d # cs) = strtoul_digits 10 0 (dec_char d # cs)"
  using dec_char_eq_0 [of d] by (simp add: strtoul0_def)

lemma strtoul0_dec_byte:
  assumes "n < 256" "num_stop s"
  shows "strtoul0 (dec_byte n @ s) = (n, s)"
proof (cases "n = 0")
  case True
  then show ?thesis using assms(2)
    by (auto simp: dec_byte_def dec_char_0 strtoul0_def num_stop_def digit_val_def split: list.splits)
next
  case False
  have d: "n div 100 < 10" "n div 10 mod 10 < 10" "n mod 10 < 10" using assms(1) by auto
  have "n div 100 * 10 + n div 10 mod 10 = n div 10"
    using div_mult_mod_eq [of "n div 10" 10] by (simp add: div_mult2_eq [symmetric])
  then have n3: "(n div 100 * 10 + n div 10 mod 10) * 10 + n mod 10 = n" by simp
  have n2: "n div 10 * 10 + n mod 10 = n" by simp
  consider "n < 10" | "10 \<le> n" "n < 100" | "100 \<le> n" by linarith
  then show ?thesis
  proof cases
    case 1
    with False show ?thesis
      by (simp add: dec_byte_def strtoul0_nonzero digit_val_dec_char strtoul_digits_stop [OF assms(2)])
  next
    case 2
    then have "0 < n div 10" "n div 10 < 10" by auto
    with 2 n2 show ?thesis
      by (simp add: dec_byte_def strtoul0_nonzero digit_val_dec_char strtoul_digits_stop [OF assms(2)])
  next
    case 3
    then have "0 < n div 100" by auto
    with 3 n3 d show ?thesis
      by (simp add: dec_byte_def strtoul0_nonzero digit_val_dec_char strtoul_digits_stop [OF assms(2)])
  qed
qed

lemma dec_byte_hd: "n < 256 \<Longrightarrow> \<exists>c cs. dec_byte n = c # cs \<and> digit_val 10 c \<noteq> None"
  by (auto simp: dec_byte_def digit_val_dec_char)

lemma inet_parts_dot:
  assumes "v < 256" "k \<le> 2"
  shows "inet_parts (Suc n) k acc (dec_byte v @ CHR ''.'' # s) = inet_parts n (Suc k) (acc + v * 2 ^ (24 - 8 * k)) s"
proof -
  obtain c cs y where "dec_byte v = c # cs" "digit_val 10 c = Some y"
    using dec_byte_hd [OF assms(1)] by blast
  then show ?thesis using assms strtoul0_dec_byte [OF assms(1), of "CHR ''.'' # s"]
    by (simp add: num_stop_def)
qed

lemma inet_parts_last:
  assumes "v < 256"
  shows "inet_parts (Suc n) 3 acc (dec_byte v) = Some (acc + v)"
proof -
  obtain c cs y where "dec_byte v = c # cs" "digit_val 10 c = Some y"
    using dec_byte_hd [OF assms(1)] by blast
  then show ?thesis using assms strtoul0_dec_byte [OF assms(1), of "[]"]
    by (simp add: num_stop_def inet_max_def)
qed

lemma le32_of_add: "le32_of d c b a = ucast d + ucast c * 2 ^ 8 + ucast b * 2 ^ 16 + ucast a * 2 ^ 24"
proof -
  have 1: "ucast d OR push_bit 8 (ucast c) = ucast d + push_bit 8 (ucast c :: u32)"
    by (subst disjunctive_add) (auto simp: bit_simps dest: bit_imp_le_length)
  have 2: "(ucast d OR push_bit 8 (ucast c)) OR push_bit 16 (ucast b) = (ucast d OR push_bit 8 (ucast c)) + push_bit 16 (ucast b :: u32)"
    by (subst disjunctive_add) (auto simp: bit_simps dest: bit_imp_le_length)
  have 3: "((ucast d OR push_bit 8 (ucast c)) OR push_bit 16 (ucast b)) OR push_bit 24 (ucast a) = ((ucast d OR push_bit 8 (ucast c)) OR push_bit 16 (ucast b)) + push_bit 24 (ucast a :: u32)"
    by (subst disjunctive_add) (auto simp: bit_simps dest: bit_imp_le_length)
  show ?thesis
    using 1 2 3 by (simp add: le32_of_def push_bit_eq_mult flip: or.assoc)
qed

lemma bytes_value:
  "of_nat (unat (a :: u8) * 2 ^ 24 + unat (b :: u8) * 2 ^ 16 + unat (c :: u8) * 2 ^ 8 + unat (d :: u8)) = le32_of d c b a"
  by (simp add: le32_of_add)

lemma four: "(4::nat) = Suc (Suc (Suc (Suc 0)))"
  by simp

lemma three: "(3::nat) = Suc (Suc (Suc 0))"
  by simp

lemma inet_aton_ntoa [simp]: "inet_aton (inet_ntoa a) = Some a"
proof -
  let ?a = "ucast a :: u8" and ?b = "ucast (drop_bit 8 a) :: u8"
    and ?c = "ucast (drop_bit 16 a) :: u8" and ?d = "ucast (drop_bit 24 a) :: u8"
  have "inet_parts 4 0 0 (inet_ntoa a) = Some (unat ?a * 2 ^ 24 + unat ?b * 2 ^ 16 + unat ?c * 2 ^ 8 + unat ?d)"
    by (simp add: inet_ntoa_def four inet_parts_dot inet_parts_last [unfolded three] del: inet_parts.simps)
  moreover have "htonl (of_nat (unat ?a * 2 ^ 24 + unat ?b * 2 ^ 16 + unat ?c * 2 ^ 8 + unat ?d)) = a"
    unfolding bytes_value by (simp add: bswap32_def bo_simps)
  ultimately show ?thesis by (simp add: inet_aton_def)
qed

end
