(* ===== verification/DhcpCommon.thy ===== *)
theory DhcpCommon
  imports ConnBase "HOL-Library.Monad_Syntax"
begin

text \<open>
  The DHCP library shared by client and server: \<^verbatim>\<open>gdhcp/unaligned.h\<close>, \<^verbatim>\<open>gdhcp/common.h\<close>
  and \<^verbatim>\<open>gdhcp/common.c\<close>. The packet is a record with the fields of \<^verbatim>\<open>struct dhcp_packet\<close>;
  the struct is packed, so its memory image is the concatenation of the fields
  (\<open>dhcp_packet_bytes\<close>), and the option walker, whose pointer moves between the fields
  \<^verbatim>\<open>options\<close>, \<^verbatim>\<open>file\<close> and \<^verbatim>\<open>sname\<close>, is modelled on that image, with a read outside the
  struct as an explicit result.
\<close>

section \<open>Unaligned access\<close>

definition get_be32 :: "u8 list \<Rightarrow> nat \<Rightarrow> u32 option" where
  "get_be32 m p =
     (case bytes_at m p 4 of Some [a, b, c, d] \<Rightarrow> Some (bswap32 (le32_of a b c d)) | _ \<Rightarrow> None)"

definition get_be16 :: "u8 list \<Rightarrow> nat \<Rightarrow> u16 option" where
  "get_be16 m p = (case bytes_at m p 2 of Some [a, b] \<Rightarrow> Some (bswap16 (le16_of a b)) | _ \<Rightarrow> None)"

definition get_unaligned32 :: "u8 list \<Rightarrow> nat \<Rightarrow> u32 option" where
  "get_unaligned32 m p =
     (case bytes_at m p 4 of Some [a, b, c, d] \<Rightarrow> Some (le32_of a b c d) | _ \<Rightarrow> None)"

definition put_be32 :: "u32 \<Rightarrow> u8 list" where
  "put_be32 v = le32_bytes (bswap32 v)"

definition put_be16 :: "u16 \<Rightarrow> u8 list" where
  "put_be16 v = le16_bytes (bswap16 v)"

section \<open>Packets\<close>

text \<open>Lengths, option codes and message types of \<^verbatim>\<open>common.h\<close>.\<close>

abbreviation "DHCP_MAGIC \<equiv> (0x63825363 :: u32)"
abbreviation "DHCP_OPTIONS_BUFSIZE \<equiv> (308 :: nat)"
abbreviation "EXTEND_FOR_BUGGY_SERVERS \<equiv> (80 :: nat)"
abbreviation "OPTIONS_SIZE \<equiv> (388 :: nat)"
abbreviation "BOOTREQUEST \<equiv> (1 :: u8)"
abbreviation "BOOTREPLY \<equiv> (2 :: u8)"
abbreviation "BROADCAST_FLAG \<equiv> (0x8000 :: u16)"

abbreviation "DHCP_PADDING \<equiv> (0x00 :: u8)"
abbreviation "DHCP_SUBNET \<equiv> (0x01 :: u8)"
abbreviation "DHCP_ROUTER \<equiv> (0x03 :: u8)"
abbreviation "DHCP_DNS_SERVER \<equiv> (0x06 :: u8)"
abbreviation "DHCP_REQUESTED_IP \<equiv> (0x32 :: u8)"
abbreviation "DHCP_LEASE_TIME \<equiv> (0x33 :: u8)"
abbreviation "DHCP_OPTION_OVERLOAD \<equiv> (0x34 :: u8)"
abbreviation "DHCP_MESSAGE_TYPE \<equiv> (0x35 :: u8)"
abbreviation "DHCP_SERVER_ID \<equiv> (0x36 :: u8)"
abbreviation "DHCP_MAX_SIZE \<equiv> (0x39 :: u8)"
abbreviation "DHCP_END \<equiv> (0xff :: u8)"

abbreviation "FILE_FIELD \<equiv> (1 :: u8)"
abbreviation "SNAME_FIELD \<equiv> (2 :: u8)"

abbreviation "DHCPDISCOVER \<equiv> (1 :: u8)"
abbreviation "DHCPOFFER \<equiv> (2 :: u8)"
abbreviation "DHCPREQUEST \<equiv> (3 :: u8)"
abbreviation "DHCPDECLINE \<equiv> (4 :: u8)"
abbreviation "DHCPACK \<equiv> (5 :: u8)"
abbreviation "DHCPNAK \<equiv> (6 :: u8)"
abbreviation "DHCPRELEASE \<equiv> (7 :: u8)"
abbreviation "DHCPINFORM \<equiv> (8 :: u8)"

abbreviation MAC_BCAST_ADDR :: "u8 list" where "MAC_BCAST_ADDR \<equiv> [0xff, 0xff, 0xff, 0xff, 0xff, 0xff]"
abbreviation MAC_ANY_ADDR :: "u8 list" where "MAC_ANY_ADDR \<equiv> [0, 0, 0, 0, 0, 0]"

record dhcp_packet =
  pk_op :: u8
  htype :: u8
  hlen :: u8
  hops :: u8
  xid :: u32
  secs :: u16
  pk_flags :: u16
  ciaddr :: u32
  yiaddr :: u32
  siaddr_nip :: u32
  gateway_nip :: u32
  chaddr :: "u8 list"
  sname :: "u8 list"
  pk_file :: "u8 list"
  cookie :: u32
  pk_options :: "u8 list"

definition wf_packet :: "dhcp_packet \<Rightarrow> bool" where
  "wf_packet p \<longleftrightarrow> length (chaddr p) = 16 \<and> length (sname p) = 64 \<and> length (pk_file p) = 128 \<and>
     length (pk_options p) = OPTIONS_SIZE"

definition dhcp_packet_bytes :: "dhcp_packet \<Rightarrow> u8 list" where
  "dhcp_packet_bytes p =
     [pk_op p, htype p, hlen p, hops p] @ le32_bytes (xid p) @ le16_bytes (secs p) @
     le16_bytes (pk_flags p) @ le32_bytes (ciaddr p) @ le32_bytes (yiaddr p) @
     le32_bytes (siaddr_nip p) @ le32_bytes (gateway_nip p) @ chaddr p @ sname p @ pk_file p @
     le32_bytes (cookie p) @ pk_options p"

definition rd16 :: "u8 list \<Rightarrow> nat \<Rightarrow> u16" where
  "rd16 m p = le16_of (m ! p) (m ! Suc p)"

definition rd32 :: "u8 list \<Rightarrow> nat \<Rightarrow> u32" where
  "rd32 m p = le32_of (m ! p) (m ! (p + 1)) (m ! (p + 2)) (m ! (p + 3))"

definition dhcp_packet_of_bytes :: "u8 list \<Rightarrow> dhcp_packet" where
  "dhcp_packet_of_bytes m =
     \<lparr>pk_op = m ! 0, htype = m ! 1, hlen = m ! 2, hops = m ! 3, xid = rd32 m 4, secs = rd16 m 8,
      pk_flags = rd16 m 10, ciaddr = rd32 m 12, yiaddr = rd32 m 16, siaddr_nip = rd32 m 20,
      gateway_nip = rd32 m 24, chaddr = take 16 (drop 28 m), sname = take 64 (drop 44 m),
      pk_file = take 128 (drop 108 m), cookie = rd32 m 236, pk_options = take OPTIONS_SIZE (drop 240 m)\<rparr>"

abbreviation "SNAME_OFF \<equiv> (44 :: nat)"
abbreviation "FILE_OFF \<equiv> (108 :: nat)"
abbreviation "OPTIONS_OFF \<equiv> (240 :: nat)"
abbreviation "PACKET_SIZE \<equiv> (628 :: nat)"

section \<open>Options\<close>

text \<open>
  \<^verbatim>\<open>dhcp_get_option\<close>: the loop state is the overload byte, the option pointer (an offset into
  the image) and the remaining length. \<open>Opt_NULL\<close> is a NULL result, \<open>Opt_at p\<close> a pointer to
  the option's data, \<open>Opt_oob\<close> a read outside the packet. The loop need not end (an overload
  option inside an overloaded field restarts the walk), so it is a partial function:
  \<open>None\<close> means that it does not return.
\<close>

datatype opt_ptr = Opt_at nat | Opt_NULL | Opt_oob

partial_function (option) dhcp_get_option_loop ::
    "u8 list \<Rightarrow> int \<Rightarrow> u8 \<Rightarrow> nat \<Rightarrow> int \<Rightarrow> opt_ptr option" where
  "dhcp_get_option_loop m code overload optionptr rem =
     (if rem \<le> 0 then Some Opt_NULL
      else
        case byte_at m optionptr of
          None \<Rightarrow> Some Opt_oob
        | Some c \<Rightarrow>
          if c = DHCP_PADDING then dhcp_get_option_loop m code overload (optionptr + 1) (rem - 1)
          else if c = DHCP_END then
            (if overload AND FILE_FIELD \<noteq> 0 then
               dhcp_get_option_loop m code (overload AND NOT FILE_FIELD) FILE_OFF 128
             else if overload AND SNAME_FIELD \<noteq> 0 then
               dhcp_get_option_loop m code (overload AND NOT SNAME_FIELD) SNAME_OFF 64
             else Some Opt_NULL)
          else
            case byte_at m (optionptr + 1) of
              None \<Rightarrow> Some Opt_oob
            | Some l \<Rightarrow>
              if rem - (2 + uint l) < 0 then
                dhcp_get_option_loop m code overload optionptr (rem - (2 + uint l))
              else if uint c = code then Some (Opt_at (optionptr + 2))
              else if c = DHCP_OPTION_OVERLOAD then
                (case byte_at m (optionptr + 2) of
                   None \<Rightarrow> Some Opt_oob
                 | Some d \<Rightarrow>
                   dhcp_get_option_loop m code (overload OR d) (optionptr + (2 + unat l))
                     (rem - (2 + uint l)))
              else
                dhcp_get_option_loop m code overload (optionptr + (2 + unat l))
                  (rem - (2 + uint l)))"

definition dhcp_get_option :: "dhcp_packet \<Rightarrow> int \<Rightarrow> opt_ptr option" where
  "dhcp_get_option p code =
     dhcp_get_option_loop (dhcp_packet_bytes p) code 0 OPTIONS_OFF (int OPTIONS_SIZE)"

text \<open>\<^verbatim>\<open>dhcp_end_option\<close>: \<open>None\<close> is a read past the end of the buffer.\<close>

function dhcp_end_option_from :: "u8 list \<Rightarrow> nat \<Rightarrow> nat option" where
  "dhcp_end_option_from m i =
     (case byte_at m i of
        None \<Rightarrow> None
      | Some c \<Rightarrow>
        if c = DHCP_END then Some i
        else if c \<noteq> DHCP_PADDING then
          (case byte_at m (i + 1) of
             None \<Rightarrow> None
           | Some l \<Rightarrow> dhcp_end_option_from m (i + (unat l + 2 - 1) + 1))
        else dhcp_end_option_from m (i + 1))"
  by pat_completeness auto
termination
  by (relation "measure (\<lambda>(m, i). length m - i)") (auto simp: mem_simps)

declare dhcp_end_option_from.simps [simp del]

definition dhcp_end_option :: "u8 list \<Rightarrow> nat option" where
  "dhcp_end_option optionptr = dhcp_end_option_from optionptr 0"

definition dhcp_add_binary_option :: "dhcp_packet \<Rightarrow> u8 list \<Rightarrow> dhcp_packet option" where
  "dhcp_add_binary_option packet addopt =
     do {
       e \<leftarrow> dhcp_end_option (pk_options packet);
       l \<leftarrow> byte_at addopt 1;
       let len = 2 + unat l;
       if e + len + 1 \<ge> DHCP_OPTIONS_BUFSIZE then Some packet
       else do {
         src \<leftarrow> bytes_at addopt 0 len;
         Some (packet\<lparr>pk_options := (mem_write e src (pk_options packet))[e + len := DHCP_END]\<rparr>)
       }
     }"

text \<open>Option types: the table of known options and the length of each type.\<close>

type_synonym GDHCPOptionType = u32

abbreviation "OPTION_UNKNOWN \<equiv> (0 :: GDHCPOptionType)"
abbreviation "OPTION_IP \<equiv> (1 :: GDHCPOptionType)"
abbreviation "OPTION_STRING \<equiv> (2 :: GDHCPOptionType)"
abbreviation "OPTION_U8 \<equiv> (3 :: GDHCPOptionType)"
abbreviation "OPTION_U16 \<equiv> (4 :: GDHCPOptionType)"
abbreviation "OPTION_U32 \<equiv> (5 :: GDHCPOptionType)"
abbreviation "OPTION_TYPE_MASK \<equiv> (0x0f :: GDHCPOptionType)"
abbreviation "OPTION_LIST \<equiv> (0x10 :: GDHCPOptionType)"

definition client_options :: "(GDHCPOptionType \<times> u8) list" where
  "client_options =
     [(OPTION_IP, 0x01), (OPTION_IP OR OPTION_LIST, 0x03), (OPTION_IP OR OPTION_LIST, 0x06),
      (OPTION_STRING, 0x0c), (OPTION_STRING, 0x0f), (OPTION_U16, 0x1a),
      (OPTION_IP OR OPTION_LIST, 0x2a), (OPTION_U32, 0x33), (OPTION_IP, 0x32), (OPTION_U8, 0x35),
      (OPTION_U32, 0x36), (OPTION_U16, 0x39), (OPTION_STRING, 0x3c), (OPTION_STRING, 0x3d),
      (OPTION_STRING, 0xfc), (OPTION_UNKNOWN, 0x00)]"

definition dhcp_option_lengths :: "u8 list" where
  "dhcp_option_lengths = [0, 4, 1, 1, 2, 4]"

fun code_type_from :: "(GDHCPOptionType \<times> u8) list \<Rightarrow> u8 \<Rightarrow> GDHCPOptionType" where
  "code_type_from [] code = OPTION_UNKNOWN"
| "code_type_from ((t, c) # os) code =
     (if c = 0 then OPTION_UNKNOWN else if c = code then t else code_type_from os code)"

definition dhcp_get_code_type :: "u8 \<Rightarrow> GDHCPOptionType" where
  "dhcp_get_code_type code = code_type_from client_options code"

definition check_option :: "u8 \<Rightarrow> u8 \<Rightarrow> GDHCPOptionType" where
  "check_option code data_len =
     (let type = dhcp_get_code_type code in
      if type = OPTION_UNKNOWN then type
      else if dhcp_option_lengths ! unat (type AND OPTION_TYPE_MASK) \<noteq> data_len then OPTION_UNKNOWN
      else type)"

definition dhcp_add_option_uint32 :: "dhcp_packet \<Rightarrow> u8 \<Rightarrow> u32 \<Rightarrow> dhcp_packet option" where
  "dhcp_add_option_uint32 packet code val =
     (if check_option code 4 = OPTION_UNKNOWN then Some packet
      else dhcp_add_binary_option packet ([code, 4] @ put_be32 val))"

definition dhcp_add_option_uint16 :: "dhcp_packet \<Rightarrow> u8 \<Rightarrow> u16 \<Rightarrow> dhcp_packet option" where
  "dhcp_add_option_uint16 packet code val =
     (if check_option code 2 = OPTION_UNKNOWN then Some packet
      else dhcp_add_binary_option packet ([code, 2] @ put_be16 val))"

definition dhcp_add_option_uint8 :: "dhcp_packet \<Rightarrow> u8 \<Rightarrow> u8 \<Rightarrow> dhcp_packet option" where
  "dhcp_add_option_uint8 packet code val =
     (if check_option code 1 = OPTION_UNKNOWN then Some packet
      else dhcp_add_binary_option packet [code, 1, val])"

definition zero_packet :: dhcp_packet where
  "zero_packet =
     \<lparr>pk_op = 0, htype = 0, hlen = 0, hops = 0, xid = 0, secs = 0, pk_flags = 0, ciaddr = 0,
      yiaddr = 0, siaddr_nip = 0, gateway_nip = 0, chaddr = replicate 16 0, sname = replicate 64 0,
      pk_file = replicate 128 0, cookie = 0, pk_options = replicate OPTIONS_SIZE 0\<rparr>"

definition dhcp_init_header :: "u8 \<Rightarrow> dhcp_packet option" where
  "dhcp_init_header type =
     dhcp_add_option_uint8
       (zero_packet\<lparr>pk_op := (if type = DHCPOFFER \<or> type = DHCPACK \<or> type = DHCPNAK then BOOTREPLY
                              else BOOTREQUEST),
          htype := 1, hlen := 6, cookie := htonl DHCP_MAGIC,
          pk_options := (replicate OPTIONS_SIZE 0)[0 := DHCP_END]\<rparr>)
       DHCP_MESSAGE_TYPE type"

text \<open>
  \<^verbatim>\<open>dhcp_recv_l3_packet\<close>: \<open>rd\<close> is the result of \<^verbatim>\<open>read\<close>, an errno or the bytes read
  (at most the size of the struct); the rest of the struct stays zero.
\<close>


definition dhcp_recv_l3_packet :: "int + u8 list \<Rightarrow> int \<times> dhcp_packet" where
  "dhcp_recv_l3_packet rd =
     (case rd of
        Inl errno \<Rightarrow> (- errno, zero_packet)
      | Inr bs \<Rightarrow>
        let got = take PACKET_SIZE bs;
            packet = dhcp_packet_of_bytes (got @ replicate (PACKET_SIZE - length got) 0)
        in if cookie packet \<noteq> htonl DHCP_MAGIC then (- EPROTO, packet) else (int (length got), packet))"

section \<open>The abstract option list\<close>

text \<open>
  What the options field means: a list of (code, data) pairs, encoded one after the other and
  closed by \<^verbatim>\<open>DHCP_END\<close>. \<open>opts_repr p os\<close> says that packet \<open>p\<close> holds the options \<open>os\<close>.
\<close>

type_synonym dhcp_opt = "u8 \<times> u8 list"

fun enc_opt :: "dhcp_opt \<Rightarrow> u8 list" where
  "enc_opt (c, d) = [c, of_nat (length d)] @ d"

definition enc_opts :: "dhcp_opt list \<Rightarrow> u8 list" where
  "enc_opts os = concat (map enc_opt os)"

fun valid_opt :: "dhcp_opt \<Rightarrow> bool" where
  "valid_opt (c, d) \<longleftrightarrow> c \<noteq> DHCP_PADDING \<and> c \<noteq> DHCP_END \<and> length d < 256"

definition opts_repr :: "dhcp_packet \<Rightarrow> dhcp_opt list \<Rightarrow> bool" where
  "opts_repr p os \<longleftrightarrow> wf_packet p \<and> list_all valid_opt os \<and>
     length (enc_opts os) + 1 < DHCP_OPTIONS_BUFSIZE \<and>
     (\<exists>rest. pk_options p = enc_opts os @ DHCP_END # rest)"

fun opt_off :: "nat \<Rightarrow> dhcp_opt list \<Rightarrow> u8 \<Rightarrow> nat option" where
  "opt_off n [] code = None"
| "opt_off n ((c, d) # os) code = (if c = code then Some (n + 2) else opt_off (n + (2 + length d)) os code)"

lemma enc_opts_simps [simp]:
  "enc_opts [] = []" "enc_opts (x # xs) = enc_opt x @ enc_opts xs"
  "enc_opts (xs @ ys) = enc_opts xs @ enc_opts ys"
  by (simp_all add: enc_opts_def)

lemma length_dhcp_packet_bytes [simp]: "wf_packet p \<Longrightarrow> length (dhcp_packet_bytes p) = PACKET_SIZE"
  by (simp add: dhcp_packet_bytes_def wf_packet_def)

lemma dhcp_packet_bytes_options:
  assumes "wf_packet p"
  obtains pre where "dhcp_packet_bytes p = pre @ pk_options p" "length pre = OPTIONS_OFF"
  using assms by (simp add: dhcp_packet_bytes_def wf_packet_def)

lemma dhcp_packet_bytes_file:
  assumes "wf_packet p" "i < 128"
  shows "dhcp_packet_bytes p ! (FILE_OFF + i) = pk_file p ! i"
  using assms by (simp add: dhcp_packet_bytes_def wf_packet_def le32_bytes_def le16_bytes_def nth_append)

lemma dhcp_packet_bytes_sname:
  assumes "wf_packet p" "i < 64"
  shows "dhcp_packet_bytes p ! (SNAME_OFF + i) = sname p ! i"
  using assms by (simp add: dhcp_packet_bytes_def wf_packet_def le32_bytes_def le16_bytes_def nth_append)

lemma dhcp_packet_bytes_opts:
  assumes "wf_packet p" "i < OPTIONS_SIZE"
  shows "dhcp_packet_bytes p ! (OPTIONS_OFF + i) = pk_options p ! i"
  using assms by (simp add: dhcp_packet_bytes_def wf_packet_def le32_bytes_def le16_bytes_def nth_append)

subsection \<open>Finding the end and adding\<close>

lemma dhcp_end_option_from_enc:
  "list_all valid_opt os \<Longrightarrow>
     dhcp_end_option_from (pre @ enc_opts os @ DHCP_END # rest) (length pre) =
       Some (length pre + length (enc_opts os))"
proof (induction os arbitrary: pre)
  case Nil
  then show ?case by (subst dhcp_end_option_from.simps) (simp add: byte_at_append_right mem_simps)
next
  case (Cons x os)
  obtain c d where x: "x = (c, d)" by (cases x)
  have v: "c \<noteq> 0" "c \<noteq> 255" "length d < 256" using Cons.prems x by auto
  have IH: "dhcp_end_option_from ((pre @ [c, of_nat (length d)] @ d) @ enc_opts os @ DHCP_END # rest)
      (length (pre @ [c, of_nat (length d)] @ d)) =
      Some (length (pre @ [c, of_nat (length d)] @ d) + length (enc_opts os))"
    by (rule Cons.IH) (use Cons.prems in simp)
  show ?case
    using v IH
    by (subst dhcp_end_option_from.simps)
      (simp add: x byte_at_append_right mem_simps numeral_2_eq_2)
qed

lemma dhcp_end_option_enc:
  "list_all valid_opt os \<Longrightarrow> dhcp_end_option (enc_opts os @ DHCP_END # rest) = Some (length (enc_opts os))"
  using dhcp_end_option_from_enc [of os "[]" rest] by (simp add: dhcp_end_option_def)

lemma dhcp_add_binary_option_fits:
  assumes "opts_repr p os" "valid_opt (c, d)" "length (enc_opts os) + length d + 3 < DHCP_OPTIONS_BUFSIZE"
  shows "\<exists>p'. dhcp_add_binary_option p (enc_opt (c, d)) = Some p' \<and> opts_repr p' (os @ [(c, d)]) \<and>
     p' = p\<lparr>pk_options := pk_options p'\<rparr>"
proof -
  obtain rest where o: "pk_options p = enc_opts os @ DHCP_END # rest"
    using assms(1) by (auto simp: opts_repr_def)
  have len: "length rest + length (enc_opts os) = 387"
    using assms(1) o by (simp add: opts_repr_def wf_packet_def)
  have e: "dhcp_end_option (pk_options p) = Some (length (enc_opts os))"
    using assms(1) by (simp add: o dhcp_end_option_enc opts_repr_def)
  have l: "byte_at (enc_opt (c, d)) (Suc 0) = Some (of_nat (length d))"
    by (simp add: mem_simps)
  have b: "bytes_at (enc_opt (c, d)) 0 (2 + length d) = Some (enc_opt (c, d))"
    by (simp add: bytes_at_def)
  have w: "(mem_write (length (enc_opts os)) (enc_opt (c, d)) (pk_options p))
      [length (enc_opts os) + (2 + length d) := DHCP_END] =
      enc_opts (os @ [(c, d)]) @ DHCP_END # drop (2 + length d) rest"
    using assms(2,3) len
    by (simp add: o mem_simps list_update_append drop_Cons' upd_conv_take_nth_drop)
  then have "length (enc_opts (os @ [(c, d)]) @ DHCP_END # drop (2 + length d) rest) = OPTIONS_SIZE"
    using assms(1) len assms(3) by simp
  then have "opts_repr (p\<lparr>pk_options := enc_opts (os @ [(c, d)]) @ DHCP_END # drop (2 + length d) rest\<rparr>)
      (os @ [(c, d)])"
    using assms by (auto simp: opts_repr_def wf_packet_def)
  then show ?thesis
    using assms(2,3) by (simp add: dhcp_add_binary_option_def e l b w Let_def del: enc_opt.simps add_2_eq_Suc)
qed

lemma dhcp_add_binary_option_full:
  assumes "opts_repr p os" "valid_opt (c, d)" "\<not> length (enc_opts os) + length d + 3 < DHCP_OPTIONS_BUFSIZE"
  shows "dhcp_add_binary_option p (enc_opt (c, d)) = Some p"
proof -
  have e: "dhcp_end_option (pk_options p) = Some (length (enc_opts os))"
    using assms(1) by (auto simp: dhcp_end_option_enc opts_repr_def)
  have l: "byte_at (enc_opt (c, d)) (Suc 0) = Some (of_nat (length d))"
    by (simp add: mem_simps)
  show ?thesis using assms(2,3) by (simp add: dhcp_add_binary_option_def e l del: enc_opt.simps)
qed

subsection \<open>Looking up\<close>

lemma dhcp_get_option_loop_enc:
  assumes "list_all valid_opt os" "DHCP_OPTION_OVERLOAD \<notin> fst ` set os"
    "rem = int (length (enc_opts os)) + 1 + int k"
  shows "dhcp_get_option_loop (pre @ enc_opts os @ DHCP_END # rest) (uint code) 0 (length pre) rem =
     Some (case opt_off (length pre) os code of None \<Rightarrow> Opt_NULL | Some off \<Rightarrow> Opt_at off)"
  using assms
proof (induction os arbitrary: pre rem)
  case Nil
  then show ?case
    by (subst dhcp_get_option_loop.simps) (simp add: byte_at_append_right mem_simps)
next
  case (Cons x os)
  obtain c d where x: "x = (c, d)" by (cases x)
  have v: "c \<noteq> 0" "c \<noteq> 255" "c \<noteq> 52" "length d < 256" using Cons.prems x by auto
  let ?pre = "pre @ [c, of_nat (length d)] @ d"
  have IH: "dhcp_get_option_loop (?pre @ enc_opts os @ DHCP_END # rest) (uint code) 0
      (length ?pre) (int (length (enc_opts os)) + 1 + int k) =
      Some (case opt_off (length ?pre) os code of None \<Rightarrow> Opt_NULL | Some off \<Rightarrow> Opt_at off)"
    by (rule Cons.IH) (use Cons.prems in auto)
  have rem: "rem - (2 + int (length d)) = int (length (enc_opts os)) + 1 + int k" "0 < rem"
    using Cons.prems(3) by (simp_all add: x)
  show ?case
    using v IH rem(2)
    by (subst dhcp_get_option_loop.simps)
      (simp add: x rem(1) byte_at_append_right mem_simps word_uint_eq_iff)
qed

lemma dhcp_get_option_repr:
  assumes "opts_repr p os" "DHCP_OPTION_OVERLOAD \<notin> fst ` set os"
  shows "dhcp_get_option p (uint code) =
     Some (case opt_off OPTIONS_OFF os code of None \<Rightarrow> Opt_NULL | Some off \<Rightarrow> Opt_at off)"
proof -
  from assms(1) have wf: "wf_packet p" by (simp add: opts_repr_def)
  obtain rest where o: "pk_options p = enc_opts os @ DHCP_END # rest" and v: "list_all valid_opt os"
    using assms(1) by (auto simp: opts_repr_def)
  obtain pre where pre: "dhcp_packet_bytes p = pre @ pk_options p" "length pre = OPTIONS_OFF"
    using wf by (rule dhcp_packet_bytes_options)
  have len: "length rest + length (enc_opts os) = 387"
    using wf o by (simp add: wf_packet_def)
  have "dhcp_get_option_loop (pre @ enc_opts os @ DHCP_END # rest) (uint code) 0 (length pre)
      (int OPTIONS_SIZE) =
      Some (case opt_off (length pre) os code of None \<Rightarrow> Opt_NULL | Some off \<Rightarrow> Opt_at off)"
    by (rule dhcp_get_option_loop_enc [OF v assms(2), where k = "length rest"]) (use len in simp)
  then show ?thesis by (simp add: dhcp_get_option_def pre o)
qed

lemma opt_off_map_of:
  "opt_off n os c = None \<longleftrightarrow> map_of os c = None"
  by (induction n os c rule: opt_off.induct) auto

lemma opt_off_data:
  assumes "opt_off (length pre) os c = Some off" "list_all valid_opt os"
  shows "\<exists>d. map_of os c = Some d \<and> length pre + 2 \<le> off \<and>
     bytes_at (pre @ enc_opts os @ rest) off (length d) = Some d \<and>
     byte_at (pre @ enc_opts os @ rest) (off - 1) = Some (of_nat (length d))"
  using assms
proof (induction os arbitrary: pre)
  case (Cons x os)
  obtain c' d where x: "x = (c', d)" by (cases x)
  show ?case
  proof (cases "c' = c")
    case True
    then have off: "off = length (pre @ [c', of_nat (length d)])" "off - 1 = length (pre @ [c'])"
      using Cons.prems x by auto
    have "bytes_at ((pre @ [c', of_nat (length d)]) @ d @ (enc_opts os @ rest)) off (length d) = Some d"
      unfolding off(1) by (rule bytes_at_append)
    moreover have "byte_at ((pre @ [c']) @ (of_nat (length d) # d @ enc_opts os @ rest)) (off - 1) = Some (of_nat (length d))"
      unfolding off(2) by (simp add: byte_at_append_right mem_simps)
    ultimately show ?thesis using True x off by simp
  next
    case False
    then show ?thesis
      using Cons.IH [of "pre @ [c', of_nat (length d)] @ d"] Cons.prems x by (auto simp: ac_simps)
  qed
qed simp

section \<open>The option store as an interface\<close>

text \<open>
  What the users of the option field rely on: adding an encoded option that fits appends it to
  the abstract list, one that does not fit changes nothing, and a lookup is \<open>map_of\<close>.
\<close>

fun add_opts :: "('p \<Rightarrow> u8 list \<Rightarrow> 'p option) \<Rightarrow> 'p \<Rightarrow> dhcp_opt list \<Rightarrow> 'p option" where
  "add_opts add p [] = Some p"
| "add_opts add p (x # xs) = Option.bind (add p (enc_opt x)) (\<lambda>p'. add_opts add p' xs)"

locale option_store =
  fixes repr :: "'p \<Rightarrow> dhcp_opt list \<Rightarrow> bool"
    and add :: "'p \<Rightarrow> u8 list \<Rightarrow> 'p option"
    and get :: "'p \<Rightarrow> u8 \<Rightarrow> u8 list option"
    and cap :: nat
  assumes add_fits: "repr p os \<Longrightarrow> valid_opt (c, d) \<Longrightarrow> length (enc_opts os) + length d + 3 < cap \<Longrightarrow>
      \<exists>p'. add p (enc_opt (c, d)) = Some p' \<and> repr p' (os @ [(c, d)])"
    and add_full: "repr p os \<Longrightarrow> valid_opt (c, d) \<Longrightarrow> \<not> length (enc_opts os) + length d + 3 < cap \<Longrightarrow>
      add p (enc_opt (c, d)) = Some p"
    and get_repr: "repr p os \<Longrightarrow> DHCP_OPTION_OVERLOAD \<notin> fst ` set os \<Longrightarrow> get p c = map_of os c"
begin

lemma add_total: "repr p os \<Longrightarrow> valid_opt (c, d) \<Longrightarrow>
    \<exists>p'. add p (enc_opt (c, d)) = Some p' \<and> (repr p' os \<or> repr p' (os @ [(c, d)]))"
  using add_fits add_full by metis

lemma get_add_same:
  assumes "repr p os" "valid_opt (c, d)" "length (enc_opts os) + length d + 3 < cap"
    "DHCP_OPTION_OVERLOAD \<notin> insert c (fst ` set os)" "get p c = None" "add p (enc_opt (c, d)) = Some p'"
  shows "get p' c = Some d"
proof -
  have "repr p' (os @ [(c, d)])" using add_fits [OF assms(1-3)] assms(6) by auto
  moreover have "map_of os c = None" using get_repr [OF assms(1)] assms(4,5) by auto
  ultimately show ?thesis using get_repr [of p' "os @ [(c, d)]"] assms(4)
    by (auto simp: map_add_def)
qed

lemma add_opts_fits:
  "repr p os \<Longrightarrow> list_all valid_opt new \<Longrightarrow> length (enc_opts (os @ new)) + 1 < cap \<Longrightarrow>
     \<exists>p'. add_opts add p new = Some p' \<and> repr p' (os @ new)"
proof (induction new arbitrary: p os)
  case (Cons x new)
  obtain c d where x: "x = (c, d)" by (cases x)
  have "\<exists>p'. add p (enc_opt (c, d)) = Some p' \<and> repr p' (os @ [(c, d)])"
    using Cons.prems by (intro add_fits) (simp_all add: x)
  then obtain p' where p': "add p (enc_opt (c, d)) = Some p'" "repr p' (os @ [(c, d)])" by blast
  have "\<exists>p''. add_opts add p' new = Some p'' \<and> repr p'' ((os @ [(c, d)]) @ new)"
    using Cons.prems by (intro Cons.IH p'(2)) (simp_all add: x)
  then show ?case using p'(1) by (auto simp: x)
qed simp

lemma get_add_opts:
  assumes "repr p []" "list_all valid_opt new" "length (enc_opts new) + 1 < cap"
    "DHCP_OPTION_OVERLOAD \<notin> fst ` set new" "add_opts add p new = Some p'"
  shows "get p' c = map_of new c"
  using add_opts_fits [OF assms(1,2)] assms(3-5) get_repr [of p' new c] by auto

end

text \<open>The data of an option, read through the pointer the walker returns and the length byte before it.\<close>

definition opt_data :: "dhcp_packet \<Rightarrow> u8 \<Rightarrow> u8 list option" where
  "opt_data p c =
     (case dhcp_get_option p (uint c) of
        Some (Opt_at off) \<Rightarrow>
          Option.bind (byte_at (dhcp_packet_bytes p) (off - 1))
            (\<lambda>l. bytes_at (dhcp_packet_bytes p) off (unat l))
      | _ \<Rightarrow> None)"

lemma opt_data_repr:
  assumes "opts_repr p os" "DHCP_OPTION_OVERLOAD \<notin> fst ` set os"
  shows "opt_data p c = map_of os c"
proof -
  from assms(1) have wf: "wf_packet p" and v: "list_all valid_opt os" by (simp_all add: opts_repr_def)
  obtain rest where o: "pk_options p = enc_opts os @ DHCP_END # rest"
    using assms(1) by (auto simp: opts_repr_def)
  obtain pre where pre: "dhcp_packet_bytes p = pre @ pk_options p" "length pre = OPTIONS_OFF"
    using wf by (rule dhcp_packet_bytes_options)
  show ?thesis
  proof (cases "opt_off OPTIONS_OFF os c")
    case None
    then show ?thesis
      using opt_off_map_of [of OPTIONS_OFF os c] by (simp add: opt_data_def dhcp_get_option_repr [OF assms])
  next
    case (Some off)
    then obtain d where d: "map_of os c = Some d"
      "bytes_at (pre @ enc_opts os @ DHCP_END # rest) off (length d) = Some d"
      "byte_at (pre @ enc_opts os @ DHCP_END # rest) (off - 1) = Some (of_nat (length d))"
      using opt_off_data [of pre os c off "DHCP_END # rest"] pre(2) v by auto
    have "length d < 256" using d(1) v by (fastforce simp: list_all_iff dest: map_of_SomeD)
    then show ?thesis
      using Some d by (simp add: opt_data_def dhcp_get_option_repr [OF assms] pre o)
  qed
qed

interpretation pko: option_store opts_repr dhcp_add_binary_option opt_data DHCP_OPTIONS_BUFSIZE
proof unfold_locales
  fix p os c d
  assume "opts_repr p os" "valid_opt (c, d)" "length (enc_opts os) + length d + 3 < DHCP_OPTIONS_BUFSIZE"
  then show "\<exists>p'. dhcp_add_binary_option p (enc_opt (c, d)) = Some p' \<and> opts_repr p' (os @ [(c, d)])"
    using dhcp_add_binary_option_fits by blast
next
  fix p os c d
  assume "opts_repr p os" "valid_opt (c, d)" "\<not> length (enc_opts os) + length d + 3 < DHCP_OPTIONS_BUFSIZE"
  then show "dhcp_add_binary_option p (enc_opt (c, d)) = Some p"
    by (rule dhcp_add_binary_option_full)
next
  fix p os c
  assume "opts_repr p os" "DHCP_OPTION_OVERLOAD \<notin> fst ` set os"
  then show "opt_data p c = map_of os c" by (rule opt_data_repr)
qed

lemma put_be32_length [simp]: "length (put_be32 v) = 4" "length (put_be16 w) = 2"
  by (simp_all add: put_be32_def put_be16_def)

lemma get_put_be32 [bo_simps]: "get_be32 (pre @ put_be32 v @ rest) (length pre) = Some v"
  by (simp add: get_be32_def put_be32_def le32_bytes_def bytes_at_def bo_simps)

lemma get_put_be16 [bo_simps]: "get_be16 (pre @ put_be16 v @ rest) (length pre) = Some v"
  by (simp add: get_be16_def put_be16_def le16_bytes_def bytes_at_def bo_simps)

lemma dhcp_add_option_uint32_enc:
  "check_option c 4 \<noteq> OPTION_UNKNOWN \<Longrightarrow>
     dhcp_add_option_uint32 p c v = dhcp_add_binary_option p (enc_opt (c, put_be32 v))"
  by (simp add: dhcp_add_option_uint32_def)

lemma dhcp_add_option_uint16_enc:
  "check_option c 2 \<noteq> OPTION_UNKNOWN \<Longrightarrow>
     dhcp_add_option_uint16 p c v = dhcp_add_binary_option p (enc_opt (c, put_be16 v))"
  by (simp add: dhcp_add_option_uint16_def)

lemma dhcp_add_option_uint8_enc:
  "check_option c 1 \<noteq> OPTION_UNKNOWN \<Longrightarrow>
     dhcp_add_option_uint8 p c v = dhcp_add_binary_option p (enc_opt (c, [v]))"
  by (simp add: dhcp_add_option_uint8_def)

lemma opts_repr_nil_header:
  "opts_repr (zero_packet\<lparr>pk_op := a, htype := 1, hlen := 6, cookie := htonl DHCP_MAGIC,
     pk_options := (replicate OPTIONS_SIZE 0)[0 := DHCP_END]\<rparr>) []"
proof -
  have "(replicate OPTIONS_SIZE (0::u8))[0 := DHCP_END] = DHCP_END # replicate 387 0"
    by (simp add: numeral_eq_Suc)
  then show ?thesis by (auto simp: opts_repr_def wf_packet_def zero_packet_def)
qed

lemma dhcp_init_header_repr:
  obtains p where "dhcp_init_header type = Some p" "opts_repr p [(DHCP_MESSAGE_TYPE, [type])]"
    "p = zero_packet\<lparr>pk_op := (if type = DHCPOFFER \<or> type = DHCPACK \<or> type = DHCPNAK then BOOTREPLY
      else BOOTREQUEST), htype := 1, hlen := 6, cookie := htonl DHCP_MAGIC, pk_options := pk_options p\<rparr>"
proof -
  have "check_option DHCP_MESSAGE_TYPE 1 \<noteq> OPTION_UNKNOWN"
    by code_simp
  note e = dhcp_add_option_uint8_enc [OF this]
  show thesis
    using dhcp_add_binary_option_fits [OF opts_repr_nil_header, of DHCP_MESSAGE_TYPE "[type]"] that
    by (fastforce simp: dhcp_init_header_def e simp del: enc_opt.simps)
qed

subsection \<open>Headers\<close>

text \<open>The packet without its options.\<close>

definition hdr :: "dhcp_packet \<Rightarrow> dhcp_packet" where
  "hdr p = p\<lparr>pk_options := []\<rparr>"

lemma hdr_fields:
  assumes "hdr p = hdr q"
  shows "pk_op p = pk_op q" "xid p = xid q" "pk_flags p = pk_flags q" "ciaddr p = ciaddr q"
    "yiaddr p = yiaddr q" "gateway_nip p = gateway_nip q" "chaddr p = chaddr q" "cookie p = cookie q"
    "wf_packet q \<Longrightarrow> length (pk_options p) = OPTIONS_SIZE \<Longrightarrow> wf_packet p" "hlen p = hlen q"
  using assms by (cases p; cases q; simp add: hdr_def wf_packet_def)+

lemma hdr_options [simp]: "hdr (p\<lparr>pk_options := x\<rparr>) = hdr p"
  by (simp add: hdr_def)

lemma hdr_add_binary_option: "dhcp_add_binary_option p a = Some p' \<Longrightarrow> hdr p' = hdr p"
  by (auto simp: dhcp_add_binary_option_def Let_def split: bind_splits if_splits)

lemma opts_repr_cong: "opts_repr p os \<Longrightarrow> pk_options q = pk_options p \<Longrightarrow> wf_packet q \<Longrightarrow> opts_repr q os"
  by (simp add: opts_repr_def)

lemma add_uint32_repr:
  assumes "opts_repr p os" "check_option c 4 \<noteq> OPTION_UNKNOWN" "c \<noteq> DHCP_PADDING" "c \<noteq> DHCP_END"
    "length (enc_opts os) + 7 < DHCP_OPTIONS_BUFSIZE"
  obtains p' where "dhcp_add_option_uint32 p c v = Some p'" "opts_repr p' (os @ [(c, put_be32 v)])" "hdr p' = hdr p"
proof -
  have "\<exists>p'. dhcp_add_binary_option p (enc_opt (c, put_be32 v)) = Some p' \<and> opts_repr p' (os @ [(c, put_be32 v)])"
    using assms by (intro pko.add_fits) simp_all
  then show thesis
    using that hdr_add_binary_option by (auto simp: dhcp_add_option_uint32_enc [OF assms(2)] simp del: enc_opt.simps)
qed

text \<open>Reading an option of a well-formed packet.\<close>

lemma repr_option_at:
  assumes "opts_repr p os" "DHCP_OPTION_OVERLOAD \<notin> fst ` set os" "map_of os c = Some d"
  obtains q where "dhcp_get_option p (uint c) = Some (Opt_at q)" "bytes_at (dhcp_packet_bytes p) q (length d) = Some d"
proof -
  have wf: "wf_packet p" and v: "list_all valid_opt os" using assms(1) by (simp_all add: opts_repr_def)
  obtain rest where rest: "pk_options p = enc_opts os @ DHCP_END # rest" using assms(1) by (auto simp: opts_repr_def)
  obtain pre where pre: "dhcp_packet_bytes p = pre @ pk_options p" "length pre = OPTIONS_OFF"
    using wf by (rule dhcp_packet_bytes_options)
  obtain q where q: "opt_off (length pre) os c = Some q" using opt_off_map_of [of "length pre" os c] assms(3) by auto
  then show thesis
    using that [of q] opt_off_data [OF q v, of "DHCP_END # rest"] assms(3) pre rest
    by (simp add: dhcp_get_option_repr [OF assms(1,2)])
qed

lemma repr_option_none:
  "opts_repr p os \<Longrightarrow> DHCP_OPTION_OVERLOAD \<notin> fst ` set os \<Longrightarrow> map_of os c = None \<Longrightarrow>
     dhcp_get_option p (uint c) = Some Opt_NULL"
  using opt_off_map_of [of OPTIONS_OFF os c] by (simp add: dhcp_get_option_repr)

section \<open>Termination and memory safety of the option walk\<close>

text \<open>
  One region of the walk: if the restarts the region can jump to return, for every overload
  byte in \<open>Q\<close>, and the region keeps the overload byte in \<open>Q\<close>, the walk of the region returns.
\<close>

definition restarts_return :: "u8 list \<Rightarrow> int \<Rightarrow> u8 \<Rightarrow> bool" where
  "restarts_return m code ov \<longleftrightarrow>
     (if ov AND FILE_FIELD \<noteq> 0 then
        \<exists>r. dhcp_get_option_loop m code (ov AND NOT FILE_FIELD) FILE_OFF 128 = Some r
      else if ov AND SNAME_FIELD \<noteq> 0 then
        \<exists>r. dhcp_get_option_loop m code (ov AND NOT SNAME_FIELD) SNAME_OFF 64 = Some r
      else True)"

lemma region_returns:
  assumes "\<And>ov. Q ov \<Longrightarrow> restarts_return m code ov"
    and "\<And>ov d i. Q ov \<Longrightarrow> p \<le> i \<Longrightarrow> int i < int p + rem \<Longrightarrow> byte_at m i = Some DHCP_OPTION_OVERLOAD \<Longrightarrow> Q (ov OR d)"
    and "Q ov"
  shows "\<exists>r. dhcp_get_option_loop m code ov p rem = Some r"
  using assms(2,3)
proof (induction "nat rem" arbitrary: ov p rem rule: less_induct)
  case less
  show ?case
  proof (cases "rem \<le> 0")
    case True
    then show ?thesis by (subst dhcp_get_option_loop.simps) simp
  next
    case False
    have IH: "\<exists>r. dhcp_get_option_loop m code ov' (p + k) (rem - int k) = Some r"
      if "0 < k" "Q ov'" for k ov'
    proof (rule less.hyps)
      show "nat (rem - int k) < nat rem" using False that(1) by simp
      show "Q ov'" by (rule that(2))
      show "Q (ov'' OR d)" if "Q ov''" "p + k \<le> i" "int i < int (p + k) + (rem - int k)"
          "byte_at m i = Some DHCP_OPTION_OVERLOAD" for ov'' d i
        using less.prems(1) [of ov'' i d] that by simp
    qed
    have stop: "\<exists>r. dhcp_get_option_loop m code ov p r0 = Some r" if "r0 \<le> 0" for r0
      using that by (subst dhcp_get_option_loop.simps) simp
    have next1: "\<exists>r. dhcp_get_option_loop m code ov (p + 1) (rem - 1) = Some r"
      using IH [of 1 ov] less.prems(2) by simp
    have nextl: "\<exists>r. dhcp_get_option_loop m code ov' (Suc (Suc (p + unat l))) (rem - (2 + uint l)) = Some r"
      if "Q ov'" for ov' and l :: u8
      using IH [of "2 + unat l" ov'] that by simp
    have rs: "restarts_return m code ov" by (rule assms(1) [OF less.prems(2)])
    have ovl: "Q (ov OR d)" if "byte_at m p = Some DHCP_OPTION_OVERLOAD" for d
      using less.prems(1) [of ov p d] less.prems(2) that False by simp
    show ?thesis
      using False rs stop next1 nextl [OF less.prems(2)] nextl [OF ovl]
      by (subst dhcp_get_option_loop.simps)
        (auto simp: restarts_return_def split: option.splits if_splits)
  qed
qed

lemma dhcp_get_option_returns:
  assumes wf: "wf_packet p"
    and nf: "DHCP_OPTION_OVERLOAD \<notin> set (pk_file p)" and ns: "DHCP_OPTION_OVERLOAD \<notin> set (sname p)"
  shows "\<exists>r. dhcp_get_option p code = Some r"
proof -
  let ?m = "dhcp_packet_bytes p"
  have nov: "False" if h: "k \<le> i" "int i < int k + int n" "byte_at ?m i = Some DHCP_OPTION_OVERLOAD"
      "(k, n) = (FILE_OFF, 128) \<or> (k, n) = (SNAME_OFF, 64)" for i k n :: nat
  proof -
    obtain j where j: "i = k + j" "j < n" using h(1,2) by (metis add_less_cancel_left le_Suc_ex of_nat_add of_nat_less_iff)
    show False
      using h(3,4) j nf ns wf dhcp_packet_bytes_file [OF wf, of j] dhcp_packet_bytes_sname [OF wf, of j]
      by (auto simp: byte_at_Some wf_packet_def in_set_conv_nth)
  qed
  have s: "restarts_return ?m code ov" if "ov AND FILE_FIELD = 0" for ov
  proof -
    have "\<exists>r. dhcp_get_option_loop ?m code (ov AND NOT SNAME_FIELD) SNAME_OFF 64 = Some r"
    proof (rule region_returns [where Q = "\<lambda>v. v AND FILE_FIELD = 0 \<and> v AND SNAME_FIELD = 0"])
      show "(ov AND NOT SNAME_FIELD) AND FILE_FIELD = 0 \<and> (ov AND NOT SNAME_FIELD) AND SNAME_FIELD = 0"
        using that by (simp add: and.assoc)
    qed (use nov [of SNAME_OFF _ 64] in \<open>auto simp: restarts_return_def\<close>)
    then show ?thesis using that by (simp add: restarts_return_def)
  qed
  have f: "restarts_return ?m code ov" for ov
  proof (cases "ov AND FILE_FIELD = 0")
    case True
    then show ?thesis by (rule s)
  next
    case False
    have "\<exists>r. dhcp_get_option_loop ?m code (ov AND NOT FILE_FIELD) FILE_OFF 128 = Some r"
    proof (rule region_returns [where Q = "\<lambda>v. v AND FILE_FIELD = 0"])
      show "(ov AND NOT FILE_FIELD) AND FILE_FIELD = 0"
        by (simp add: and.assoc)
    qed (use nov [of FILE_OFF _ 128] s in auto)
    then show ?thesis using False by (simp add: restarts_return_def)
  qed
  show ?thesis unfolding dhcp_get_option_def
    by (rule region_returns [where Q = "\<lambda>_. True"]) (simp_all add: f)
qed

text \<open>An overload option in the overloaded field sends the walk round the field for ever.\<close>

lemma overload_loop_diverges:
  assumes "byte_at m FILE_OFF = Some DHCP_OPTION_OVERLOAD" "byte_at m (FILE_OFF + 1) = Some 1"
    "byte_at m (FILE_OFF + 2) = Some FILE_FIELD" "byte_at m (FILE_OFF + 3) = Some DHCP_END"
    "code \<noteq> uint DHCP_OPTION_OVERLOAD"
  shows "dhcp_get_option_loop m code 0 FILE_OFF 128 = None"
proof (rule ccontr)
  assume "dhcp_get_option_loop m code 0 FILE_OFF 128 \<noteq> None"
  then obtain r where r: "dhcp_get_option_loop m code 0 FILE_OFF 128 = Some r" by blast
  define C where "C = (\<lambda>(ov :: u8) (p :: nat) (rem :: int).
    (ov = 0 \<and> p = FILE_OFF \<and> rem = 128) \<or> (ov = 1 \<and> p = FILE_OFF + 3 \<and> rem = 125))"
  have "m = m \<longrightarrow> code = code \<longrightarrow> \<not> C 0 FILE_OFF 128"
  proof (rule dhcp_get_option_loop.raw_induct
      [where P = "\<lambda>m' code' ov p rem r. m' = m \<longrightarrow> code' = code \<longrightarrow> \<not> C ov p rem", OF _ r], intro impI)
    fix f m' code' ov p rem r
    assume IH: "\<And>m' code' ov p rem r. f m' code' ov p rem = Some r \<Longrightarrow>
        m' = m \<longrightarrow> code' = code \<longrightarrow> \<not> C ov p rem"
      and mc: "m' = m" "code' = code"
      and eq: "(if rem \<le> 0 then Some Opt_NULL
      else case byte_at m' p of
          None \<Rightarrow> Some Opt_oob
        | Some c \<Rightarrow>
          if c = DHCP_PADDING then f m' code' ov (p + 1) (rem - 1)
          else if c = DHCP_END then
            (if ov AND FILE_FIELD \<noteq> 0 then f m' code' (ov AND NOT FILE_FIELD) FILE_OFF 128
             else if ov AND SNAME_FIELD \<noteq> 0 then f m' code' (ov AND NOT SNAME_FIELD) SNAME_OFF 64
             else Some Opt_NULL)
          else
            case byte_at m' (p + 1) of
              None \<Rightarrow> Some Opt_oob
            | Some l \<Rightarrow>
              if rem - (2 + uint l) < 0 then f m' code' ov p (rem - (2 + uint l))
              else if uint c = code' then Some (Opt_at (p + 2))
              else if c = DHCP_OPTION_OVERLOAD then
                (case byte_at m' (p + 2) of
                   None \<Rightarrow> Some Opt_oob
                 | Some d \<Rightarrow> f m' code' (ov OR d) (p + (2 + unat l)) (rem - (2 + uint l)))
              else f m' code' ov (p + (2 + unat l)) (rem - (2 + uint l))) = Some r"
    show "\<not> C ov p rem"
    proof
      assume c: "C ov p rem"
      have "f m code 1 (FILE_OFF + 3) 125 \<noteq> Some r" "f m code 0 FILE_OFF 128 \<noteq> Some r"
        using IH [of m code 1 "FILE_OFF + 3" 125 r] IH [of m code 0 FILE_OFF 128 r] by (auto simp: C_def)
      then show False using c eq mc assms by (auto simp: C_def)
    qed
  qed
  then show False by (simp add: C_def)
qed

text \<open>
  Where the walk can be: inside one of the three fields, with the remaining length reaching to
  the end of that field.
\<close>

definition walk_inv :: "nat \<Rightarrow> int \<Rightarrow> bool" where
  "walk_inv p rem \<longleftrightarrow> (\<exists>e \<in> {PACKET_SIZE, FILE_OFF + 128, SNAME_OFF + 64}. rem \<le> int e - int p)"

definition opt_ptr_ok :: "u8 list \<Rightarrow> int \<Rightarrow> opt_ptr \<Rightarrow> bool" where
  "opt_ptr_ok m code r \<longleftrightarrow>
     (case r of
        Opt_oob \<Rightarrow> False
      | Opt_NULL \<Rightarrow> True
      | Opt_at q \<Rightarrow> 2 \<le> q \<and> q + unat (m ! (q - 1)) \<le> PACKET_SIZE \<and> uint (m ! (q - 2)) = code \<and>
          m ! (q - 2) \<noteq> DHCP_PADDING)"

lemma opt_ptr_ok_simps [simp]:
  "opt_ptr_ok m code Opt_NULL" "\<not> opt_ptr_ok m code Opt_oob"
  "opt_ptr_ok m code (Opt_at (Suc (Suc p))) \<longleftrightarrow>
     Suc (Suc p) + unat (m ! Suc p) \<le> PACKET_SIZE \<and> uint (m ! p) = code \<and> m ! p \<noteq> DHCP_PADDING"
  by (simp_all add: opt_ptr_ok_def)

lemma walk_inv_mono: "walk_inv p rem \<Longrightarrow> rem' \<le> rem \<Longrightarrow> walk_inv p rem'"
  by (auto simp: walk_inv_def)

lemma walk_inv_next: "walk_inv p rem \<Longrightarrow> walk_inv (p + k) (rem - int k)"
  by (auto simp: walk_inv_def)

lemma dhcp_get_option_loop_safe:
  assumes ret: "dhcp_get_option_loop m0 code0 ov0 p0 rem0 = Some r0"
    and m0: "length m0 = PACKET_SIZE" "m0 ! (PACKET_SIZE - 2) = 0" "m0 ! (PACKET_SIZE - 1) = 0"
    and inv0: "walk_inv p0 rem0"
  shows "opt_ptr_ok m0 code0 r0"
proof -
  have "m0 = m0 \<longrightarrow> walk_inv p0 rem0 \<longrightarrow> opt_ptr_ok m0 code0 r0"
  proof (rule dhcp_get_option_loop.raw_induct
      [where P = "\<lambda>m code ov p rem r. m = m0 \<longrightarrow> walk_inv p rem \<longrightarrow> opt_ptr_ok m code r", OF _ ret], intro impI)
    fix f m code ov p rem r
    assume IH: "\<And>m code ov p rem r. f m code ov p rem = Some r \<Longrightarrow>
        m = m0 \<longrightarrow> walk_inv p rem \<longrightarrow> opt_ptr_ok m code r"
      and mm: "m = m0" and inv: "walk_inv p rem"
      and eq: "(if rem \<le> 0 then Some Opt_NULL
      else case byte_at m p of
          None \<Rightarrow> Some Opt_oob
        | Some c \<Rightarrow>
          if c = DHCP_PADDING then f m code ov (p + 1) (rem - 1)
          else if c = DHCP_END then
            (if ov AND FILE_FIELD \<noteq> 0 then f m code (ov AND NOT FILE_FIELD) FILE_OFF 128
             else if ov AND SNAME_FIELD \<noteq> 0 then f m code (ov AND NOT SNAME_FIELD) SNAME_OFF 64
             else Some Opt_NULL)
          else
            case byte_at m (p + 1) of
              None \<Rightarrow> Some Opt_oob
            | Some l \<Rightarrow>
              if rem - (2 + uint l) < 0 then f m code ov p (rem - (2 + uint l))
              else if uint c = code then Some (Opt_at (p + 2))
              else if c = DHCP_OPTION_OVERLOAD then
                (case byte_at m (p + 2) of
                   None \<Rightarrow> Some Opt_oob
                 | Some d \<Rightarrow> f m code (ov OR d) (p + (2 + unat l)) (rem - (2 + uint l)))
              else f m code ov (p + (2 + unat l)) (rem - (2 + uint l))) = Some r"
    have IH': "opt_ptr_ok m0 code r" if "f m0 code ov p rem = Some r" "walk_inv p rem" for code ov p rem r
      using IH [OF that(1)] that(2) by simp
    have inv1: "walk_inv (Suc p) (rem - 1)" "walk_inv p (rem - (2 + uint (l :: u8)))"
      "walk_inv (Suc (Suc (p + unat (l :: u8)))) (rem - (2 + uint l))"
      "walk_inv FILE_OFF 128" "walk_inv SNAME_OFF 64" for l
      using walk_inv_next [OF inv, of 1] walk_inv_next [OF inv, of "2 + unat l"]
        walk_inv_mono [OF inv, of "rem - (2 + uint l)"] order_trans [OF _ uint_u8_range(1), of "- 2" l]
      by (simp_all add: walk_inv_def [of FILE_OFF] walk_inv_def [of SNAME_OFF])
    show "opt_ptr_ok m code r"
    proof (cases "rem \<le> 0")
      case True
      then show ?thesis using eq by auto
    next
      case False
      then have p: "p < PACKET_SIZE" using inv by (auto simp: walk_inv_def)
      have p1: "p < PACKET_SIZE - 2" if "m ! p \<noteq> 0"
        using that p m0 mm by (cases "p = PACKET_SIZE - 2 \<or> p = PACKET_SIZE - 1") auto
      have fit: "p + 2 + unat l \<le> PACKET_SIZE" if "\<not> rem < 2 + uint l" for l :: u8
      proof -
        have "int (p + 2 + unat l) \<le> int PACKET_SIZE"
          using that inv by (auto simp: walk_inv_def)
        then show ?thesis by (simp only: of_nat_le_iff)
      qed
      show ?thesis
        using eq False p p1 m0(1) fit unfolding mm
        by (auto simp: byte_at_def inv1 intro: IH' split: if_splits)
    qed
  qed
  then show ?thesis using inv0 by simp
qed

section \<open>Packet images\<close>

lemma le_bytes_of [bo_simps]:
  "le32_bytes (le32_of a b c d) = [a, b, c, d]" "le16_bytes (le16_of a b) = [a, b]"
  by (simp_all add: le32_bytes_def le16_bytes_def bo_simps)

lemma rd32_le32: "rd32 (le32_bytes w) 0 = w"
  by (simp add: rd32_def le32_bytes_def le32_of_bytes)

lemma rd16_le16: "rd16 (le16_bytes w) 0 = w"
  by (simp add: rd16_def le16_bytes_def le16_of_bytes)

lemma take4_drop: "p + 4 \<le> length m \<Longrightarrow> take 4 (drop p m) = [m ! p, m ! (p + 1), m ! (p + 2), m ! (p + 3)]"
  by (rule nth_equalityI) (auto simp: nth_Cons' less_Suc_eq numeral_eq_Suc)

lemma take2_drop: "p + 2 \<le> length m \<Longrightarrow> take 2 (drop p m) = [m ! p, m ! Suc p]"
  by (rule nth_equalityI) (auto simp: nth_Cons' less_Suc_eq numeral_eq_Suc)

lemma le32_rd32: "p + 4 \<le> length m \<Longrightarrow> le32_bytes (rd32 m p) = take 4 (drop p m)"
  by (simp add: take4_drop rd32_def le_bytes_of)

lemma le16_rd16: "p + 2 \<le> length m \<Longrightarrow> le16_bytes (rd16 m p) = take 2 (drop p m)"
  by (simp add: take2_drop rd16_def le_bytes_of)

lemma take_drop_app: "q = p + a \<Longrightarrow> take a (drop p m) @ drop q m = drop p m"
  by (metis append_take_drop_id drop_drop add.commute)

lemma bytes_of_bytes:
  assumes "length m = PACKET_SIZE"
  shows "dhcp_packet_bytes (dhcp_packet_of_bytes m) = m"
proof -
  have "dhcp_packet_bytes (dhcp_packet_of_bytes m) =
    take 4 (drop 0 m) @ take 4 (drop 4 m) @ take 2 (drop 8 m) @ take 2 (drop 10 m) @ take 4 (drop 12 m) @
    take 4 (drop 16 m) @ take 4 (drop 20 m) @ take 4 (drop 24 m) @ take 16 (drop 28 m) @
    take 64 (drop 44 m) @ take 128 (drop 108 m) @ take 4 (drop 236 m) @ take 388 (drop 240 m)"
    using assms take4_drop [of 0 m]
    by (simp add: dhcp_packet_bytes_def dhcp_packet_of_bytes_def le32_rd32 le16_rd16 numeral_2_eq_2)
  also have "\<dots> = m"
    using assms by (simp add: take_drop_app)
  finally show ?thesis .
qed

lemma wf_of_bytes: "length m = PACKET_SIZE \<Longrightarrow> wf_packet (dhcp_packet_of_bytes m)"
  by (simp add: wf_packet_def dhcp_packet_of_bytes_def)

lemma dhcp_packet_bytes_inj:
  assumes "dhcp_packet_bytes p = dhcp_packet_bytes q" "wf_packet p" "wf_packet q"
  shows "p = q"
proof -
  have le32: "le32_bytes a = le32_bytes b \<longleftrightarrow> a = b" for a b
    by (metis rd32_le32)
  have le16: "le16_bytes a = le16_bytes b \<longleftrightarrow> a = b" for a b
    by (metis rd16_le16)
  show ?thesis using assms
    by (intro dhcp_packet.equality) (simp_all add: dhcp_packet_bytes_def wf_packet_def le32 le16)
qed

lemma of_bytes_bytes: "wf_packet p \<Longrightarrow> dhcp_packet_of_bytes (dhcp_packet_bytes p) = p"
  by (rule dhcp_packet_bytes_inj) (simp_all add: bytes_of_bytes wf_of_bytes)

lemma wf_zero_packet [simp]: "wf_packet zero_packet"
  by (simp add: wf_packet_def zero_packet_def)

lemma wf_recv: "wf_packet (snd (dhcp_recv_l3_packet rd))"
  by (auto simp: dhcp_recv_l3_packet_def Let_def wf_of_bytes split: sum.splits)

section \<open>Checksums and raw packets\<close>

text \<open>
  \<^verbatim>\<open>dhcp_checksum\<close>: the sum of the 16-bit words in host order, the left-over byte in the low
  half on a little-endian host, folded and complemented. The C sum is an \<^verbatim>\<open>int32_t\<close>; it is a
  natural number here, and \<open>checksum_sum_bound\<close> shows that it does not overflow for buffers of
  up to 65536 bytes.
\<close>

fun checksum_sum :: "nat \<Rightarrow> u8 list \<Rightarrow> nat" where
  "checksum_sum s (a # b # source) = checksum_sum (s + unat (le16_of a b)) source"
| "checksum_sum s [a] = s + unat (le16_of a 0)"
| "checksum_sum s [] = s"

function checksum_fold :: "nat \<Rightarrow> nat" where
  "checksum_fold s = (if s div 65536 \<noteq> 0 then checksum_fold (s mod 65536 + s div 65536) else s)"
  by pat_completeness auto
termination
proof (relation "measure (\<lambda>s. s)")
  fix s :: nat
  assume "s div 65536 \<noteq> 0"
  then have "s div 65536 < s div 65536 * 65536" by simp
  moreover have "s div 65536 * 65536 + s mod 65536 = s" by (rule div_mult_mod_eq)
  ultimately show "(s mod 65536 + s div 65536, s) \<in> measure (\<lambda>s. s)"
    unfolding in_measure by linarith
qed simp

declare checksum_fold.simps [simp del]

definition dhcp_checksum :: "u8 list \<Rightarrow> u16" where
  "dhcp_checksum bs = NOT (of_nat (checksum_fold (checksum_sum 0 bs)))"

record iphdr =
  ip_vihl :: u8
  ip_tos :: u8
  ip_tot_len :: u16
  ip_id :: u16
  ip_frag_off :: u16
  ip_ttl :: u8
  ip_protocol :: u8
  ip_check :: u16
  ip_saddr :: u32
  ip_daddr :: u32

record udphdr =
  udp_source :: u16
  udp_dest :: u16
  udp_len :: u16
  udp_check :: u16

definition iphdr_bytes :: "iphdr \<Rightarrow> u8 list" where
  "iphdr_bytes h =
     [ip_vihl h, ip_tos h] @ le16_bytes (ip_tot_len h) @ le16_bytes (ip_id h) @ le16_bytes (ip_frag_off h) @
     [ip_ttl h, ip_protocol h] @ le16_bytes (ip_check h) @ le32_bytes (ip_saddr h) @ le32_bytes (ip_daddr h)"

definition udphdr_bytes :: "udphdr \<Rightarrow> u8 list" where
  "udphdr_bytes h =
     le16_bytes (udp_source h) @ le16_bytes (udp_dest h) @ le16_bytes (udp_len h) @ le16_bytes (udp_check h)"

abbreviation "IP_UPD_DHCP_SIZE \<equiv> (576 :: nat)"
abbreviation "UPD_DHCP_SIZE \<equiv> (556 :: nat)"
abbreviation "DHCP_SIZE \<equiv> (548 :: nat)"
abbreviation "IPPROTO_UDP \<equiv> (17 :: u8)"

text \<open>The results of the system calls: an errno on the left, a non-negative value on the right.\<close>

record raw_io =
  socket_ret :: "int + int"
  bind_ret :: "int + int"
  sendto_ret :: "int + int"

definition raw_image :: "iphdr \<Rightarrow> udphdr \<Rightarrow> dhcp_packet \<Rightarrow> u8 list" where
  "raw_image ip udp pkt = take IP_UPD_DHCP_SIZE (iphdr_bytes ip @ udphdr_bytes udp @ dhcp_packet_bytes pkt)"

definition raw_frame :: "dhcp_packet \<Rightarrow> u32 \<Rightarrow> u16 \<Rightarrow> u32 \<Rightarrow> u16 \<Rightarrow> u8 list" where
  "raw_frame pkt source_ip source_port dest_ip dest_port =
     (let ip = \<lparr>ip_vihl = 0, ip_tos = 0, ip_tot_len = 0, ip_id = 0, ip_frag_off = 0, ip_ttl = 0,
                ip_protocol = IPPROTO_UDP, ip_check = 0, ip_saddr = source_ip, ip_daddr = dest_ip\<rparr>;
          udp = \<lparr>udp_source = htons source_port, udp_dest = htons dest_port,
                 udp_len = htons (of_nat UPD_DHCP_SIZE), udp_check = 0\<rparr>;
          ip = ip\<lparr>ip_tot_len := udp_len udp\<rparr>;
          udp = udp\<lparr>udp_check := dhcp_checksum (raw_image ip udp pkt)\<rparr>;
          ip = ip\<lparr>ip_tot_len := htons (of_nat IP_UPD_DHCP_SIZE), ip_vihl := 0x45, ip_ttl := 64\<rparr>;
          ip = ip\<lparr>ip_check := dhcp_checksum (iphdr_bytes ip)\<rparr>
      in raw_image ip udp pkt)"

definition dhcp_send_raw_packet ::
    "raw_io \<Rightarrow> dhcp_packet \<Rightarrow> u32 \<Rightarrow> u16 \<Rightarrow> u32 \<Rightarrow> u16 \<Rightarrow> u8 list \<Rightarrow> int \<Rightarrow> bool \<Rightarrow>
       int \<times> dhcp_packet \<times> (u8 list \<times> u8 list \<times> int) option" where
  "dhcp_send_raw_packet io dhcp_pkt source_ip source_port dest_ip dest_port dest_arp ifindex bcast =
     (case socket_ret io of
        Inl e \<Rightarrow> (- e, dhcp_pkt, None)
      | Inr _ \<Rightarrow>
        let dhcp_pkt = (if bcast then dhcp_pkt\<lparr>pk_flags := pk_flags dhcp_pkt OR htons BROADCAST_FLAG\<rparr> else dhcp_pkt) in
        case bind_ret io of
          Inl e \<Rightarrow> (- e, dhcp_pkt, None)
        | Inr _ \<Rightarrow>
          let frame = raw_frame dhcp_pkt source_ip source_port dest_ip dest_port;
              sent = Some (frame, take 6 dest_arp, ifindex)
          in (case sendto_ret io of Inl e \<Rightarrow> (- e, dhcp_pkt, sent) | Inr n \<Rightarrow> (n, dhcp_pkt, sent)))"

section \<open>Interfaces and sockets\<close>

abbreviation "SERVER_PORT \<equiv> (67 :: u16)"
abbreviation "CLIENT_PORT \<equiv> (68 :: u16)"
abbreviation "INADDR_BROADCAST \<equiv> (0xffffffff :: u32)"

datatype GDHCPType = G_DHCP_IPV4 | G_DHCP_IPV6 | G_DHCP_IPV4LL

text \<open>
  Interface queries: the kernel's answers to the calls of one query, an errno on the left.
\<close>

record if_io =
  if_socket :: "int + int"
  if_name :: "int + string"
  if_flags :: "int + u16"
  if_addr :: "int + u32"

abbreviation "IFF_UP \<equiv> (1 :: u16)"

definition get_interface_name :: "if_io \<Rightarrow> int \<Rightarrow> string option" where
  "get_interface_name io index =
     (if index < 0 then None
      else case if_socket io of
          Inl _ \<Rightarrow> None
        | Inr _ \<Rightarrow> (case if_name io of Inl _ \<Rightarrow> None | Inr n \<Rightarrow> Some n))"

definition interface_is_up :: "if_io \<Rightarrow> int \<Rightarrow> bool" where
  "interface_is_up io index =
     (case if_socket io of
        Inl _ \<Rightarrow> False
      | Inr _ \<Rightarrow>
        (case if_name io of
           Inl _ \<Rightarrow> False
         | Inr _ \<Rightarrow> (case if_flags io of Inl _ \<Rightarrow> False | Inr fl \<Rightarrow> fl AND IFF_UP \<noteq> 0)))"

record l3_io =
  l3_socket :: "int + int"
  l3_bindtodevice :: "int + int"
  l3_bind :: "int + int"

datatype addr_family = AF_INET | AF_INET6 | AF_OTHER

definition dhcp_l3_socket :: "l3_io \<Rightarrow> addr_family \<Rightarrow> int" where
  "dhcp_l3_socket io family =
     (case l3_socket io of
        Inl errno \<Rightarrow> - errno
      | Inr fd \<Rightarrow>
        (case l3_bindtodevice io of
           Inl _ \<Rightarrow> - 1
         | Inr _ \<Rightarrow>
           if family = AF_OTHER then - EINVAL
           else (case l3_bind io of Inl _ \<Rightarrow> - 1 | Inr _ \<Rightarrow> fd)))"

text \<open>Sending through an ordinary socket: the bytes the kernel is given, with the addresses and ports of both ends.\<close>

record kernel_io =
  kn_socket :: "int + int"
  kn_bind :: "int + int"
  kn_connect :: "int + int"
  kn_write :: "int + int"

definition dhcp_send_kernel_packet ::
    "kernel_io \<Rightarrow> dhcp_packet \<Rightarrow> u32 \<Rightarrow> u16 \<Rightarrow> u32 \<Rightarrow> u16 \<Rightarrow> int \<times> (u8 list \<times> u32 \<times> u16 \<times> u32 \<times> u16) option" where
  "dhcp_send_kernel_packet io dhcp_pkt source_ip source_port dest_ip dest_port =
     (case kn_socket io of
        Inl e \<Rightarrow> (- e, None)
      | Inr _ \<Rightarrow>
        (case kn_bind io of
           Inl e \<Rightarrow> (- e, None)
         | Inr _ \<Rightarrow>
           (case kn_connect io of
              Inl e \<Rightarrow> (- e, None)
            | Inr _ \<Rightarrow>
              let sent = Some (take DHCP_SIZE (dhcp_packet_bytes dhcp_pkt), source_ip, source_port, dest_ip, dest_port)
              in (case kn_write io of Inl e \<Rightarrow> (- e, sent) | Inr n \<Rightarrow> (n, sent)))))"

text \<open>
  \<^verbatim>\<open>dhcpv6_send_packet\<close>: the packet goes from the client port to the server port of all servers and relay agents on the
  link of the interface. \<open>alloc\<close> says whether there is memory for the control message.
\<close>

definition ALL_DHCP_SERVERS :: "u8 list" where
  "ALL_DHCP_SERVERS = [0xff, 0x02, 0, 0, 0, 0, 0, 0, 0, 0, 0, 0, 0, 1, 0, 2]"

definition dhcpv6_send_packet ::
    "kernel_io \<Rightarrow> bool \<Rightarrow> int \<Rightarrow> u8 list \<Rightarrow> nat \<Rightarrow> (int \<times> (u8 list \<times> u8 list \<times> int) option) option" where
  "dhcpv6_send_packet io alloc index dhcp_pkt len =
     (case kn_socket io of
        Inl e \<Rightarrow> Some (- e, None)
      | Inr _ \<Rightarrow>
        (case kn_bind io of
           Inl e \<Rightarrow> Some (- e, None)
         | Inr _ \<Rightarrow>
           if \<not> alloc then Some (- ENOMEM, None)
           else do {
             bs \<leftarrow> bytes_at dhcp_pkt 0 len;
             let sent = Some (bs, ALL_DHCP_SERVERS, index);
             Some (case kn_write io of Inl e \<Rightarrow> (- 1, sent) | Inr n \<Rightarrow> (n, sent)) }))"

text \<open>\<^verbatim>\<open>dhcpv6_recv_l3_packet\<close>: the buffer after the read, and the packet only if the read succeeds.\<close>

definition dhcpv6_recv_l3_packet :: "u8 list \<Rightarrow> int + u8 list \<Rightarrow> int \<times> u8 list option" where
  "dhcpv6_recv_l3_packet buf rd =
     (case rd of
        Inl errno \<Rightarrow> (- errno, None)
      | Inr bs \<Rightarrow> let got = take (length buf) bs in (int (length got), Some (got @ drop (length got) buf)))"

subsection \<open>One's complement sums\<close>

lemma checksum_sum_acc: "checksum_sum s bs = s + checksum_sum 0 bs"
proof (induction bs arbitrary: s rule: induct_list012)
  case (3 x y zs)
  have "checksum_sum (s + unat (le16_of x y)) zs = s + (unat (le16_of x y) + checksum_sum 0 zs)"
    by (subst "3.IH"(1)) simp
  also have "unat (le16_of x y) + checksum_sum 0 zs = checksum_sum (unat (le16_of x y)) zs"
    by (rule "3.IH"(1) [symmetric])
  finally show ?case by simp
qed simp_all

lemma checksum_sum_Cons2 [simp]: "checksum_sum 0 (a # b # bs) = unat (le16_of a b) + checksum_sum 0 bs"
  using checksum_sum_acc [of "unat (le16_of a b)" bs] by simp

declare checksum_sum.simps(1) [simp del]

lemma checksum_sum_append:
  "even (length xs) \<Longrightarrow> checksum_sum 0 (xs @ ys) = checksum_sum 0 xs + checksum_sum 0 ys"
proof (induction xs rule: induct_list012)
  case (3 x y zs)
  then show ?case by simp
qed (simp_all)

lemma checksum_fold_mod: "checksum_fold s mod 65535 = s mod 65535"
proof (induction s rule: checksum_fold.induct)
  case (1 s)
  show ?case
  proof (cases "s div 65536 = 0")
    case False
    have "s = s div 65536 * 65535 + (s mod 65536 + s div 65536)"
      using div_mult_mod_eq [of s 65536] by linarith
    then have "(s mod 65536 + s div 65536) mod 65535 = s mod 65535"
      by (metis mod_mult_self3)
    with 1 False show ?thesis by (subst checksum_fold.simps) simp
  qed (subst checksum_fold.simps, simp)
qed

lemma checksum_fold_le: "checksum_fold s < 65536"
  by (induction s rule: checksum_fold.induct) (subst checksum_fold.simps, auto)

lemma checksum_fold_0: "checksum_fold s = 0 \<longleftrightarrow> s = 0"
proof (induction s rule: checksum_fold.induct)
  case (1 s)
  then show ?case by (subst checksum_fold.simps) auto
qed

lemma unat_not_u16: "unat (NOT w :: u16) = 65535 - unat w"
proof -
  have "NOT w = - 1 - w" by (simp add: not_eq_complement)
  moreover have "unat (- 1 - w) = unat (- 1 :: u16) - unat w"
    by (rule unat_sub) (rule word_order.extremum)
  moreover have "unat (- 1 :: u16) = 65535" by (simp add: unsigned_minus_1_eq_mask mask_eq_exp_minus_1)
  ultimately show ?thesis by simp
qed

lemma unat_dhcp_checksum: "unat (dhcp_checksum bs) = 65535 - checksum_fold (checksum_sum 0 bs)"
  using checksum_fold_le [of "checksum_sum 0 bs"]
  by (simp add: dhcp_checksum_def unat_not_u16 unsigned_of_nat take_bit_nat_eq_self)

lemma dhcp_checksum_0I:
  assumes "checksum_sum 0 bs > 0" "checksum_sum 0 bs mod 65535 = 0"
  shows "dhcp_checksum bs = 0"
proof -
  let ?f = "checksum_fold (checksum_sum 0 bs)"
  have f: "65535 dvd ?f" "?f < 65536" "?f \<noteq> 0"
    using assms by (simp_all add: checksum_fold_mod checksum_fold_le checksum_fold_0 mod_eq_0_iff_dvd [symmetric])
  from f(1) obtain k where "?f = 65535 * k" by (rule dvdE)
  with f(2,3) have "?f = 65535" by (cases k) auto
  then have "unat (dhcp_checksum bs) = 0" by (simp add: unat_dhcp_checksum)
  then show ?thesis by (simp add: unat_eq_0)
qed

lemma checksum_insert:
  assumes "checksum_sum 0 bs > 0" "checksum_sum 0 bs' = checksum_sum 0 bs + unat (dhcp_checksum bs)"
  shows "dhcp_checksum bs' = 0"
proof (rule dhcp_checksum_0I)
  let ?s = "checksum_sum 0 bs" let ?f = "checksum_fold ?s"
  show "checksum_sum 0 bs' > 0" using assms by simp
  have "(?s + (65535 - ?f)) mod 65535 = (?f + (65535 - ?f)) mod 65535"
    by (metis checksum_fold_mod mod_add_left_eq)
  also have "\<dots> = 0" using checksum_fold_le [of ?s] by simp
  finally show "checksum_sum 0 bs' mod 65535 = 0"
    by (simp add: assms(2) unat_dhcp_checksum)
qed

lemma checksum_sum_le16 [simp]: "checksum_sum 0 (le16_bytes w @ bs) = unat w + checksum_sum 0 bs"
  by (simp add: le16_bytes_def le16_of_bytes)

lemma checksum_sum_bound: "checksum_sum 0 bs \<le> 65535 * ((length bs + 1) div 2)"
proof (induction bs rule: induct_list012)
  case (3 x y zs)
  have "unat (le16_of x y) \<le> 65535"
    using unsigned_less [where 'a = nat, of "le16_of x y"] by simp
  with 3 show ?case by simp
next
  case (2 x)
  have "unat (le16_of x 0) \<le> 65535"
    using unsigned_less [where 'a = nat, of "le16_of x 0"] by simp
  then show ?case by simp
qed simp


lemma checksum_sum_le32 [simp]:
  "checksum_sum 0 (le32_bytes w @ bs) = checksum_sum 0 (le32_bytes w) + checksum_sum 0 bs"
  by (rule checksum_sum_append) simp

text \<open>The UDP pseudo header of RFC 768.\<close>

definition udp_pseudo :: "u32 \<Rightarrow> u32 \<Rightarrow> nat \<Rightarrow> u8 list" where
  "udp_pseudo saddr daddr len =
     le32_bytes saddr @ le32_bytes daddr @ [0, IPPROTO_UDP] @ le16_bytes (htons (of_nat len))"

lemma length_hdr_bytes [simp]: "length (iphdr_bytes h) = 20" "length (udphdr_bytes u) = 8"
  by (simp_all add: iphdr_bytes_def udphdr_bytes_def)

lemma raw_frame_split:
  assumes "wf_packet pkt"
  obtains ipc udpc where
    "raw_frame pkt s sp d dp =
      iphdr_bytes \<lparr>ip_vihl = 0x45, ip_tos = 0, ip_tot_len = htons 576, ip_id = 0, ip_frag_off = 0,
        ip_ttl = 64, ip_protocol = IPPROTO_UDP, ip_check = ipc, ip_saddr = s, ip_daddr = d\<rparr> @
      udphdr_bytes \<lparr>udp_source = htons sp, udp_dest = htons dp, udp_len = htons 556, udp_check = udpc\<rparr> @
      take DHCP_SIZE (dhcp_packet_bytes pkt)"
    "ipc = dhcp_checksum (iphdr_bytes \<lparr>ip_vihl = 0x45, ip_tos = 0, ip_tot_len = htons 576, ip_id = 0,
        ip_frag_off = 0, ip_ttl = 64, ip_protocol = IPPROTO_UDP, ip_check = 0, ip_saddr = s, ip_daddr = d\<rparr>)"
    "udpc = dhcp_checksum (iphdr_bytes \<lparr>ip_vihl = 0, ip_tos = 0, ip_tot_len = htons 556, ip_id = 0,
        ip_frag_off = 0, ip_ttl = 0, ip_protocol = IPPROTO_UDP, ip_check = 0, ip_saddr = s, ip_daddr = d\<rparr> @
      udphdr_bytes \<lparr>udp_source = htons sp, udp_dest = htons dp, udp_len = htons 556, udp_check = 0\<rparr> @
      take DHCP_SIZE (dhcp_packet_bytes pkt))"
proof -
  show thesis by (rule that [OF _ refl refl]) (simp add: raw_frame_def raw_image_def)
qed

lemma raw_frame_valid:
  assumes "wf_packet pkt" and f_def: "f = raw_frame pkt s sp d dp"
  shows "length f = IP_UPD_DHCP_SIZE" "dhcp_checksum (take 20 f) = 0"
    "dhcp_checksum (udp_pseudo s d UPD_DHCP_SIZE @ drop 20 f) = 0"
    "drop 28 f = take DHCP_SIZE (dhcp_packet_bytes pkt)"
proof -
  let ?dh = "take DHCP_SIZE (dhcp_packet_bytes pkt)"
  obtain ipc udpc where
    f: "f = iphdr_bytes \<lparr>ip_vihl = 0x45, ip_tos = 0, ip_tot_len = htons 576, ip_id = 0, ip_frag_off = 0,
        ip_ttl = 64, ip_protocol = IPPROTO_UDP, ip_check = ipc, ip_saddr = s, ip_daddr = d\<rparr> @
      udphdr_bytes \<lparr>udp_source = htons sp, udp_dest = htons dp, udp_len = htons 556, udp_check = udpc\<rparr> @
      take DHCP_SIZE (dhcp_packet_bytes pkt)" (is "f = ?ip @ ?udp @ _")
    and ipc: "ipc = dhcp_checksum (iphdr_bytes \<lparr>ip_vihl = 0x45, ip_tos = 0, ip_tot_len = htons 576,
        ip_id = 0, ip_frag_off = 0, ip_ttl = 64, ip_protocol = IPPROTO_UDP, ip_check = 0, ip_saddr = s,
        ip_daddr = d\<rparr>)" (is "_ = dhcp_checksum ?iz")
    and udpc: "udpc = dhcp_checksum (iphdr_bytes \<lparr>ip_vihl = 0, ip_tos = 0, ip_tot_len = htons 556,
        ip_id = 0, ip_frag_off = 0, ip_ttl = 0, ip_protocol = IPPROTO_UDP, ip_check = 0, ip_saddr = s,
        ip_daddr = d\<rparr> @ udphdr_bytes \<lparr>udp_source = htons sp, udp_dest = htons dp,
        udp_len = htons 556, udp_check = 0\<rparr> @ ?dh)" (is "_ = dhcp_checksum ?uz")
    unfolding f_def by (rule raw_frame_split [OF assms(1)])
  show "length f = IP_UPD_DHCP_SIZE" "drop 28 f = take DHCP_SIZE (dhcp_packet_bytes pkt)"
    using assms(1) by (simp_all add: f)
  have "checksum_sum 0 ?ip = checksum_sum 0 ?iz + unat ipc"
    by (simp add: iphdr_bytes_def)
  moreover have "checksum_sum 0 ?iz > 0"
    by (simp add: iphdr_bytes_def le16_of_def)
  ultimately show "dhcp_checksum (take 20 f) = 0"
    using checksum_insert [of ?iz ?ip] ipc by (simp add: f)
  have "checksum_sum 0 (udp_pseudo s d UPD_DHCP_SIZE @ ?udp @ ?dh) = checksum_sum 0 ?uz + unat udpc"
    by (simp add: iphdr_bytes_def udphdr_bytes_def udp_pseudo_def le16_of_def)
  moreover have "checksum_sum 0 ?uz > 0"
    by (simp add: iphdr_bytes_def le16_of_def)
  ultimately show "dhcp_checksum (udp_pseudo s d UPD_DHCP_SIZE @ drop 20 f) = 0"
    using checksum_insert [of ?uz "udp_pseudo s d UPD_DHCP_SIZE @ ?udp @ ?dh"] udpc by (simp add: f)
qed

section \<open>DHCPv6 options\<close>

text \<open>
  \<^verbatim>\<open>dhcpv6_get_option\<close> on the receive buffer \<open>m\<close> (message byte, transaction id, options from
  offset 4). The result is the pointer to the data of the last option with the code, the value
  written to \<^verbatim>\<open>option_len\<close> (\<open>None\<close>: not written) and the count; \<open>None\<close> for the whole is
  a read outside the buffer.
\<close>

type_synonym v6_found = "nat option \<times> u16 option \<times> nat"

function dhcpv6_get_option_loop :: "u8 list \<Rightarrow> int \<Rightarrow> nat \<Rightarrow> int \<Rightarrow> v6_found \<Rightarrow> v6_found option" where
  "dhcpv6_get_option_loop m code optionptr rem acc =
     (case bytes_at m optionptr 4 of
        Some [a, b, c, d] \<Rightarrow>
          (let opt_code = be16_of a b; opt_len = be16_of c d; len = opt_len + 4 in
           if len < 4 then Some (None, Some 0, 0)
           else if rem - uint len < 0 then Some acc
           else
             (let acc' = (if uint opt_code = code then (Some (optionptr + 4), Some opt_len, snd (snd acc) + 1) else acc) in
              if rem - uint len = 0 then Some acc'
              else dhcpv6_get_option_loop m code (optionptr + unat len) (rem - uint len) acc'))
      | _ \<Rightarrow> None)"
  by pat_completeness auto
termination
proof (relation "measure (\<lambda>(m, code, p, rem, acc). nat rem)", goal_cases)
  case (2 m code optionptr rem x2 a x b xa c xb d xc xd opt_code opt_len len acc')
  then have "4 \<le> uint len" by (simp add: word_less_def not_less)
  with 2 show ?case by simp
qed simp

declare dhcpv6_get_option_loop.simps [simp del]

definition dhcpv6_get_option :: "u8 list \<Rightarrow> u16 \<Rightarrow> int \<Rightarrow> v6_found option" where
  "dhcpv6_get_option packet pkt_len code =
     (let rem = uint pkt_len - 1 - 3 in
      if rem \<le> 0 then Some (None, Some 0, 0)
      else dhcpv6_get_option_loop packet code 4 rem (None, None, 0))"

definition dhcpv6_get_sub_option :: "u8 list \<Rightarrow> u16 \<Rightarrow> (nat \<times> u16 \<times> u16) option option" where
  "dhcpv6_get_sub_option opt max_len =
     (if uint max_len - 2 - 2 \<le> 0 then Some None
      else
        case bytes_at opt 0 4 of
          Some [a, b, c, d] \<Rightarrow>
            (if uint max_len - 2 - 2 - uint (be16_of c d) < 0 then Some None
             else Some (Some (4, be16_of a b, be16_of c d)))
        | _ \<Rightarrow> None)"

definition dhcpv6_add_binary_option :: "u8 list \<Rightarrow> u16 \<Rightarrow> u16 \<Rightarrow> u8 list \<Rightarrow> (u8 list \<times> u16) option" where
  "dhcpv6_add_binary_option options max_len pkt_len addopt =
     do {
       c \<leftarrow> byte_at addopt 2;
       d \<leftarrow> byte_at addopt 3;
       let len = 2 + 2 + unat (be16_of c d);
       if unat pkt_len + len \<ge> unat max_len then Some (options, pkt_len)
       else do {
         src \<leftarrow> bytes_at addopt 0 len;
         _ \<leftarrow> bytes_at options (unat pkt_len) len;
         Some (mem_write (unat pkt_len) src options, pkt_len + of_nat len)
       }
     }"

definition dhcpv6_init_header :: "u64 \<Rightarrow> u8 \<Rightarrow> u8 list" where
  "dhcpv6_init_header rand type =
     (let id = (ucast rand :: u32) in
      [type, ucast (drop_bit 16 id), ucast (drop_bit 8 id), ucast id])"

text \<open>A found option lies inside the packet: data start plus length do not pass the packet length.\<close>

definition v6_inside :: "int \<Rightarrow> v6_found \<Rightarrow> bool" where
  "v6_inside e r \<longleftrightarrow>
     (case r of
        (Some q, Some l, n) \<Rightarrow> 8 \<le> q \<and> int q + uint l \<le> e \<and> 0 < n
      | (Some q, None, n) \<Rightarrow> False
      | (None, l, n) \<Rightarrow> n = 0)"

lemma bytes_at_4: "bytes_at m p 4 = Some xs \<Longrightarrow> \<exists>a b c d. xs = [a, b, c, d]"
proof -
  assume "bytes_at m p 4 = Some xs"
  then have "length xs = 4" by (auto simp: bytes_at_def split: if_splits)
  then show ?thesis by (auto simp: length_Suc_conv numeral_eq_Suc)
qed

lemma len_ge_4:
  fixes l :: u16
  assumes "\<not> l + 4 < 4"
  shows "uint (l + 4) = uint l + 4"
proof -
  have "4 \<le> uint (l + 4)" using assms by (simp add: word_less_def)
  moreover have "uint l < 65536" using unsigned_less [where 'a = int, of l] by simp
  ultimately show ?thesis by (simp add: uint_plus_if' split: if_splits)
qed

lemma dhcpv6_get_option_loop_inside:
  "dhcpv6_get_option_loop m code p rem acc = Some r \<Longrightarrow> 4 \<le> p \<Longrightarrow> v6_inside (int p + rem) acc \<Longrightarrow>
     v6_inside (int p + rem) r"
proof (induction m code p rem acc rule: dhcpv6_get_option_loop.induct)
  case (1 m code p rem acc)
  have "bytes_at m p 4 \<noteq> None"
    using "1.prems"(1) by (subst (asm) dhcpv6_get_option_loop.simps) (auto split: option.splits)
  then obtain a b c d where m: "bytes_at m p 4 = Some [a, b, c, d]"
    using bytes_at_4 by blast
  let ?l = "be16_of c d" 
  let ?acc = "if uint (be16_of a b) = code then (Some (p + 4), Some ?l, snd (snd acc) + 1) else acc"
  show ?case
  proof (cases "?l + 4 < 4 \<or> rem - uint (?l + 4) < 0")
    case True
    then show ?thesis using "1.prems" m
      by (subst (asm) dhcpv6_get_option_loop.simps) (auto simp: Let_def v6_inside_def split: if_splits)
  next
    case False
    then have l: "uint (?l + 4) = uint ?l + 4" using len_ge_4 by blast
    have acc: "v6_inside (int p + rem) ?acc"
      using "1.prems"(2,3) False l by (auto simp: v6_inside_def)
    show ?thesis
    proof (cases "rem - uint (?l + 4) = 0")
      case True
      then show ?thesis using "1.prems"(1) m False acc
        by (subst (asm) dhcpv6_get_option_loop.simps) (simp add: Let_def)
    next
      case ne: False
      have e: "int (p + unat (?l + 4)) + (rem - uint (?l + 4)) = int p + rem" by simp
      have "v6_inside (int (p + unat (?l + 4)) + (rem - uint (?l + 4))) r"
      proof (rule "1.IH" [OF m refl refl refl refl refl refl refl])
        show "dhcpv6_get_option_loop m code (p + unat (?l + 4)) (rem - uint (?l + 4)) ?acc = Some r"
          using "1.prems"(1) m False ne by (subst (asm) dhcpv6_get_option_loop.simps) (simp add: Let_def)
      qed (use False ne acc e "1.prems"(2) in auto)
      then show ?thesis by (simp only: e)
    qed
  qed
qed

lemma dhcpv6_get_option_loop_in_buffer:
  "0 < rem \<Longrightarrow> int p + rem + 3 \<le> int (length m) \<Longrightarrow> dhcpv6_get_option_loop m code p rem acc \<noteq> None"
proof (induction m code p rem acc rule: dhcpv6_get_option_loop.induct)
  case (1 m code p rem acc)
  have "bytes_at m p 4 \<noteq> None" using "1.prems" by (simp add: bytes_at_def)
  then obtain a b c d where m: "bytes_at m p 4 = Some [a, b, c, d]"
    using bytes_at_4 by blast
  let ?l = "be16_of c d" 
  let ?acc = "if uint (be16_of a b) = code then (Some (p + 4), Some ?l, snd (snd acc) + 1) else acc"
  have "dhcpv6_get_option_loop m code (p + unat (?l + 4)) (rem - uint (?l + 4)) ?acc \<noteq> None"
    if "\<not> ?l + 4 < 4" "\<not> rem - uint (?l + 4) < 0" "rem - uint (?l + 4) \<noteq> 0"
    by (rule "1.IH" [OF m refl refl refl refl refl refl refl refl that(1,2) refl that(3)])
      (use that "1.prems" in auto)
  then show ?case using m by (subst dhcpv6_get_option_loop.simps) (cases acc; auto simp: Let_def)
qed

text \<open>The options of a DHCPv6 packet as a list, and the last option with a given code.\<close>

type_synonym dhcpv6_opt = "u16 \<times> u8 list"

fun enc_opt6 :: "dhcpv6_opt \<Rightarrow> u8 list" where
  "enc_opt6 (c, d) = be16_bytes c @ be16_bytes (of_nat (length d)) @ d"

definition enc_opts6 :: "dhcpv6_opt list \<Rightarrow> u8 list" where
  "enc_opts6 os = concat (map enc_opt6 os)"

fun v6_scan :: "nat \<Rightarrow> dhcpv6_opt list \<Rightarrow> u16 \<Rightarrow> v6_found \<Rightarrow> v6_found" where
  "v6_scan p [] code acc = acc"
| "v6_scan p ((c, d) # os) code acc =
     v6_scan (p + (4 + length d)) os code
       (if c = code then (Some (p + 4), Some (of_nat (length d)), snd (snd acc) + 1) else acc)"

lemma enc_opts6_simps [simp]: "enc_opts6 [] = []" "enc_opts6 (x # xs) = enc_opt6 x @ enc_opts6 xs"
  by (simp_all add: enc_opts6_def)

lemma length_enc_opt6: "length (enc_opt6 (c, d)) = 4 + length d"
  by simp

lemma dhcpv6_get_option_loop_enc:
  assumes "\<forall>(c, d) \<in> set os. length d < 65532" "os \<noteq> []"
  shows "dhcpv6_get_option_loop (pre @ enc_opts6 os @ rest) (uint code) (length pre)
      (int (length (enc_opts6 os))) acc = Some (v6_scan (length pre) os code acc)"
  using assms
proof (induction os arbitrary: pre acc)
  case (Cons x os)
  obtain c d where x: "x = (c, d)" by (cases x)
  have d: "length d < 65532" using Cons.prems x by auto
  let ?n = "of_nat (length d) :: u16"
  let ?acc = "if c = code then (Some (length pre + 4), Some ?n, snd (snd acc) + 1) else acc"
  have n: "?n + 4 = of_nat (length d + 4)" by simp
  have len: "uint (?n + 4) = int (length d + 4)" "unat (?n + 4) = length d + 4"
    unfolding n by (rule uint_of_nat_u16 unat_of_nat_u16; use d in simp)+
  have "4 \<le> uint (?n + 4)" unfolding len(1) by simp
  then have n4: "\<not> ?n + 4 < 4" by (simp add: word_less_def)
  have ceq: "uint c = uint code \<longleftrightarrow> c = code" by (simp add: word_uint_eq_iff)
  have m: "bytes_at (pre @ enc_opts6 (x # os) @ rest) (length pre) 4 =
      Some [ucast (drop_bit 8 c), ucast c, ucast (drop_bit 8 ?n), ucast ?n]"
    by (simp add: x bytes_at_def be16_bytes_def)
  have rec: "os \<noteq> [] \<Longrightarrow> dhcpv6_get_option_loop ((pre @ enc_opt6 x) @ enc_opts6 os @ rest) (uint code)
      (length (pre @ enc_opt6 x)) (int (length (enc_opts6 os))) ?acc =
      Some (v6_scan (length (pre @ enc_opt6 x)) os code ?acc)"
    by (rule Cons.IH) (use Cons.prems in auto)
  show ?case
  proof (cases "os = []")
    case True
    then show ?thesis using m
      by (subst dhcpv6_get_option_loop.simps) (simp add: x Let_def be16_of_bytes n4 len ceq)
  next
    case False
    have "enc_opts6 os \<noteq> []" using False by (cases os) (auto simp: be16_bytes_def)
    moreover have pos: "length (pre @ enc_opt6 x) = length pre + (length d + 4)" by (simp add: x)
    ultimately show ?thesis using m rec [OF False, unfolded pos]
      by (subst dhcpv6_get_option_loop.simps)
        (cases "c = code"; simp add: x Let_def be16_of_bytes n4 len ceq ac_simps)
  qed
qed simp

lemma v6_scan_count: "snd (snd (v6_scan p os code acc)) = snd (snd acc) + length (filter (\<lambda>x. fst x = code) os)"
  by (induction p os code acc rule: v6_scan.induct) auto

lemma v6_scan_none: "code \<notin> fst ` set os \<Longrightarrow> v6_scan p os code acc = acc"
  by (induction p os code acc rule: v6_scan.induct) auto

lemma v6_scan_append:
  "v6_scan p (os @ os') code acc = v6_scan (p + length (enc_opts6 os)) os' code (v6_scan p os code acc)"
  by (induction p os code acc rule: v6_scan.induct)
    (auto simp: length_enc_opt6 ac_simps simp del: enc_opt6.simps)

text \<open>The last option with the code is the one that is found.\<close>

lemma v6_scan_last:
  assumes "code \<notin> fst ` set os'"
  shows "fst (v6_scan p (os @ (code, d) # os') code acc) = Some (p + length (enc_opts6 os) + 4)"
    "fst (snd (v6_scan p (os @ (code, d) # os') code acc)) = Some (of_nat (length d))"
  using assms by (simp_all add: v6_scan_append v6_scan_none)

section \<open>Properties\<close>

lemma replicate_split: "replicate (a + b) x = replicate a x @ replicate b x"
  by (rule replicate_add)

lemma dhcp_packet_bytes_tail:
  assumes "wf_packet p" "drop DHCP_OPTIONS_BUFSIZE (pk_options p) = replicate EXTEND_FOR_BUGGY_SERVERS 0"
  shows "take DHCP_SIZE (dhcp_packet_bytes p) @ replicate EXTEND_FOR_BUGGY_SERVERS 0 = dhcp_packet_bytes p"
proof -
  obtain pre where pre: "dhcp_packet_bytes p = pre @ pk_options p" "length pre = OPTIONS_OFF"
    using assms(1) by (rule dhcp_packet_bytes_options)
  then show ?thesis using assms(2) append_take_drop_id [of DHCP_OPTIONS_BUFSIZE "pk_options p"] by simp
qed

lemma recv_bytes_tail:
  assumes "length bs \<le> 626" "dhcp_recv_l3_packet (Inr bs) = (n, p)"
  shows "dhcp_packet_bytes p = bs @ replicate (PACKET_SIZE - length bs) 0"
  using assms by (auto simp: dhcp_recv_l3_packet_def Let_def bytes_of_bytes split: if_splits)

text \<open>C28. Options round trip: options added one after the other to a packet that has room for
  them are all there afterwards, in order, and looking one up (walker, then length byte, then
  data) gives the data of the first option with the code, or nothing if there is none.\<close>

theorem dhcp_options_roundtrip:
  assumes "opts_repr p os" "list_all valid_opt new"
    "length (enc_opts (os @ new)) + 1 < DHCP_OPTIONS_BUFSIZE"
    "DHCP_OPTION_OVERLOAD \<notin> fst ` set (os @ new)"
  shows "\<exists>p'. add_opts dhcp_add_binary_option p new = Some p' \<and> opts_repr p' (os @ new) \<and>
     (\<forall>c. opt_data p' c = map_of (os @ new) c)"
  using pko.add_opts_fits [OF assms(1-3)] pko.get_repr [OF _ assms(4)] by blast

theorem dhcp_options_roundtrip_witness:
  "\<exists>p'. add_opts dhcp_add_binary_option (zero_packet\<lparr>pk_op := BOOTREPLY, htype := 1, hlen := 6,
       cookie := htonl DHCP_MAGIC, pk_options := (replicate OPTIONS_SIZE 0)[0 := DHCP_END]\<rparr>)
       [(DHCP_MESSAGE_TYPE, [DHCPACK]), (DHCP_SERVER_ID, [10, 0, 0, 1])] = Some p' \<and>
     opt_data p' DHCP_SERVER_ID = Some [10, 0, 0, 1] \<and> opt_data p' DHCP_ROUTER = None"
  using dhcp_options_roundtrip [OF opts_repr_nil_header,
      of "[(DHCP_MESSAGE_TYPE, [DHCPACK]), (DHCP_SERVER_ID, [10, 0, 0, 1])]" BOOTREPLY]
  by (auto simp del: add_opts.simps)

text \<open>C31. The option walk returns on every packet whose \<^verbatim>\<open>file\<close> and \<^verbatim>\<open>sname\<close> fields do not contain
  the byte of the overload option.\<close>

theorem dhcp_get_option_terminates:
  assumes "wf_packet p" "DHCP_OPTION_OVERLOAD \<notin> set (pk_file p)" "DHCP_OPTION_OVERLOAD \<notin> set (sname p)"
  shows "\<exists>r. dhcp_get_option p code = Some r"
  using assms by (rule dhcp_get_option_returns)

theorem dhcp_get_option_terminates_witness: "\<exists>r. dhcp_get_option zero_packet 53 = Some r"
  by (rule dhcp_get_option_terminates) (simp_all add: zero_packet_def wf_packet_def)

text \<open>C32. The condition is needed: if the options announce that \<^verbatim>\<open>file\<close> holds options and \<^verbatim>\<open>file\<close>
  announces the same of itself, the walk never returns, whatever other option is asked for.\<close>

theorem dhcp_get_option_overload_diverges:
  assumes "wf_packet p" "code \<noteq> uint DHCP_OPTION_OVERLOAD"
    "take 4 (pk_options p) = [DHCP_OPTION_OVERLOAD, 1, FILE_FIELD, DHCP_END]"
    "take 4 (pk_file p) = [DHCP_OPTION_OVERLOAD, 1, FILE_FIELD, DHCP_END]"
  shows "dhcp_get_option p code = None"
proof -
  let ?m = "dhcp_packet_bytes p"
  have nth: "xs ! i = [DHCP_OPTION_OVERLOAD, 1, FILE_FIELD, DHCP_END] ! i"
    if "take 4 xs = [DHCP_OPTION_OVERLOAD, 1, FILE_FIELD, DHCP_END]" "i < 4" for xs :: "u8 list" and i
    using nth_take [of i 4 xs] that by simp
  have f: "byte_at ?m (FILE_OFF + i) = Some ([DHCP_OPTION_OVERLOAD, 1, FILE_FIELD, DHCP_END] ! i)"
    if "i < 4" for i
    using dhcp_packet_bytes_file [OF assms(1), of i] nth [OF assms(4) that] that assms(1)
    by (simp add: byte_at_def)
  have o: "byte_at ?m (OPTIONS_OFF + i) = Some ([DHCP_OPTION_OVERLOAD, 1, FILE_FIELD, DHCP_END] ! i)"
    if "i < 4" for i
    using dhcp_packet_bytes_opts [OF assms(1), of i] nth [OF assms(3) that] that assms(1)
    by (simp add: byte_at_def)
  have d: "dhcp_get_option_loop ?m code 0 FILE_OFF 128 = None"
    using f [of 0] f [of 1] f [of 2] f [of 3] assms(2) by (intro overload_loop_diverges) simp_all
  have "dhcp_get_option_loop ?m code 1 (OPTIONS_OFF + 3) 385 = None"
    using o [of 3] d by (subst dhcp_get_option_loop.simps) simp
  then show ?thesis
    using o [of 0] o [of 1] o [of 2] assms(2)
    by (simp add: dhcp_get_option_def) (subst dhcp_get_option_loop.simps, simp)
qed

theorem dhcp_get_option_overload_diverges_witness:
  "dhcp_get_option (zero_packet\<lparr>pk_options := [DHCP_OPTION_OVERLOAD, 1, FILE_FIELD, DHCP_END] @ replicate 384 0,
      pk_file := [DHCP_OPTION_OVERLOAD, 1, FILE_FIELD, DHCP_END] @ replicate 124 0\<rparr>) 53 = None"
  by (rule dhcp_get_option_overload_diverges) (simp_all add: zero_packet_def wf_packet_def)

text \<open>C30. Memory safety of the option walk: on a datagram of at most 626 bytes the walk reads only
  inside the packet, and an option it finds has its code byte, its length byte and all of its
  data inside the packet.\<close>

theorem dhcp_get_option_in_bounds:
  assumes "length bs \<le> 626" "dhcp_recv_l3_packet (Inr bs) = (n, p)" "dhcp_get_option p code = Some r"
  shows "opt_ptr_ok (dhcp_packet_bytes p) code r"
proof -
  let ?m = "dhcp_packet_bytes p"
  have m: "?m = bs @ replicate (PACKET_SIZE - length bs) 0" by (rule recv_bytes_tail [OF assms(1,2)])
  have "?m ! (PACKET_SIZE - 2) = 0" "?m ! (PACKET_SIZE - 1) = 0" "length ?m = PACKET_SIZE"
    using assms(1) by (simp_all add: m nth_append)
  then show ?thesis
    using assms(3) unfolding dhcp_get_option_def
    by (intro dhcp_get_option_loop_safe) (auto simp: walk_inv_def)
qed

theorem dhcp_get_option_in_bounds_witness:
  "let bs = replicate 236 0 @ [0x63, 0x82, 0x53, 0x63] @ enc_opts [(DHCP_MESSAGE_TYPE, [DHCPDISCOVER])] @ [DHCP_END];
       p = snd (dhcp_recv_l3_packet (Inr bs))
   in dhcp_get_option p 53 = Some (Opt_at 242) \<and> opt_ptr_ok (dhcp_packet_bytes p) 53 (Opt_at 242)"
proof -
  define bs :: "u8 list" where
    "bs = replicate 236 0 @ [0x63, 0x82, 0x53, 0x63] @ enc_opts [(DHCP_MESSAGE_TYPE, [DHCPDISCOVER])] @ [DHCP_END]"
  obtain n p where np: "dhcp_recv_l3_packet (Inr bs) = (n, p)" by fastforce
  have len: "length bs \<le> 626" by (simp add: bs_def)
  have m: "dhcp_packet_bytes p = bs @ replicate (PACKET_SIZE - length bs) 0" by (rule recv_bytes_tail [OF len np])
  have "dhcp_packet_bytes p = (replicate 236 0 @ [0x63, 0x82, 0x53, 0x63]) @ enc_opts [(DHCP_MESSAGE_TYPE, [DHCPDISCOVER])] @ DHCP_END # replicate 384 0"
    unfolding m by (simp add: bs_def)
  then have "dhcp_get_option p 53 = Some (Opt_at 242)"
    using dhcp_get_option_loop_enc [of "[(DHCP_MESSAGE_TYPE, [DHCPDISCOVER])]" "int OPTIONS_SIZE" 384
        "replicate 236 0 @ [0x63, 0x82, 0x53, 0x63]" "replicate 384 0" DHCP_MESSAGE_TYPE]
    by (simp add: dhcp_get_option_def)
  with dhcp_get_option_in_bounds [OF len np this] show ?thesis
    unfolding bs_def [symmetric] Let_def np snd_conv by blast
qed



text \<open>C33. DHCPv6 lookup: on a well-formed packet the number of options with the code is counted
  and the pointer and length returned are those of the last of them.\<close>

theorem dhcpv6_get_option_last:
  assumes "\<forall>(c, d) \<in> set (os @ (code, d) # os'). length d < 65532" "code \<notin> fst ` set os'"
    "length head = 4" "4 + length (enc_opts6 (os @ (code, d) # os')) = unat pkt_len"
    "packet = head @ enc_opts6 (os @ (code, d) # os') @ rest"
  shows "dhcpv6_get_option packet pkt_len (uint code) =
       Some (Some (8 + length (enc_opts6 os)), Some (of_nat (length d)),
             1 + length (filter (\<lambda>x. fst x = code) os)) \<and>
     bytes_at packet (8 + length (enc_opts6 os)) (length d) = Some d"
proof
  let ?os = "os @ (code, d) # os'"
  have rem: "uint pkt_len - 1 - 3 = int (length (enc_opts6 ?os))"
    using arg_cong [OF assms(4), of int] by simp
  have pos: "0 < length (enc_opts6 ?os)" by (simp add: enc_opts6_def be16_bytes_def)
  have "dhcpv6_get_option packet pkt_len (uint code) = Some (v6_scan 4 ?os code (None, None, 0))"
    using dhcpv6_get_option_loop_enc [OF assms(1) _, of head rest code "(None, None, 0)"] assms(3,5) rem pos
    by (simp add: dhcpv6_get_option_def Let_def)
  moreover have "v6_scan 4 ?os code (None, None, 0) =
      (Some (4 + length (enc_opts6 os) + 4), Some (of_nat (length d)), 0 + length (filter (\<lambda>x. fst x = code) ?os))"
    using v6_scan_last [OF assms(2), of 4 os d "(None, None, 0)"] v6_scan_count [of 4 ?os code "(None, None, 0)"]
    by (simp add: prod_eq_iff)
  moreover have "filter (\<lambda>x. fst x = code) os' = []"
    using assms(2) by (auto simp: filter_empty_conv)
  ultimately show "dhcpv6_get_option packet pkt_len (uint code) =
       Some (Some (8 + length (enc_opts6 os)), Some (of_nat (length d)),
             1 + length (filter (\<lambda>x. fst x = code) os))"
    by simp
  have "packet = (head @ enc_opts6 os @ be16_bytes code @ be16_bytes (of_nat (length d))) @ d @ enc_opts6 os' @ rest"
    by (simp add: assms(5) enc_opts6_def)
  moreover have "8 + length (enc_opts6 os) = length (head @ enc_opts6 os @ be16_bytes code @ be16_bytes (of_nat (length d)))"
    by (simp add: assms(3))
  ultimately show "bytes_at packet (8 + length (enc_opts6 os)) (length d) = Some d"
    by (simp only: bytes_at_append)
qed

theorem dhcpv6_get_option_last_witness:
  "dhcpv6_get_option ([7, 1, 2, 3] @ enc_opts6 [(1, [9, 9]), (3, [7])] @ []) 15 3 = Some (Some 14, Some 1, 1)"
  using dhcpv6_get_option_last [of "[(1, [9, 9])]" 3 "[7]" "[]" "[7, 1, 2, 3]" 15
      "[7, 1, 2, 3] @ enc_opts6 [(1, [9, 9]), (3, [7])] @ []" "[]"]
  by simp

text \<open>C34. DHCPv6 bounds: whatever the packet contains, an option that is found lies inside the
  packet length given, and the walk stays inside the buffer if three bytes follow the packet.\<close>

theorem dhcpv6_get_option_bounds:
  "(dhcpv6_get_option packet pkt_len code = Some r \<longrightarrow> v6_inside (uint pkt_len) r) \<and>
   (unat pkt_len + 3 \<le> length packet \<longrightarrow> dhcpv6_get_option packet pkt_len code \<noteq> None)"
proof (intro conjI impI)
  assume "dhcpv6_get_option packet pkt_len code = Some r"
  then show "v6_inside (uint pkt_len) r"
    using dhcpv6_get_option_loop_inside [of packet code 4 "uint pkt_len - 4" "(None, None, 0)" r]
    by (auto simp: dhcpv6_get_option_def Let_def v6_inside_def [of _ "(None, _)"] split: if_splits)
next
  assume "unat pkt_len + 3 \<le> length packet"
  then have "uint pkt_len + 3 \<le> int (length packet)" using uint_nat [of pkt_len] by linarith
  then show "dhcpv6_get_option packet pkt_len code \<noteq> None"
    using dhcpv6_get_option_loop_in_buffer [of "uint pkt_len - 4" 4 packet code "(None, None, 0)"]
    by (auto simp: dhcpv6_get_option_def Let_def)
qed

theorem dhcpv6_get_option_bounds_witness:
  "\<exists>r. dhcpv6_get_option (replicate 20 0) 10 1 = Some r \<and> v6_inside 10 r"
proof -
  have "dhcpv6_get_option (replicate 20 0) 10 1 \<noteq> None"
    using dhcpv6_get_option_bounds [of "replicate 20 0" 10 1] by simp
  then obtain r where "dhcpv6_get_option (replicate 20 0) 10 1 = Some r" by blast
  then show ?thesis using dhcpv6_get_option_bounds [of "replicate 20 0" 10 1 r] by auto
qed

end
