(* ===== verification/DhcpServer.thy ===== *)
theory DhcpServer
  imports DhcpCommon
begin

text \<open>
  The DHCP server (\<^verbatim>\<open>gdhcp/server.c\<close>): the lease table with its three views (the heap of lease
  objects, the list sorted by expiry and the hash by address), the construction of replies and
  the packet handler \<^verbatim>\<open>listener_event\<close>.

  Lease objects are shared by the list and the hash and are freed by hand, so they live in an
  explicit heap \<open>lease_heap\<close> and the list and the hash hold addresses. A read or write of an address
  that is not allocated makes an operation return \<open>None\<close>; so does an access outside a packet and a
  loop that never ends. A pointer that may be NULL is an option.

  What a handler run gets from outside is in \<open>server_env\<close>: the clock, the address the allocator
  returns (or its failure), the results of the socket calls and the order in which GLib walks the
  option hash table. What it does to the outside is a list of actions.
\<close>

section \<open>State\<close>

record dhcp_lease =
  expire :: int
  lease_nip :: u32
  lease_mac :: "u8 list"

record dhcp_server =
  ref_count :: int
  srv_type :: GDHCPType
  started :: bool
  srv_ifindex :: int
  srv_interface :: string
  start_ip :: u32
  end_ip :: u32
  server_nip :: u32
  lease_seconds :: u32
  listener_sockfd :: int
  listener_watch :: u32
  listener_channel :: "int option"
  lease_list :: "nat list"
  nip_lease_hash :: "u32 \<rightharpoonup> nat"
  option_hash :: "u8 \<rightharpoonup> string"
  save_lease_func :: bool
  lease_added_cb :: bool
  lease_heap :: "nat \<rightharpoonup> dhcp_lease"

record server_env =
  now1 :: int
  now2 :: int
  try_new :: "nat option"
  net_io :: raw_io
  hash_order :: "u8 list"

datatype srv_action =
    Sent "u8 list" "u8 list" int
  | Lease_added "u8 list" u32
  | Save_lease "u8 list" u32 u32
  | Source_removed u32

abbreviation "ETH_ALEN \<equiv> (6 :: nat)"
abbreviation "DEFAULT_DHCP_LEASE_SEC \<equiv> (28800 :: u32)"
abbreviation "OFFER_TIME \<equiv> (300 :: u32)"

section \<open>The lease table\<close>

fun find_lease_from :: "(nat \<rightharpoonup> dhcp_lease) \<Rightarrow> nat list \<Rightarrow> u8 list \<Rightarrow> nat option option" where
  "find_lease_from h [] mac = Some None"
| "find_lease_from h (l # ls) mac =
     do {
       lease \<leftarrow> h l;
       if lease_mac lease = take ETH_ALEN mac then Some (Some l) else find_lease_from h ls mac
     }"

definition find_lease_by_mac :: "dhcp_server \<Rightarrow> u8 list \<Rightarrow> nat option option" where
  "find_lease_by_mac s mac = find_lease_from (lease_heap s) (lease_list s) mac"

definition remove_lease :: "dhcp_server \<Rightarrow> nat \<Rightarrow> dhcp_server option" where
  "remove_lease s l =
     do {
       lease \<leftarrow> lease_heap s l;
       Some (s\<lparr>lease_list := g_list_remove l (lease_list s),
              nip_lease_hash := (nip_lease_hash s)(lease_nip lease := None),
              lease_heap := (lease_heap s)(l := None)\<rparr>)
     }"

text \<open>\<^verbatim>\<open>get_lease\<close>: the error code (negated errno) on the left, the lease object on the right.\<close>

definition zero_lease :: dhcp_lease where
  "zero_lease = \<lparr>expire = 0, lease_nip = 0, lease_mac = replicate ETH_ALEN 0\<rparr>"

definition get_lease :: "server_env \<Rightarrow> dhcp_server \<Rightarrow> u32 \<Rightarrow> u8 list \<Rightarrow> (dhcp_server \<times> (int + nat)) option" where
  "get_lease env s yi mac =
     (if yi = 0 then Some (s, Inl (- ENXIO))
      else if ntohl yi < start_ip s then Some (s, Inl (- ENXIO))
      else if ntohl yi > end_ip s then Some (s, Inl (- ENXIO))
      else if take ETH_ALEN mac = MAC_BCAST_ADDR then Some (s, Inl (- ENXIO))
      else if take ETH_ALEN mac = MAC_ANY_ADDR then Some (s, Inl (- ENXIO))
      else do {
        lm \<leftarrow> find_lease_by_mac s mac;
        case nip_lease_hash s (ntohl yi) of
          Some ln \<Rightarrow>
            let s = s\<lparr>lease_list := g_list_remove ln (lease_list s),
                      nip_lease_hash := (nip_lease_hash s)(ntohl yi := None)\<rparr> in
            (case lm of
               None \<Rightarrow> Some (s, Inr ln)
             | Some m \<Rightarrow>
               if ln \<noteq> m then do { s \<leftarrow> remove_lease s m; Some (s, Inr ln) }
               else Some (s, Inr ln))
        | None \<Rightarrow>
            (case lm of
               Some m \<Rightarrow>
                 do {
                   lease \<leftarrow> lease_heap s m;
                   Some (s\<lparr>lease_list := g_list_remove m (lease_list s),
                          nip_lease_hash := (nip_lease_hash s)(lease_nip lease := None)\<rparr>, Inr m)
                 }
             | None \<Rightarrow>
                 (case try_new env of
                    None \<Rightarrow> Some (s, Inl (- ENOMEM))
                  | Some l \<Rightarrow> Some (s\<lparr>lease_heap := (lease_heap s)(l \<mapsto> zero_lease)\<rparr>, Inr l)))
      })"

text \<open>
  \<^verbatim>\<open>compare_expire\<close> subtracts two \<^verbatim>\<open>time_t\<close> values and returns the difference as a 32-bit
  \<^verbatim>\<open>gint\<close>.
\<close>

definition compare_expire :: "(nat \<rightharpoonup> dhcp_lease) \<Rightarrow> nat \<Rightarrow> nat \<Rightarrow> int" where
  "compare_expire h a b =
     (case (h a, h b) of
        (Some lease1, Some lease2) \<Rightarrow> signed_take_bit 31 (expire lease2 - expire lease1)
      | _ \<Rightarrow> 0)"

definition add_lease ::
    "server_env \<Rightarrow> dhcp_server \<Rightarrow> u32 \<Rightarrow> u8 list \<Rightarrow> u32 \<Rightarrow> (dhcp_server \<times> nat option) option" where
  "add_lease env s exp mac yi =
     do {
       (s, r) \<leftarrow> get_lease env s yi mac;
       case r of
         Inl _ \<Rightarrow> Some (s, None)
       | Inr l \<Rightarrow>
         do {
           _ \<leftarrow> lease_heap s l;
           let lease = \<lparr>expire = (if exp = 0 then now1 env + uint (lease_seconds s) else uint exp),
                        lease_nip = ntohl yi, lease_mac = take ETH_ALEN mac\<rparr>;
           let h = (lease_heap s)(l \<mapsto> lease);
           if list_all (\<lambda>x. h x \<noteq> None) (lease_list s)
           then Some (s\<lparr>lease_heap := h,
                  lease_list := g_list_insert_sorted (compare_expire h) l (lease_list s),
                  nip_lease_hash := (nip_lease_hash s)(lease_nip lease \<mapsto> l)\<rparr>, Some l)
           else None
         }
     }"

definition find_lease_by_nip :: "dhcp_server \<Rightarrow> u32 \<Rightarrow> nat option" where
  "find_lease_by_nip s nip = nip_lease_hash s nip"

definition arp_check :: "u32 \<Rightarrow> u8 list \<Rightarrow> bool" where
  "arp_check nip safe_mac = True"

definition is_expired_lease :: "int \<Rightarrow> dhcp_lease \<Rightarrow> bool" where
  "is_expired_lease now lease = (expire lease < now)"

text \<open>
  \<^verbatim>\<open>find_free_or_expired_nip\<close>: the loop counts an unsigned 32-bit address up to \<^verbatim>\<open>end_ip\<close>; with
  \<^verbatim>\<open>end_ip\<close> = 0xffffffff its condition never fails. \<open>Some None\<close> is the loop running out of
  addresses.
\<close>

partial_function (option) find_free_nip :: "dhcp_server \<Rightarrow> u8 list \<Rightarrow> u32 \<Rightarrow> u32 option option" where
  "find_free_nip s safe_mac ip_addr =
     (if ip_addr \<le> end_ip s then
        if ip_addr AND 0xff = 0 then find_free_nip s safe_mac (ip_addr + 1)
        else if ip_addr AND 0xff = 0xff then find_free_nip s safe_mac (ip_addr + 1)
        else case find_lease_by_nip s ip_addr of
            Some _ \<Rightarrow> find_free_nip s safe_mac (ip_addr + 1)
          | None \<Rightarrow>
            if arp_check (htonl ip_addr) safe_mac then Some (Some ip_addr)
            else find_free_nip s safe_mac (ip_addr + 1)
      else Some None)"

definition find_free_or_expired_nip :: "int \<Rightarrow> dhcp_server \<Rightarrow> u8 list \<Rightarrow> u32 option" where
  "find_free_or_expired_nip now s safe_mac =
     do {
       r \<leftarrow> find_free_nip s safe_mac (start_ip s);
       case r of
         Some ip_addr \<Rightarrow> Some ip_addr
       | None \<Rightarrow>
         (case g_list_last (lease_list s) of
            None \<Rightarrow> Some 0
          | Some l \<Rightarrow>
            do {
              lease \<leftarrow> lease_heap s l;
              if \<not> is_expired_lease now lease then Some 0
              else if \<not> arp_check (lease_nip lease) safe_mac then Some 0
              else Some (lease_nip lease)
            })
     }"

definition lease_set_expire :: "dhcp_server \<Rightarrow> nat \<Rightarrow> u32 \<Rightarrow> dhcp_server option" where
  "lease_set_expire s l exp =
     do {
       lease \<leftarrow> lease_heap s l;
       let ls = g_list_remove l (lease_list s);
       let h = (lease_heap s)(l \<mapsto> lease\<lparr>expire := uint exp\<rparr>);
       if list_all (\<lambda>x. h x \<noteq> None) ls
       then Some (s\<lparr>lease_heap := h, lease_list := g_list_insert_sorted (compare_expire h) l ls\<rparr>)
       else None
     }"

definition destroy_lease_table :: "dhcp_server \<Rightarrow> dhcp_server option" where
  "destroy_lease_table s =
     (if distinct (lease_list s) \<and> list_all (\<lambda>l. lease_heap s l \<noteq> None) (lease_list s)
      then Some (s\<lparr>nip_lease_hash := Map.empty, lease_list := [],
                 lease_heap := (lease_heap s) |` (- set (lease_list s))\<rparr>)
      else None)"

section \<open>Replies\<close>

text \<open>Reading \<open>*type\<close> through the pointer the option walk returned.\<close>

definition check_packet_type :: "dhcp_packet \<Rightarrow> u8 option" where
  "check_packet_type packet =
     (if hlen packet \<noteq> 6 then Some 0
      else if pk_op packet \<noteq> BOOTREQUEST then Some 0
      else do {
        type \<leftarrow> dhcp_get_option packet (uint DHCP_MESSAGE_TYPE);
        case type of
          Opt_oob \<Rightarrow> None
        | Opt_NULL \<Rightarrow> Some 0
        | Opt_at p \<Rightarrow>
          do {
            t \<leftarrow> byte_at (dhcp_packet_bytes packet) p;
            if t < DHCPDISCOVER then Some 0 else if t > DHCPINFORM then Some 0 else Some t
          }
      })"

definition init_packet :: "dhcp_server \<Rightarrow> dhcp_packet \<Rightarrow> u8 \<Rightarrow> dhcp_packet option" where
  "init_packet s client_packet type =
     do {
       packet \<leftarrow> dhcp_init_header type;
       let packet = packet\<lparr>xid := xid client_packet, chaddr := chaddr client_packet,
                           pk_flags := pk_flags client_packet,
                           gateway_nip := gateway_nip client_packet, ciaddr := ciaddr client_packet\<rparr>;
       dhcp_add_option_uint32 packet DHCP_SERVER_ID (ntohl (server_nip s))
     }"

abbreviation "G_DHCP_SUBNET \<equiv> (0x01 :: u8)"
abbreviation "G_DHCP_ROUTER \<equiv> (0x03 :: u8)"
abbreviation "G_DHCP_DNS_SERVER \<equiv> (0x06 :: u8)"

definition add_option :: "u8 \<Rightarrow> string option \<Rightarrow> dhcp_packet \<Rightarrow> dhcp_packet option" where
  "add_option option_code option_value packet =
     (case option_value of
        None \<Rightarrow> Some packet
      | Some v \<Rightarrow>
        if option_code = G_DHCP_SUBNET \<or> option_code = G_DHCP_ROUTER \<or> option_code = G_DHCP_DNS_SERVER then
          (case inet_aton v of
             None \<Rightarrow> Some packet
           | Some nip \<Rightarrow> dhcp_add_option_uint32 packet option_code (ntohl nip))
        else Some packet)"

fun add_options_from :: "(u8 \<rightharpoonup> string) \<Rightarrow> u8 list \<Rightarrow> dhcp_packet \<Rightarrow> dhcp_packet option" where
  "add_options_from h [] packet = Some packet"
| "add_options_from h (c # cs) packet =
     do { packet \<leftarrow> add_option c (h c) packet; add_options_from h cs packet }"

definition add_server_options :: "server_env \<Rightarrow> dhcp_server \<Rightarrow> dhcp_packet \<Rightarrow> dhcp_packet option" where
  "add_server_options env s packet = add_options_from (option_hash s) (hash_order env) packet"

definition check_requested_nip :: "int \<Rightarrow> dhcp_server \<Rightarrow> u32 \<Rightarrow> bool option" where
  "check_requested_nip now s requested_nip =
     (if requested_nip = 0 then Some False
      else if requested_nip < start_ip s then Some False
      else if requested_nip > end_ip s then Some False
      else case find_lease_by_nip s requested_nip of
          None \<Rightarrow> Some True
        | Some l \<Rightarrow>
          do {
            lease \<leftarrow> lease_heap s l;
            if \<not> is_expired_lease now lease then Some False else Some True
          })"

definition sent :: "int \<times> dhcp_packet \<times> (u8 list \<times> u8 list \<times> int) option \<Rightarrow> srv_action list" where
  "sent r = (case snd (snd r) of None \<Rightarrow> [] | Some (frame, dst, ifi) \<Rightarrow> [Sent frame dst ifi])"

definition send_packet_to_client :: "server_env \<Rightarrow> dhcp_server \<Rightarrow> dhcp_packet \<Rightarrow> srv_action list" where
  "send_packet_to_client env s dhcp_pkt =
     (let (ci, ch) =
        (if pk_flags dhcp_pkt AND htons BROADCAST_FLAG \<noteq> 0 \<or> ciaddr dhcp_pkt = 0
         then (INADDR_BROADCAST, MAC_BCAST_ADDR)
         else (ciaddr dhcp_pkt, chaddr dhcp_pkt))
      in sent (dhcp_send_raw_packet (net_io env) dhcp_pkt (server_nip s) SERVER_PORT ci CLIENT_PORT ch
                 (srv_ifindex s) False))"

definition send_offer ::
    "server_env \<Rightarrow> dhcp_server \<Rightarrow> dhcp_packet \<Rightarrow> nat option \<Rightarrow> u32 \<Rightarrow> (dhcp_server \<times> srv_action list) option" where
  "send_offer env s client_packet lease requested_nip =
     do {
       packet \<leftarrow> init_packet s client_packet DHCPOFFER;
       nip \<leftarrow> (case lease of
                 Some l \<Rightarrow> map_option lease_nip (lease_heap s l)
               | None \<Rightarrow>
                 do {
                   ok \<leftarrow> check_requested_nip (now1 env) s requested_nip;
                   if ok then Some requested_nip
                   else find_free_or_expired_nip (now2 env) s (chaddr client_packet)
                 });
       let packet = packet\<lparr>yiaddr := htonl nip\<rparr>;
       if yiaddr packet = 0 then Some (s, [])
       else do {
         (s, r) \<leftarrow> add_lease env s OFFER_TIME (chaddr packet) (yiaddr packet);
         case r of
           None \<Rightarrow> Some (s, [])
         | Some _ \<Rightarrow>
           do {
             packet \<leftarrow> dhcp_add_option_uint32 packet DHCP_LEASE_TIME (lease_seconds s);
             packet \<leftarrow> add_server_options env s packet;
             Some (s, send_packet_to_client env s packet)
           }
       }
     }"

fun save_lease_from :: "(nat \<rightharpoonup> dhcp_lease) \<Rightarrow> nat list \<Rightarrow> srv_action list option" where
  "save_lease_from h [] = Some []"
| "save_lease_from h (l # ls) =
     do {
       lease \<leftarrow> h l;
       acts \<leftarrow> save_lease_from h ls;
       Some (Save_lease (lease_mac lease) (lease_nip lease) (of_int (expire lease)) # acts)
     }"

definition save_lease :: "dhcp_server \<Rightarrow> srv_action list option" where
  "save_lease s = (if \<not> save_lease_func s then Some [] else save_lease_from (lease_heap s) (lease_list s))"

definition send_ACK ::
    "server_env \<Rightarrow> dhcp_server \<Rightarrow> dhcp_packet \<Rightarrow> u32 \<Rightarrow> (dhcp_server \<times> srv_action list) option" where
  "send_ACK env s client_packet dest =
     do {
       packet \<leftarrow> init_packet s client_packet DHCPACK;
       let packet = packet\<lparr>yiaddr := htonl dest\<rparr>;
       packet \<leftarrow> dhcp_add_option_uint32 packet DHCP_LEASE_TIME (lease_seconds s);
       packet \<leftarrow> add_server_options env s packet;
       let acts = send_packet_to_client env s packet;
       (s, _) \<leftarrow> add_lease env s 0 (chaddr packet) (yiaddr packet);
       Some (s, acts @ (if lease_added_cb s then [Lease_added (chaddr packet) (yiaddr packet)] else []))
     }"

definition send_NAK :: "server_env \<Rightarrow> dhcp_server \<Rightarrow> dhcp_packet \<Rightarrow> srv_action list option" where
  "send_NAK env s client_packet =
     do {
       packet \<leftarrow> init_packet s client_packet DHCPNAK;
       Some (sent (dhcp_send_raw_packet (net_io env) packet (server_nip s) SERVER_PORT INADDR_BROADCAST
                     CLIENT_PORT MAC_BCAST_ADDR (srv_ifindex s) False))
     }"

definition send_inform :: "server_env \<Rightarrow> dhcp_server \<Rightarrow> dhcp_packet \<Rightarrow> srv_action list option" where
  "send_inform env s client_packet =
     do {
       packet \<leftarrow> init_packet s client_packet DHCPACK;
       packet \<leftarrow> add_server_options env s packet;
       Some (send_packet_to_client env s packet)
     }"

section \<open>The packet handler\<close>

text \<open>
  \<^verbatim>\<open>listener_event\<close>, in the pieces of its body: the two options it reads, then the switch on the
  message type. \<open>bad\<close> is the test of the I/O condition for NVAL, ERR and HUP. An option that is
  absent is \<open>Some None\<close>; one whose four bytes are not all inside the packet is a fault.
\<close>

definition read_option4 :: "(u8 list \<Rightarrow> nat \<Rightarrow> u32 option) \<Rightarrow> dhcp_packet \<Rightarrow> u8 \<Rightarrow> u32 option option" where
  "read_option4 get packet code =
     do {
       r \<leftarrow> dhcp_get_option packet (uint code);
       case r of
         Opt_oob \<Rightarrow> None
       | Opt_NULL \<Rightarrow> Some None
       | Opt_at p \<Rightarrow> map_option Some (get (dhcp_packet_bytes packet) p)
     }"

definition handle_request ::
    "server_env \<Rightarrow> dhcp_server \<Rightarrow> dhcp_packet \<Rightarrow> nat option \<Rightarrow> bool \<Rightarrow> u32 \<Rightarrow> (dhcp_server \<times> srv_action list) option" where
  "handle_request env s packet lease has_server_id requested_nip =
     (let requested_nip = (if requested_nip = 0 then ciaddr packet else requested_nip) in
      if requested_nip = 0 then Some (s, [])
      else do {
        own \<leftarrow> (case lease of None \<Rightarrow> Some None | Some l \<Rightarrow> map_option (Some \<circ> lease_nip) (lease_heap s l));
        if own = Some requested_nip then send_ACK env s packet requested_nip
        else if has_server_id \<or> lease = None then
          do { acts \<leftarrow> send_NAK env s packet; Some (s, acts) }
        else Some (s, [])
      })"

definition handle_decline ::
    "dhcp_server \<Rightarrow> nat option \<Rightarrow> bool \<Rightarrow> u32 option \<Rightarrow> dhcp_server option" where
  "handle_decline s lease has_server_id request_ip =
     (if \<not> has_server_id then Some s
      else case (request_ip, lease) of
          (Some requested_nip, Some l) \<Rightarrow>
            do {
              x \<leftarrow> lease_heap s l;
              if requested_nip = lease_nip x then remove_lease s l else Some s
            }
        | _ \<Rightarrow> Some s)"

definition handle_release ::
    "server_env \<Rightarrow> dhcp_server \<Rightarrow> dhcp_packet \<Rightarrow> nat option \<Rightarrow> bool \<Rightarrow> dhcp_server option" where
  "handle_release env s packet lease has_server_id =
     (if \<not> has_server_id then Some s
      else case lease of
          None \<Rightarrow> Some s
        | Some l \<Rightarrow>
            do {
              x \<leftarrow> lease_heap s l;
              if ciaddr packet = lease_nip x then lease_set_expire s l (of_int (now1 env)) else Some s
            })"

definition dispatch ::
    "server_env \<Rightarrow> dhcp_server \<Rightarrow> dhcp_packet \<Rightarrow> u8 \<Rightarrow> bool \<Rightarrow> u32 option \<Rightarrow> nat option \<Rightarrow>
       (dhcp_server \<times> srv_action list) option" where
  "dispatch env s packet type has_server_id request_ip lease =
     (let requested_nip = (case request_ip of None \<Rightarrow> 0 | Some n \<Rightarrow> n) in
      if type = DHCPDISCOVER then send_offer env s packet lease requested_nip
      else if type = DHCPREQUEST then handle_request env s packet lease has_server_id requested_nip
      else if type = DHCPDECLINE then
        map_option (\<lambda>s. (s, [])) (handle_decline s lease has_server_id request_ip)
      else if type = DHCPRELEASE then
        map_option (\<lambda>s. (s, [])) (handle_release env s packet lease has_server_id)
      else if type = DHCPINFORM then
        map_option (\<lambda>acts. (s, acts)) (send_inform env s packet)
      else Some (s, []))"

definition listener_event ::
    "server_env \<Rightarrow> dhcp_server \<Rightarrow> bool \<Rightarrow> int + u8 list \<Rightarrow> (bool \<times> dhcp_server \<times> srv_action list) option" where
  "listener_event env s bad rd =
     (if bad then Some (False, s\<lparr>listener_watch := 0\<rparr>, [])
      else let (re, packet) = dhcp_recv_l3_packet rd in
      if re < 0 then Some (True, s, [])
      else do {
        type \<leftarrow> check_packet_type packet;
        if type = 0 then Some (True, s, [])
        else do {
          server_id \<leftarrow> read_option4 get_unaligned32 packet DHCP_SERVER_ID;
          if server_id \<noteq> None \<and> server_id \<noteq> Some (server_nip s) then Some (True, s, [])
          else do {
            request_ip \<leftarrow> read_option4 get_be32 packet DHCP_REQUESTED_IP;
            lease \<leftarrow> find_lease_by_mac s (chaddr packet);
            (s, acts) \<leftarrow> dispatch env s packet type (server_id \<noteq> None) request_ip lease;
            Some (True, s, acts)
          }
        }
      })"

section \<open>The server object\<close>

text \<open>\<^verbatim>\<open>get_interface_address\<close>: the address of the interface, 0 when a query fails.\<close>

definition get_interface_address :: "if_io \<Rightarrow> int \<Rightarrow> u32" where
  "get_interface_address io index =
     (case if_socket io of
        Inl _ \<Rightarrow> 0
      | Inr _ \<Rightarrow>
        (case if_name io of
           Inl _ \<Rightarrow> 0
         | Inr _ \<Rightarrow> (case if_addr io of Inl _ \<Rightarrow> 0 | Inr a \<Rightarrow> a)))"

datatype GDHCPServerError =
    G_DHCP_SERVER_ERROR_NONE
  | G_DHCP_SERVER_ERROR_INTERFACE_UNAVAILABLE
  | G_DHCP_SERVER_ERROR_INTERFACE_IN_USE
  | G_DHCP_SERVER_ERROR_INTERFACE_DOWN
  | G_DHCP_SERVER_ERROR_NOMEM
  | G_DHCP_SERVER_ERROR_INVALID_INDEX
  | G_DHCP_SERVER_ERROR_INVALID_OPTION
  | G_DHCP_SERVER_ERROR_IP_ADDRESS_INVALID

text \<open>\<^verbatim>\<open>g_dhcp_server_new\<close>: \<open>alloc\<close> says whether \<^verbatim>\<open>g_try_new0\<close> succeeds.\<close>

definition g_dhcp_server_new ::
    "bool \<Rightarrow> if_io \<Rightarrow> if_io \<Rightarrow> if_io \<Rightarrow> GDHCPType \<Rightarrow> int \<Rightarrow> GDHCPServerError + dhcp_server" where
  "g_dhcp_server_new alloc io1 io2 io3 type ifindex =
     (if ifindex < 0 then Inl G_DHCP_SERVER_ERROR_INVALID_INDEX
      else if \<not> alloc then Inl G_DHCP_SERVER_ERROR_NOMEM
      else case get_interface_name io1 ifindex of
          None \<Rightarrow> Inl G_DHCP_SERVER_ERROR_INTERFACE_UNAVAILABLE
        | Some name \<Rightarrow>
          if \<not> interface_is_up io2 ifindex then Inl G_DHCP_SERVER_ERROR_INTERFACE_DOWN
          else if get_interface_address io3 ifindex = 0 then Inl G_DHCP_SERVER_ERROR_IP_ADDRESS_INVALID
          else Inr \<lparr>ref_count = 1, srv_type = type, started = False, srv_ifindex = ifindex,
                    srv_interface = name, start_ip = 0, end_ip = 0,
                    server_nip = get_interface_address io3 ifindex,
                    lease_seconds = DEFAULT_DHCP_LEASE_SEC, listener_sockfd = - 1,
                    listener_watch = - 1, listener_channel = None, lease_list = [],
                    nip_lease_hash = Map.empty, option_hash = Map.empty, save_lease_func = False,
                    lease_added_cb = False, lease_heap = Map.empty\<rparr>)"

text \<open>\<^verbatim>\<open>g_dhcp_server_start\<close>: \<open>chan\<close> is the channel GLib creates, \<open>watch\<close> the id of the watch.\<close>

definition g_dhcp_server_start :: "l3_io \<Rightarrow> int option \<Rightarrow> u32 \<Rightarrow> dhcp_server \<Rightarrow> int \<times> dhcp_server" where
  "g_dhcp_server_start io chan watch s =
     (if started s then (0, s)
      else let fd = dhcp_l3_socket io AF_INET in
        if fd < 0 then (- EIO, s)
        else case chan of
            None \<Rightarrow> (- EIO, s)
          | Some c \<Rightarrow> (0, s\<lparr>listener_sockfd := fd, listener_channel := Some c, listener_watch := watch,
                          started := True\<rparr>))"

definition g_dhcp_server_set_option :: "dhcp_server \<Rightarrow> u8 \<Rightarrow> string option \<Rightarrow> int \<times> dhcp_server" where
  "g_dhcp_server_set_option s option_code option_value =
     (case option_value of
        None \<Rightarrow> (- EINVAL, s)
      | Some v \<Rightarrow>
        if option_code = G_DHCP_SUBNET \<or> option_code = G_DHCP_ROUTER \<or> option_code = G_DHCP_DNS_SERVER then
          if inet_aton v = None then (- ENXIO, s)
          else (0, s\<lparr>option_hash := (option_hash s)(option_code \<mapsto> v)\<rparr>)
        else (- EINVAL, s))"

definition g_dhcp_server_set_save_lease :: "dhcp_server \<Rightarrow> bool \<Rightarrow> dhcp_server" where
  "g_dhcp_server_set_save_lease s func = s\<lparr>save_lease_func := func\<rparr>"

definition g_dhcp_server_set_lease_added_cb :: "dhcp_server \<Rightarrow> bool \<Rightarrow> dhcp_server" where
  "g_dhcp_server_set_lease_added_cb s cb = s\<lparr>lease_added_cb := cb\<rparr>"

definition g_dhcp_server_ref :: "dhcp_server \<Rightarrow> dhcp_server" where
  "g_dhcp_server_ref s = s\<lparr>ref_count := ref_count s + 1\<rparr>"

definition g_dhcp_server_stop :: "dhcp_server \<Rightarrow> (dhcp_server \<times> srv_action list) option" where
  "g_dhcp_server_stop s =
     do {
       acts \<leftarrow> save_lease s;
       let (s, acts) = (if listener_watch s > 0
                        then (s\<lparr>listener_watch := 0\<rparr>, acts @ [Source_removed (listener_watch s)])
                        else (s, acts));
       Some (s\<lparr>listener_channel := None, started := False\<rparr>, acts)
     }"

text \<open>\<^verbatim>\<open>g_dhcp_server_unref\<close>: the server is freed (\<open>None\<close>) when the last reference goes away.\<close>

definition g_dhcp_server_unref :: "dhcp_server \<Rightarrow> (dhcp_server option \<times> srv_action list) option" where
  "g_dhcp_server_unref s =
     (if ref_count s \<noteq> 1 then Some (Some (s\<lparr>ref_count := ref_count s - 1\<rparr>), [])
      else do {
        (s, acts) \<leftarrow> g_dhcp_server_stop (s\<lparr>ref_count := ref_count s - 1\<rparr>);
        s \<leftarrow> destroy_lease_table (s\<lparr>option_hash := Map.empty\<rparr>);
        Some (None, acts)
      })"

definition g_dhcp_server_set_ip_range :: "dhcp_server \<Rightarrow> string \<Rightarrow> string \<Rightarrow> int \<times> dhcp_server" where
  "g_dhcp_server_set_ip_range s start_str end_str =
     (case inet_aton start_str of
        None \<Rightarrow> (- ENXIO, s)
      | Some a \<Rightarrow>
        let s = s\<lparr>start_ip := ntohl a\<rparr> in
        (case inet_aton end_str of
           None \<Rightarrow> (- ENXIO, s)
         | Some b \<Rightarrow> (0, s\<lparr>end_ip := ntohl b\<rparr>)))"

definition g_dhcp_server_set_lease_time :: "dhcp_server \<Rightarrow> u32 \<Rightarrow> dhcp_server" where
  "g_dhcp_server_set_lease_time s lease_time = s\<lparr>lease_seconds := lease_time\<rparr>"

section \<open>The invariant of the lease table\<close>

text \<open>
  The leases in the table as values, and the invariant that ties the three views together: the
  list holds exactly the allocated objects, once each; the hash maps an address to the one object
  with that address; no two objects have the same hardware address; and every object holds a
  usable hardware address.
\<close>

definition leases :: "dhcp_server \<Rightarrow> dhcp_lease set" where
  "leases s = {x. \<exists>l \<in> set (lease_list s). lease_heap s l = Some x}"

definition mac_ok :: "u8 list \<Rightarrow> bool" where
  "mac_ok mac \<longleftrightarrow> length mac = ETH_ALEN \<and> mac \<noteq> MAC_BCAST_ADDR \<and> mac \<noteq> MAC_ANY_ADDR"

definition lease_inv :: "dhcp_server \<Rightarrow> bool" where
  "lease_inv s \<longleftrightarrow>
     distinct (lease_list s) \<and>
     set (lease_list s) = dom (lease_heap s) \<and>
     (\<forall>nip l. nip_lease_hash s nip = Some l \<longleftrightarrow> (\<exists>x. lease_heap s l = Some x \<and> lease_nip x = nip)) \<and>
     (\<forall>l l' x x'. lease_heap s l = Some x \<longrightarrow> lease_heap s l' = Some x' \<longrightarrow>
        lease_mac x = lease_mac x' \<longrightarrow> l = l') \<and>
     (\<forall>l x. lease_heap s l = Some x \<longrightarrow> mac_ok (lease_mac x))"

definition env_fresh :: "server_env \<Rightarrow> dhcp_server \<Rightarrow> bool" where
  "env_fresh env s \<longleftrightarrow> (case try_new env of None \<Rightarrow> True | Some l \<Rightarrow> lease_heap s l = None)"

lemma lease_invD:
  assumes "lease_inv s"
  shows "distinct (lease_list s)" "set (lease_list s) = dom (lease_heap s)"
    "nip_lease_hash s nip = Some l \<longleftrightarrow> (\<exists>x. lease_heap s l = Some x \<and> lease_nip x = nip)"
    "lease_heap s l = Some x \<Longrightarrow> lease_heap s l' = Some x' \<Longrightarrow> lease_mac x = lease_mac x' \<Longrightarrow> l = l'"
    "lease_heap s l = Some x \<Longrightarrow> lease_heap s l' = Some x' \<Longrightarrow> lease_nip x = lease_nip x' \<Longrightarrow> l = l'"
    "lease_heap s l = Some x \<Longrightarrow> mac_ok (lease_mac x)"
proof -
  note inv = assms [unfolded lease_inv_def]
  show "distinct (lease_list s)" "set (lease_list s) = dom (lease_heap s)" using inv by blast+
  show h: "nip_lease_hash s nip = Some l \<longleftrightarrow> (\<exists>x. lease_heap s l = Some x \<and> lease_nip x = nip)" for nip l
    using inv by blast
  show "lease_heap s l = Some x \<Longrightarrow> lease_heap s l' = Some x' \<Longrightarrow> lease_mac x = lease_mac x' \<Longrightarrow> l = l'"
    using inv by blast
  show "lease_heap s l = Some x \<Longrightarrow> lease_heap s l' = Some x' \<Longrightarrow> lease_nip x = lease_nip x' \<Longrightarrow> l = l'"
    using h [of "lease_nip x" l] h [of "lease_nip x" l'] by auto
  show "lease_heap s l = Some x \<Longrightarrow> mac_ok (lease_mac x)" using inv by blast
qed

lemma leases_ran: "lease_inv s \<Longrightarrow> leases s = ran (lease_heap s)"
  using lease_invD(2) [of s] by (auto simp: leases_def ran_def)

lemma find_lease_from_total:
  "set ls \<subseteq> dom h \<Longrightarrow> \<exists>r. find_lease_from h ls mac = Some r"
  by (induction ls) auto

lemma find_lease_from_Some:
  "find_lease_from h ls mac = Some (Some l) \<Longrightarrow> l \<in> set ls \<and> (\<exists>x. h l = Some x \<and> lease_mac x = take ETH_ALEN mac)"
  by (induction ls) (auto split: if_splits bind_splits)

lemma find_lease_from_None:
  "find_lease_from h ls mac = Some None \<Longrightarrow> l \<in> set ls \<Longrightarrow> \<exists>x. h l = Some x \<and> lease_mac x \<noteq> take ETH_ALEN mac"
  by (induction ls) (auto split: if_splits bind_splits)

lemma find_lease_by_mac_cases:
  assumes "lease_inv s"
  obtains (none) "find_lease_by_mac s mac = Some None" "\<And>x. x \<in> leases s \<Longrightarrow> lease_mac x \<noteq> take ETH_ALEN mac"
  | (found) l x where "find_lease_by_mac s mac = Some (Some l)" "lease_heap s l = Some x" "lease_mac x = take ETH_ALEN mac"
proof -
  note s = lease_invD(2) [OF assms]
  obtain r where r: "find_lease_by_mac s mac = Some r"
    using find_lease_from_total [of "lease_list s" "lease_heap s" mac] s by (auto simp: find_lease_by_mac_def)
  show thesis
  proof (cases r)
    case None
    show ?thesis
    proof (rule none)
      show "find_lease_by_mac s mac = Some None" using r None by simp
      fix x assume "x \<in> leases s"
      then show "lease_mac x \<noteq> take ETH_ALEN mac"
        using find_lease_from_None [of "lease_heap s" "lease_list s" mac] r None
        by (fastforce simp: find_lease_by_mac_def leases_def)
    qed
  next
    case (Some l)
    then show ?thesis
      using find_lease_from_Some [of "lease_heap s" "lease_list s" mac l] r found
      by (auto simp: find_lease_by_mac_def)
  qed
qed

text \<open>
  A table built from a heap: the tables the operations produce are described by their heap, so the
  invariant is shown once, for a heap, a list of its addresses and a hash that agrees.
\<close>

lemma lease_invI:
  assumes "distinct (lease_list s)" "set (lease_list s) = dom (lease_heap s)"
    "\<And>nip l. nip_lease_hash s nip = Some l \<longleftrightarrow> (\<exists>x. lease_heap s l = Some x \<and> lease_nip x = nip)"
    "\<And>l l' x x'. lease_heap s l = Some x \<Longrightarrow> lease_heap s l' = Some x' \<Longrightarrow> lease_mac x = lease_mac x' \<Longrightarrow> l = l'"
    "\<And>l x. lease_heap s l = Some x \<Longrightarrow> mac_ok (lease_mac x)"
  shows "lease_inv s"
  using assms unfolding lease_inv_def by blast

lemma ran_upd_None:
  assumes "h l = Some x" "\<And>k. h k = Some x \<Longrightarrow> k = l"
  shows "ran (h(l := None)) = ran h - {x}"
proof (intro equalityI subsetI)
  fix y assume "y \<in> ran (h(l := None))"
  then obtain k where "k \<noteq> l" "h k = Some y" by (auto simp: ran_def split: if_splits)
  with assms(2) [of k] show "y \<in> ran h - {x}" by (auto simp: ran_def)
next
  fix y assume "y \<in> ran h - {x}"
  then obtain k where "h k = Some y" "y \<noteq> x" by (auto simp: ran_def)
  with assms(1) have "(h(l := None)) k = Some y" by auto
  then show "y \<in> ran (h(l := None))" by (rule ranI)
qed

lemma remove_lease_ok:
  assumes inv: "lease_inv s" and x: "lease_heap s l = Some x"
  obtains s' where "remove_lease s l = Some s'" "lease_inv s'" "lease_heap s' = (lease_heap s)(l := None)"
    "leases s' = leases s - {x}"
    "s' = s\<lparr>lease_list := lease_list s', nip_lease_hash := nip_lease_hash s', lease_heap := lease_heap s'\<rparr>"
proof -
  define s' where "s' = s\<lparr>lease_list := g_list_remove l (lease_list s),
              nip_lease_hash := (nip_lease_hash s)(lease_nip x := None),
              lease_heap := (lease_heap s)(l := None)\<rparr>"
  note d = lease_invD [OF inv]
  have inv': "lease_inv s'"
  proof (rule lease_invI)
    show "distinct (lease_list s')" using d(1) by (simp add: s'_def distinct_remove1)
    show "set (lease_list s') = dom (lease_heap s')" using d(1,2) by (auto simp: s'_def)
    show "nip_lease_hash s' nip = Some k \<longleftrightarrow> (\<exists>y. lease_heap s' k = Some y \<and> lease_nip y = nip)" for nip k
    proof (cases "nip = lease_nip x")
      case True
      then have "\<not> (lease_heap s k = Some y \<and> lease_nip y = nip)" if "k \<noteq> l" for y
        using d(5) [OF x, of k y] that by auto
      then show ?thesis using True by (auto simp: s'_def)
    next
      case False
      then show ?thesis using d(3) [of nip k] x by (auto simp: s'_def)
    qed
  next
    fix k k' y y'
    assume "lease_heap s' k = Some y" "lease_heap s' k' = Some y'" "lease_mac y = lease_mac y'"
    then show "k = k'" using d(4) by (auto simp: s'_def split: if_splits)
  next
    fix k y
    assume "lease_heap s' k = Some y"
    then show "mac_ok (lease_mac y)" using d(6) by (auto simp: s'_def split: if_splits)
  qed
  have "ran ((lease_heap s)(l := None)) = ran (lease_heap s) - {x}"
    by (rule ran_upd_None [where h = "lease_heap s", OF x]) (rule d(4) [OF _ x refl])
  then have "leases s' = leases s - {x}"
    using leases_ran [OF inv] leases_ran [OF inv'] by (simp add: s'_def)
  with inv' show thesis using that [of s'] x by (simp add: remove_lease_def s'_def)
qed

text \<open>
  Taking a lease out of the table: after \<^verbatim>\<open>get_lease\<close> the object returned is allocated but in no
  view; without it the table satisfies the invariant and holds what is left when the client's
  old lease and the holder of the address are gone.
\<close>

abbreviation detach :: "dhcp_server \<Rightarrow> nat \<Rightarrow> dhcp_server" where
  "detach s l \<equiv> s\<lparr>lease_heap := (lease_heap s)(l := None)\<rparr>"

abbreviation others :: "dhcp_server \<Rightarrow> u8 list \<Rightarrow> u32 \<Rightarrow> dhcp_lease set" where
  "others s mac nip \<equiv> {y \<in> leases s. lease_mac y \<noteq> mac \<and> lease_nip y \<noteq> nip}"

abbreviation addr_ok :: "dhcp_server \<Rightarrow> u32 \<Rightarrow> bool" where
  "addr_ok s nip \<equiv> nip \<noteq> 0 \<and> start_ip s \<le> nip \<and> nip \<le> end_ip s"

lemma leases_unique:
  assumes "lease_inv s" "lease_heap s l = Some x" "y \<in> leases s"
  shows "lease_mac y = lease_mac x \<longleftrightarrow> y = x" "lease_nip y = lease_nip x \<longleftrightarrow> y = x"
proof -
  obtain k where "lease_heap s k = Some y" using assms(3) by (auto simp: leases_def)
  with assms(2) show "lease_mac y = lease_mac x \<longleftrightarrow> y = x" "lease_nip y = lease_nip x \<longleftrightarrow> y = x"
    using lease_invD(4,5) [OF assms(1)] by (metis option.inject)+
qed

lemma leases_in_heap: "lease_inv s \<Longrightarrow> lease_heap s l = Some x \<Longrightarrow> x \<in> leases s"
  by (auto simp: leases_ran ranI)

lemma hash_none: "lease_inv s \<Longrightarrow> nip_lease_hash s nip = None \<Longrightarrow> y \<in> leases s \<Longrightarrow> lease_nip y \<noteq> nip"
  using lease_invD(3) [of s nip] by (fastforce simp: leases_def)

lemma detach_remove:
  assumes inv: "lease_inv s" and x: "lease_heap s ln = Some x" "lease_nip x = nip"
    and z: "lease_heap s m = Some z" and ne: "ln \<noteq> m"
  obtains s3 where "remove_lease (s\<lparr>lease_list := g_list_remove ln (lease_list s),
        nip_lease_hash := (nip_lease_hash s)(nip := None)\<rparr>) m = Some s3"
    "lease_inv (detach s3 ln)" "leases (detach s3 ln) = leases s - {x, z}" "lease_heap s3 ln = Some x"
    "s3 = s\<lparr>lease_list := lease_list s3, nip_lease_hash := nip_lease_hash s3, lease_heap := lease_heap s3\<rparr>"
proof -
  obtain s1 where s1: "remove_lease s ln = Some s1" "lease_inv s1"
    "lease_heap s1 = (lease_heap s)(ln := None)" "leases s1 = leases s - {x}"
    using remove_lease_ok [OF inv x(1)] by metis
  have s1': "s1 = s\<lparr>lease_list := g_list_remove ln (lease_list s),
      nip_lease_hash := (nip_lease_hash s)(nip := None), lease_heap := (lease_heap s)(ln := None)\<rparr>"
    using s1(1) x by (simp add: remove_lease_def)
  have z1: "lease_heap s1 m = Some z" using z ne by (simp add: s1(3))
  obtain s2 where s2: "remove_lease s1 m = Some s2" "lease_inv s2" "leases s2 = leases s1 - {z}"
    using remove_lease_ok [OF s1(2) z1] by metis
  have s2': "s2 = s1\<lparr>lease_list := g_list_remove m (lease_list s1),
      nip_lease_hash := (nip_lease_hash s1)(lease_nip z := None), lease_heap := (lease_heap s1)(m := None)\<rparr>"
    using s2(1) z1 by (simp add: remove_lease_def)
  define s3 where "s3 = s2\<lparr>lease_heap := (lease_heap s)(m := None)\<rparr>"
  have "(lease_heap s)(m := None, ln := None) = (lease_heap s)(ln := None, m := None)"
    using ne by (simp add: fun_upd_twist)
  then have dt: "detach s3 ln = s2" by (simp add: s3_def s2' s1(3))
  show thesis
  proof (rule that [of s3])
    show "remove_lease (s\<lparr>lease_list := g_list_remove ln (lease_list s),
        nip_lease_hash := (nip_lease_hash s)(nip := None)\<rparr>) m = Some s3"
      using z by (simp add: remove_lease_def s3_def s2' s1')
    show "lease_inv (detach s3 ln)" "leases (detach s3 ln) = leases s - {x, z}"
      using s2(2,3) s1(4) by (auto simp: dt)
    show "lease_heap s3 ln = Some x" using ne x by (simp add: s3_def)
    show "s3 = s\<lparr>lease_list := lease_list s3, nip_lease_hash := nip_lease_hash s3, lease_heap := lease_heap s3\<rparr>"
      by (simp add: s3_def s2' s1')
  qed
qed

lemma get_lease_ok:
  assumes inv: "lease_inv s" and fr: "env_fresh env s" and yi: "addr_ok s (ntohl yi)"
    and mac: "mac_ok (take ETH_ALEN mac)"
  obtains (ok) s' l where "get_lease env s yi mac = Some (s', Inr l)" "lease_inv (detach s' l)"
      "lease_heap s' l \<noteq> None" "leases (detach s' l) = others s (take ETH_ALEN mac) (ntohl yi)"
      "s' = s\<lparr>lease_list := lease_list s', nip_lease_hash := nip_lease_hash s', lease_heap := lease_heap s'\<rparr>"
  | (nomem) "get_lease env s yi mac = Some (s, Inl (- ENOMEM))" "try_new env = None"
      "others s (take ETH_ALEN mac) (ntohl yi) = leases s"
proof -
  have g: "yi \<noteq> 0" "\<not> ntohl yi < start_ip s" "\<not> ntohl yi > end_ip s" "take ETH_ALEN mac \<noteq> MAC_BCAST_ADDR"
    "take ETH_ALEN mac \<noteq> MAC_ANY_ADDR"
    using yi mac by (auto simp: mac_ok_def)
  note gl = get_lease_def [of env s yi mac, simplified g, simplified]
  note d = lease_invD [OF inv]
  show thesis
  proof (cases "nip_lease_hash s (ntohl yi)")
    case (Some ln)
    then obtain x where x: "lease_heap s ln = Some x" "lease_nip x = ntohl yi" using d(3) by auto
    obtain s1 where s1: "remove_lease s ln = Some s1" "lease_inv s1"
      "lease_heap s1 = (lease_heap s)(ln := None)" "leases s1 = leases s - {x}"
      using remove_lease_ok [OF inv x(1)] by metis
    have s1': "s1 = s\<lparr>lease_list := g_list_remove ln (lease_list s),
        nip_lease_hash := (nip_lease_hash s)(ntohl yi := None), lease_heap := (lease_heap s)(ln := None)\<rparr>"
      using s1(1) x by (simp add: remove_lease_def)
    note nip = leases_unique(2) [OF inv x(1), unfolded x(2)]
    show thesis
      using inv
    proof (cases rule: find_lease_by_mac_cases [where mac = mac])
      case none
      have "leases s1 = others s (take ETH_ALEN mac) (ntohl yi)"
        using none(2) nip by (auto simp: s1(4))
      then show thesis
        using ok [of "s\<lparr>lease_list := g_list_remove ln (lease_list s), nip_lease_hash := (nip_lease_hash s)(ntohl yi := None)\<rparr>" ln]
          none(1) Some x s1(2) by (simp add: gl s1')
    next
      case (found m z)
      note mc = leases_unique(1) [OF inv found(2), unfolded found(3)]
      show thesis
      proof (cases "ln = m")
        case True
        then have "leases s1 = others s (take ETH_ALEN mac) (ntohl yi)"
          using found x nip mc by (auto simp: s1(4))
        then show thesis
          using ok [of "s\<lparr>lease_list := g_list_remove ln (lease_list s), nip_lease_hash := (nip_lease_hash s)(ntohl yi := None)\<rparr>" ln]
            found(1) Some x s1(2) True by (simp add: gl s1')
      next
        case False
        obtain s3 where s3: "remove_lease (s\<lparr>lease_list := g_list_remove ln (lease_list s),
              nip_lease_hash := (nip_lease_hash s)(ntohl yi := None)\<rparr>) m = Some s3"
            "lease_inv (detach s3 ln)" "leases (detach s3 ln) = leases s - {x, z}" "lease_heap s3 ln = Some x"
            "s3 = s\<lparr>lease_list := lease_list s3, nip_lease_hash := nip_lease_hash s3, lease_heap := lease_heap s3\<rparr>"
          using detach_remove [OF inv x found(2) False] by metis
        have "leases (detach s3 ln) = others s (take ETH_ALEN mac) (ntohl yi)"
          using nip mc by (auto simp: s3(3))
        moreover have "get_lease env s yi mac = Some (s3, Inr ln)"
          using found(1) Some False by (simp add: gl s3(1))
        ultimately show thesis using s3(2,4,5) by (intro ok [of s3 ln]) simp_all
      qed
    qed
  next
    case None
    note nn = hash_none [OF inv None]
    show thesis
      using inv
    proof (cases rule: find_lease_by_mac_cases [where mac = mac])
      case none
      have o: "others s (take ETH_ALEN mac) (ntohl yi) = leases s"
        using nn none(2) by auto
      show thesis
      proof (cases "try_new env")
        case None
        then show thesis using nomem o none(1) \<open>nip_lease_hash s (ntohl yi) = None\<close> by (simp add: gl)
      next
        case (Some l)
        then have "(lease_heap s)(l := None) = lease_heap s" using fr by (auto simp: env_fresh_def)
        then show thesis
          using ok [of "s\<lparr>lease_heap := (lease_heap s)(l \<mapsto> zero_lease)\<rparr>" l] o none(1) inv Some None by (simp add: gl)
      qed
    next
      case (found m z)
      note mc = leases_unique(1) [OF inv found(2), unfolded found(3)]
      obtain s1 where s1: "remove_lease s m = Some s1" "lease_inv s1" "leases s1 = leases s - {z}"
        using remove_lease_ok [OF inv found(2)] by metis
      have "leases s1 = others s (take ETH_ALEN mac) (ntohl yi)" using nn mc by (auto simp: s1(3))
      then show thesis
        using ok [of "s\<lparr>lease_list := g_list_remove m (lease_list s), nip_lease_hash := (nip_lease_hash s)(lease_nip z := None)\<rparr>" m]
          found None s1(1,2) by (simp add: gl remove_lease_def)
    qed
  qed
qed

text \<open>Putting a lease into the table.\<close>

lemma attach_ok:
  assumes inv: "lease_inv (detach s l)" and x: "mac_ok (lease_mac x)"
    and fr: "\<And>y. y \<in> leases (detach s l) \<Longrightarrow> lease_mac y \<noteq> lease_mac x \<and> lease_nip y \<noteq> lease_nip x"
    and s': "s' = s\<lparr>lease_heap := (lease_heap s)(l \<mapsto> x), lease_list := g_list_insert_sorted cmp l (lease_list s),
        nip_lease_hash := (nip_lease_hash s)(lease_nip x \<mapsto> l)\<rparr>"
  shows "lease_inv s'" "leases s' = insert x (leases (detach s l))"
proof -
  note d = lease_invD [OF inv, simplified]
  have other: "lease_mac y \<noteq> lease_mac x \<and> lease_nip y \<noteq> lease_nip x" if "k \<noteq> l" "lease_heap s k = Some y" for k y
    using fr leases_in_heap [OF inv, of k y] that by simp
  have heap: "lease_heap s' k = Some y \<longleftrightarrow> (if k = l then y = x else lease_heap s k = Some y)" for k y
    by (auto simp: s')
  show inv': "lease_inv s'"
  proof (rule lease_invI)
    show "distinct (lease_list s')" "set (lease_list s') = dom (lease_heap s')"
      using d(1,2) by (auto simp: s')
    show "nip_lease_hash s' nip = Some k \<longleftrightarrow> (\<exists>y. lease_heap s' k = Some y \<and> lease_nip y = nip)" for nip k
    proof (cases "nip = lease_nip x")
      case True
      then show ?thesis using other [of k] by (auto simp: s')
    next
      case False
      then show ?thesis using d(3) [of nip k] by (auto simp: s' split: if_splits)
    qed
  next
    fix k k' y y'
    assume "lease_heap s' k = Some y" "lease_heap s' k' = Some y'" "lease_mac y = lease_mac y'"
    then have a: "if k = l then y = x else lease_heap s k = Some y"
      "if k' = l then y' = x else lease_heap s k' = Some y'" "lease_mac y = lease_mac y'"
      by (simp_all add: heap)
    show "k = k'"
    proof (cases "k = l \<or> k' = l")
      case True
      then show ?thesis using a other [of k y] other [of k' y'] by (auto split: if_splits)
    next
      case False
      then show ?thesis using a by (intro d(4) [of k y k' y']) auto
    qed
  next
    fix k y
    assume "lease_heap s' k = Some y"
    then show "mac_ok (lease_mac y)" using d(6) [of k y] x by (cases "k = l") (simp_all add: heap)
  qed
  have "ran (lease_heap s') = insert x (ran ((lease_heap s)(l := None)))"
    by (auto simp: ran_def s' split: if_splits)
  then show "leases s' = insert x (leases (detach s l))"
    using leases_ran [OF inv] leases_ran [OF inv'] by simp
qed

definition new_lease_of :: "server_env \<Rightarrow> dhcp_server \<Rightarrow> u32 \<Rightarrow> u8 list \<Rightarrow> u32 \<Rightarrow> dhcp_lease" where
  "new_lease_of env s exp mac nip =
     \<lparr>expire = (if exp = 0 then now1 env + uint (lease_seconds s) else uint exp), lease_nip = nip,
      lease_mac = take ETH_ALEN mac\<rparr>"

lemma add_lease_ok:
  assumes inv: "lease_inv s" and fr: "env_fresh env s" and yi: "addr_ok s (ntohl yi)"
    and mac: "mac_ok (take ETH_ALEN mac)"
  obtains (ok) s' l where "add_lease env s exp mac yi = Some (s', Some l)" "lease_inv s'"
      "lease_heap s' l = Some (new_lease_of env s exp mac (ntohl yi))"
      "leases s' = insert (new_lease_of env s exp mac (ntohl yi)) (others s (take ETH_ALEN mac) (ntohl yi))"
      "s' = s\<lparr>lease_list := lease_list s', nip_lease_hash := nip_lease_hash s', lease_heap := lease_heap s'\<rparr>"
  | (nomem) "add_lease env s exp mac yi = Some (s, None)" "try_new env = None"
      "others s (take ETH_ALEN mac) (ntohl yi) = leases s"
  using assms
proof (cases rule: get_lease_ok)
  case g: (ok s1 l)
  let ?x = "new_lease_of env s exp mac (ntohl yi)"
  let ?h = "(lease_heap s1)(l \<mapsto> ?x)"
  define s' where "s' = s1\<lparr>lease_heap := ?h, lease_list := g_list_insert_sorted (compare_expire ?h) l (lease_list s1),
        nip_lease_hash := (nip_lease_hash s1)(lease_nip ?x \<mapsto> l)\<rparr>"
  have x: "lease_mac ?x = take ETH_ALEN mac" "lease_nip ?x = ntohl yi" by (simp_all add: new_lease_of_def)
  have sec: "lease_seconds s1 = lease_seconds s" by (subst g(5)) simp
  have "list_all (\<lambda>k. k \<noteq> l \<longrightarrow> (\<exists>y. lease_heap s1 k = Some y)) (lease_list s1)"
    using lease_invD(2) [OF g(2)] by (auto simp: list_all_iff)
  then have add: "add_lease env s exp mac yi = Some (s', Some l)"
    using g(1,3) by (auto simp: add_lease_def s'_def new_lease_of_def Let_def sec)
  have "mac_ok (lease_mac ?x)" using mac by (simp add: x)
  moreover have "lease_mac y \<noteq> lease_mac ?x \<and> lease_nip y \<noteq> lease_nip ?x" if "y \<in> leases (detach s1 l)" for y
    using that unfolding g(4) x by blast
  ultimately have at: "lease_inv s'" "leases s' = insert ?x (leases (detach s1 l))"
    using attach_ok [OF g(2) _ _ s'_def] by metis+
  show thesis
  proof (rule that(1) [OF add at(1)])
    show "lease_heap s' l = Some ?x" by (simp add: s'_def)
    show "leases s' = insert ?x (others s (take ETH_ALEN mac) (ntohl yi))" using at(2) g(4) by simp
    show "s' = s\<lparr>lease_list := lease_list s', nip_lease_hash := nip_lease_hash s', lease_heap := lease_heap s'\<rparr>"
      unfolding s'_def by (subst g(5)) simp
  qed
next
  case nomem
  then show thesis using that(2) by (simp add: add_lease_def)
qed

lemma add_lease_refused:
  assumes "\<not> addr_ok s (ntohl yi) \<or> take ETH_ALEN mac = MAC_BCAST_ADDR \<or> take ETH_ALEN mac = MAC_ANY_ADDR"
  shows "add_lease env s exp mac yi = Some (s, None)"
  using assms by (auto simp: add_lease_def get_lease_def)

text \<open>The lease operations change nothing but the table.\<close>

definition same_config :: "dhcp_server \<Rightarrow> dhcp_server \<Rightarrow> bool" where
  "same_config s s' \<longleftrightarrow> s' = s\<lparr>lease_list := lease_list s', nip_lease_hash := nip_lease_hash s', lease_heap := lease_heap s'\<rparr>"

lemma same_configD:
  assumes "same_config s s'"
  shows "start_ip s' = start_ip s" "end_ip s' = end_ip s" "server_nip s' = server_nip s"
    "lease_seconds s' = lease_seconds s" "option_hash s' = option_hash s" "srv_ifindex s' = srv_ifindex s"
    "lease_added_cb s' = lease_added_cb s" "save_lease_func s' = save_lease_func s"
  by (subst assms [unfolded same_config_def], simp)+

lemma same_config_refl [simp]: "same_config s s"
  by (simp add: same_config_def)

lemma lease_set_expire_ok:
  assumes inv: "lease_inv s" and x: "lease_heap s l = Some x"
  obtains s' where "lease_set_expire s l exp = Some s'" "lease_inv s'"
    "leases s' = insert (x\<lparr>expire := uint exp\<rparr>) (leases s - {x})"
    "same_config s s'"
proof -
  let ?x = "x\<lparr>expire := uint exp\<rparr>"
  let ?h = "(lease_heap s)(l \<mapsto> ?x)"
  let ?s1 = "s\<lparr>lease_list := g_list_remove l (lease_list s), nip_lease_hash := (nip_lease_hash s)(lease_nip x := None)\<rparr>"
  define s' where "s' = s\<lparr>lease_heap := ?h,
      lease_list := g_list_insert_sorted (compare_expire ?h) l (g_list_remove l (lease_list s))\<rparr>"
  note d = lease_invD [OF inv]
  obtain s2 where s2: "remove_lease s l = Some s2" "lease_inv s2" "leases s2 = leases s - {x}"
    using remove_lease_ok [OF inv x] by metis
  have s2': "s2 = detach ?s1 l" using s2(1) x by (simp add: remove_lease_def)
  have "nip_lease_hash s (lease_nip x) = Some l" using d(3) x by auto
  then have "s' = ?s1\<lparr>lease_heap := (lease_heap ?s1)(l \<mapsto> ?x),
      lease_list := g_list_insert_sorted (compare_expire ?h) l (lease_list ?s1),
      nip_lease_hash := (nip_lease_hash ?s1)(lease_nip ?x \<mapsto> l)\<rparr>"
    by (simp add: s'_def fun_upd_idem)
  moreover have "lease_mac y \<noteq> lease_mac ?x \<and> lease_nip y \<noteq> lease_nip ?x" if "y \<in> leases (detach ?s1 l)" for y
    using that leases_unique [OF inv x, of y] unfolding s2(3) [unfolded s2'] by auto
  moreover have "mac_ok (lease_mac ?x)" using d(6) [OF x] by simp
  ultimately have at: "lease_inv s'" "leases s' = insert ?x (leases (detach ?s1 l))"
    using attach_ok [of ?s1 l ?x s'] s2(2) unfolding s2' by metis+
  have "list_all (\<lambda>k. k \<noteq> l \<longrightarrow> (\<exists>y. lease_heap s k = Some y)) (g_list_remove l (lease_list s))"
    using d(1,2) by (auto simp: list_all_iff)
  then have "lease_set_expire s l exp = Some s'" using x by (simp add: lease_set_expire_def s'_def Let_def)
  then show thesis
    using at s2(3) by (intro that [of s']) (simp_all add: s2' s'_def same_config_def)
qed

section \<open>The table as an interface\<close>

text \<open>
  What the packet handlers rely on of the lease table: a set of leases in which hardware address
  and address are each unique, lookups by hardware address, and an \<open>add\<close> that replaces the client's
  old lease and the holder of the address and leaves every other lease alone.
\<close>

locale lease_table =
  fixes inv :: "'s \<Rightarrow> bool"
    and table :: "'s \<Rightarrow> dhcp_lease set"
    and ready :: "'e \<Rightarrow> 's \<Rightarrow> bool"
    and lookup :: "'s \<Rightarrow> u8 list \<Rightarrow> dhcp_lease option"
    and add :: "'e \<Rightarrow> 's \<Rightarrow> u32 \<Rightarrow> u8 list \<Rightarrow> u32 \<Rightarrow> ('s \<times> dhcp_lease option) option"
  assumes inv_mac: "inv s \<Longrightarrow> x \<in> table s \<Longrightarrow> y \<in> table s \<Longrightarrow> lease_mac x = lease_mac y \<Longrightarrow> x = y"
    and inv_nip: "inv s \<Longrightarrow> x \<in> table s \<Longrightarrow> y \<in> table s \<Longrightarrow> lease_nip x = lease_nip y \<Longrightarrow> x = y"
    and lookup_iff: "inv s \<Longrightarrow> lookup s mac = Some x \<longleftrightarrow> x \<in> table s \<and> lease_mac x = take ETH_ALEN mac"
    and add_total: "inv s \<Longrightarrow> ready e s \<Longrightarrow> length mac = 16 \<Longrightarrow> \<exists>r. add e s exp mac yi = Some r"
    and add_None: "inv s \<Longrightarrow> ready e s \<Longrightarrow> length mac = 16 \<Longrightarrow> add e s exp mac yi = Some (s', None) \<Longrightarrow> s' = s"
    and add_Some: "inv s \<Longrightarrow> ready e s \<Longrightarrow> length mac = 16 \<Longrightarrow> add e s exp mac yi = Some (s', Some x) \<Longrightarrow>
      inv s' \<and> lease_mac x = take ETH_ALEN mac \<and> lease_nip x = ntohl yi \<and>
      table s' = insert x {y \<in> table s. lease_mac y \<noteq> lease_mac x \<and> lease_nip y \<noteq> lease_nip x}"
begin

lemma add_keeps_inv:
  "inv s \<Longrightarrow> ready e s \<Longrightarrow> length mac = 16 \<Longrightarrow> add e s exp mac yi = Some (s', r) \<Longrightarrow> inv s'"
  using add_None add_Some by (cases r) blast+

lemma lookup_add:
  assumes "inv s" "ready e s" "length mac = 16" "add e s exp mac yi = Some (s', Some x)"
  shows "lookup s' mac = Some x"
  using add_Some [OF assms] lookup_iff [of s' mac x] by auto

lemma add_exclusive:
  assumes "inv s" "ready e s" "length mac = 16" "add e s exp mac yi = Some (s', Some x)"
    "y \<in> table s'" "lease_nip y = ntohl yi"
  shows "y = x"
  using add_Some [OF assms(1-4)] inv_nip [of s' y x] assms(5,6) by auto

lemma add_keeps:
  assumes "inv s" "ready e s" "length mac = 16" "add e s exp mac yi = Some (s', r)"
    "y \<in> table s" "lease_mac y \<noteq> take ETH_ALEN mac" "lease_nip y \<noteq> ntohl yi"
  shows "y \<in> table s'"
  using add_None [OF assms(1-3)] add_Some [OF assms(1-3)] assms(4-7) by (cases r) auto

lemma add_size:
  assumes "inv s" "ready e s" "length mac = 16" "add e s exp mac yi = Some (s', r)" "finite (table s)"
  shows "finite (table s')" "card (table s') \<le> Suc (card (table s))"
proof -
  have sub: "table s' \<subseteq> (case r of None \<Rightarrow> table s | Some x \<Rightarrow> insert x (table s))"
    using add_None [OF assms(1-3)] add_Some [OF assms(1-3)] assms(4) by (cases r) auto
  then show fin: "finite (table s')" using assms(5) by (cases r) (auto intro: finite_subset)
  show "card (table s') \<le> Suc (card (table s))"
  proof (cases r)
    case None
    then show ?thesis using card_mono [OF _ sub] assms(5) by simp
  next
    case (Some x)
    then have "card (table s') \<le> card (insert x (table s))" using card_mono [OF _ sub] assms(5) by simp
    also have "\<dots> \<le> Suc (card (table s))" using assms(5) by (simp add: card_insert_if)
    finally show ?thesis .
  qed
qed

end

text \<open>The model's table implements the interface.\<close>

definition lookup_lease :: "dhcp_server \<Rightarrow> u8 list \<Rightarrow> dhcp_lease option" where
  "lookup_lease s mac =
     (case find_lease_by_mac s mac of Some (Some l) \<Rightarrow> lease_heap s l | _ \<Rightarrow> None)"

definition add_lease_value ::
    "server_env \<Rightarrow> dhcp_server \<Rightarrow> u32 \<Rightarrow> u8 list \<Rightarrow> u32 \<Rightarrow> (dhcp_server \<times> dhcp_lease option) option" where
  "add_lease_value env s exp mac yi =
     map_option (\<lambda>(s', r). (s', Option.bind r (lease_heap s'))) (add_lease env s exp mac yi)"

lemma add_lease_cases:
  assumes inv: "lease_inv s" and fr: "env_fresh env s" and len: "ETH_ALEN \<le> length mac"
  obtains (ok) s' l where "add_lease env s exp mac yi = Some (s', Some l)" "lease_inv s'"
      "lease_heap s' l = Some (new_lease_of env s exp mac (ntohl yi))"
      "leases s' = insert (new_lease_of env s exp mac (ntohl yi)) (others s (take ETH_ALEN mac) (ntohl yi))"
      "same_config s s'"
      "addr_ok s (ntohl yi)" "mac_ok (take ETH_ALEN mac)"
  | (refused) "add_lease env s exp mac yi = Some (s, None)"
      "\<not> addr_ok s (ntohl yi) \<or> \<not> mac_ok (take ETH_ALEN mac) \<or> try_new env = None"
proof (cases "addr_ok s (ntohl yi) \<and> mac_ok (take ETH_ALEN mac)")
  case True
  then have a: "addr_ok s (ntohl yi)" "mac_ok (take ETH_ALEN mac)" by blast+
  from inv fr a show thesis
  proof (cases rule: add_lease_ok [where exp = exp])
    case g: (ok s' l)
    then show thesis by (intro ok [OF g(1-4) _ a]) (simp add: same_config_def)
  qed (rule refused, simp_all)
next
  case False
  then show thesis using refused add_lease_refused [where s = s and yi = yi and mac = mac] len by (auto simp: mac_ok_def)
qed

interpretation lt: lease_table lease_inv leases env_fresh lookup_lease add_lease_value
proof unfold_locales
  fix s x y
  assume "lease_inv s" "x \<in> leases s" "y \<in> leases s"
  then show "lease_mac x = lease_mac y \<Longrightarrow> x = y" "lease_nip x = lease_nip y \<Longrightarrow> x = y"
    using leases_unique [of s _ y x] by (auto simp: leases_def)
next
  fix s mac x
  assume inv: "lease_inv s"
  from inv show "lookup_lease s mac = Some x \<longleftrightarrow> x \<in> leases s \<and> lease_mac x = take ETH_ALEN mac"
  proof (cases rule: find_lease_by_mac_cases [where mac = mac])
    case none
    then show ?thesis by (auto simp: lookup_lease_def)
  next
    case (found l z)
    then show ?thesis
      using leases_unique(1) [OF inv found(2), of x] leases_in_heap [OF inv found(2)]
      by (auto simp: lookup_lease_def)
  qed
next
  fix env s exp yi and mac :: "u8 list"
  assume *: "lease_inv s" "env_fresh env s" "length mac = 16"
  then have "ETH_ALEN \<le> length mac" by simp
  with *(1,2) show "\<exists>r. add_lease_value env s exp mac yi = Some r"
    by (cases rule: add_lease_cases [where exp = exp and yi = yi]) (auto simp: add_lease_value_def)
next
  fix env s exp yi s' and mac :: "u8 list"
  assume *: "lease_inv s" "env_fresh env s" "length mac = 16" "add_lease_value env s exp mac yi = Some (s', None)"
  then have "ETH_ALEN \<le> length mac" by simp
  with *(1,2) show "s' = s"
    by (cases rule: add_lease_cases [where exp = exp and yi = yi]) (use *(4) in \<open>auto simp: add_lease_value_def\<close>)
next
  fix env s exp yi s' x and mac :: "u8 list"
  assume *: "lease_inv s" "env_fresh env s" "length mac = 16" "add_lease_value env s exp mac yi = Some (s', Some x)"
  then have "ETH_ALEN \<le> length mac" by simp
  with *(1,2) show "lease_inv s' \<and> lease_mac x = take ETH_ALEN mac \<and> lease_nip x = ntohl yi \<and>
      leases s' = insert x {y \<in> leases s. lease_mac y \<noteq> lease_mac x \<and> lease_nip y \<noteq> lease_nip x}"
  proof (cases rule: add_lease_cases [where exp = exp and yi = yi])
    case (ok s1 l)
    have "s1 = s'" "x = new_lease_of env s exp mac (ntohl yi)"
      using *(4) ok(1,3) by (simp_all add: add_lease_value_def)
    then show ?thesis using ok(2,4) by (simp add: new_lease_of_def)
  next
    case refused
    then show ?thesis using *(4) by (simp add: add_lease_value_def)
  qed
qed

section \<open>Choosing an address\<close>

definition usable :: "u32 \<Rightarrow> bool" where
  "usable a \<longleftrightarrow> a AND 0xff \<noteq> 0 \<and> a AND 0xff \<noteq> 0xff"

lemma find_free_nip_step:
  "find_free_nip s mac a =
     (if a \<le> end_ip s then
        if usable a \<and> nip_lease_hash s a = None then Some (Some a) else find_free_nip s mac (a + 1)
      else Some None)"
  by (subst find_free_nip.simps)
    (auto simp: usable_def find_lease_by_nip_def arp_check_def split: option.splits)

lemma unat_Suc_less: "a \<le> b \<Longrightarrow> b < 0xffffffff \<Longrightarrow> unat (a + 1) = Suc (unat (a :: u32))"
  by (simp add: unat_word_ariths word_less_nat_alt word_le_nat_alt)

lemma find_free_nip_spec:
  assumes "end_ip s < 0xffffffff"
  obtains (free) r where "find_free_nip s mac a = Some (Some r)" "a \<le> r" "r \<le> end_ip s" "usable r" "nip_lease_hash s r = None"
  | (full) "find_free_nip s mac a = Some None" "\<And>r. a \<le> r \<Longrightarrow> r \<le> end_ip s \<Longrightarrow> usable r \<Longrightarrow> nip_lease_hash s r \<noteq> None"
proof (induction "Suc (unat (end_ip s)) - unat a" arbitrary: a thesis rule: less_induct)
  case less
  show ?case
  proof (cases "a \<le> end_ip s")
    case False
    then show ?thesis by (intro less.prems(2)) (auto simp: find_free_nip_step)
  next
    case True
    show ?thesis
    proof (cases "usable a \<and> nip_lease_hash s a = None")
      case here: True
      then show ?thesis using True by (intro less.prems(1) [of a]) (simp_all add: find_free_nip_step)
    next
      case False
      note step = find_free_nip_step [of s mac a]
      have suc: "unat (a + 1) = Suc (unat a)" using True assms by (rule unat_Suc_less)
      have lt: "Suc (unat (end_ip s)) - unat (a + 1) < Suc (unat (end_ip s)) - unat a"
        using True suc by (simp add: word_le_nat_alt)
      have le: "a + 1 \<le> r \<longleftrightarrow> a \<le> r \<and> a \<noteq> r" for r
        using suc by (auto simp: word_le_nat_alt word_unat_eq_iff)
      show ?thesis
      proof (rule less.hyps [OF lt])
        fix r assume "find_free_nip s mac (a + 1) = Some (Some r)" "a + 1 \<le> r" "r \<le> end_ip s" "usable r"
          "nip_lease_hash s r = None"
        then show ?thesis using True False step le by (intro less.prems(1) [of r]) auto
      next
        assume "find_free_nip s mac (a + 1) = Some None"
          "\<And>r. a + 1 \<le> r \<Longrightarrow> r \<le> end_ip s \<Longrightarrow> usable r \<Longrightarrow> nip_lease_hash s r \<noteq> None"
        then show ?thesis using True False step le by (intro less.prems(2)) auto
      qed
    qed
  qed
qed

lemma find_free_or_expired_nip_result:
  assumes inv: "lease_inv s" and "end_ip s < 0xffffffff"
  obtains (free) nip where "find_free_or_expired_nip now s mac = Some nip" "start_ip s \<le> nip" "nip \<le> end_ip s"
      "usable nip" "nip_lease_hash s nip = None"
  | (expired) l x where "find_free_or_expired_nip now s mac = Some (lease_nip x)" "lease_heap s l = Some x"
      "g_list_last (lease_list s) = Some l" "expire x < now"
      "\<And>r. start_ip s \<le> r \<Longrightarrow> r \<le> end_ip s \<Longrightarrow> usable r \<Longrightarrow> nip_lease_hash s r \<noteq> None"
  | (none) "find_free_or_expired_nip now s mac = Some 0"
      "\<And>r. start_ip s \<le> r \<Longrightarrow> r \<le> end_ip s \<Longrightarrow> usable r \<Longrightarrow> nip_lease_hash s r \<noteq> None"
      "\<And>l x. g_list_last (lease_list s) = Some l \<Longrightarrow> lease_heap s l = Some x \<Longrightarrow> \<not> expire x < now"
  using assms(2)
proof (cases rule: find_free_nip_spec [where mac = mac and a = "start_ip s"])
  case (free r)
  then show thesis using that(1) [of r] by (simp add: find_free_or_expired_nip_def)
next
  case full
  show thesis
  proof (cases "lease_list s = []")
    case True
    then show thesis using full by (intro that(3)) (auto simp: find_free_or_expired_nip_def g_list_last_def)
  next
    case False
    then obtain x where x: "lease_heap s (last (lease_list s)) = Some x"
      using lease_invD(2) [OF inv] last_in_set [of "lease_list s"] by auto
    have r: "find_free_or_expired_nip now s mac = Some (if expire x < now then lease_nip x else 0)"
      using False x full(1)
      by (simp add: find_free_or_expired_nip_def g_list_last_def is_expired_lease_def arp_check_def)
    show thesis
    proof (cases "expire x < now")
      case True
      then show thesis using that(2) [of x "last (lease_list s)"] r x False full(2) by (simp add: g_list_last_def)
    next
      case no: False
      then show thesis using r x full(2) by (intro that(3)) (auto simp: g_list_last_def split: if_splits)
    qed
  qed
qed

section \<open>What a reply contains\<close>

abbreviation reply_hdr :: "dhcp_packet \<Rightarrow> dhcp_packet" where
  "reply_hdr cp \<equiv> zero_packet\<lparr>pk_op := BOOTREPLY, htype := 1, hlen := 6, cookie := htonl DHCP_MAGIC,
     xid := xid cp, chaddr := chaddr cp, pk_flags := pk_flags cp, gateway_nip := gateway_nip cp, ciaddr := ciaddr cp\<rparr>"

lemma checked_codes:
  "check_option DHCP_SERVER_ID 4 \<noteq> OPTION_UNKNOWN" "check_option DHCP_LEASE_TIME 4 \<noteq> OPTION_UNKNOWN"
  "check_option G_DHCP_SUBNET 4 \<noteq> OPTION_UNKNOWN" "check_option G_DHCP_ROUTER 4 \<noteq> OPTION_UNKNOWN"
  "check_option G_DHCP_DNS_SERVER 4 \<noteq> OPTION_UNKNOWN"
  by code_simp+

lemma init_packet_repr:
  assumes "wf_packet cp" "type = DHCPOFFER \<or> type = DHCPACK \<or> type = DHCPNAK"
  obtains p where "init_packet s cp type = Some p" "hdr p = hdr (reply_hdr cp)"
    "opts_repr p [(DHCP_MESSAGE_TYPE, [type]), (DHCP_SERVER_ID, put_be32 (ntohl (server_nip s)))]"
proof -
  obtain p0 where p0: "dhcp_init_header type = Some p0" "opts_repr p0 [(DHCP_MESSAGE_TYPE, [type])]"
    "p0 = zero_packet\<lparr>pk_op := (if type = DHCPOFFER \<or> type = DHCPACK \<or> type = DHCPNAK then BOOTREPLY
      else BOOTREQUEST), htype := 1, hlen := 6, cookie := htonl DHCP_MAGIC, pk_options := pk_options p0\<rparr>"
    by (rule dhcp_init_header_repr)
  have h0: "hdr p0 = hdr (zero_packet\<lparr>pk_op := BOOTREPLY, htype := 1, hlen := 6, cookie := htonl DHCP_MAGIC\<rparr>)"
    using arg_cong [OF p0(3), of hdr] assms(2) by simp
  let ?p = "p0\<lparr>xid := xid cp, chaddr := chaddr cp, pk_flags := pk_flags cp,
      gateway_nip := gateway_nip cp, ciaddr := ciaddr cp\<rparr>"
  have wf0: "wf_packet p0" using p0(2) by (simp add: opts_repr_def)
  have "opts_repr ?p [(DHCP_MESSAGE_TYPE, [type])]"
    using wf0 assms(1) by (intro opts_repr_cong [OF p0(2)]) (simp_all add: wf_packet_def)
  then obtain p where p: "dhcp_add_option_uint32 ?p DHCP_SERVER_ID (ntohl (server_nip s)) = Some p"
    "opts_repr p ([(DHCP_MESSAGE_TYPE, [type])] @ [(DHCP_SERVER_ID, put_be32 (ntohl (server_nip s)))])" "hdr p = hdr ?p"
    using checked_codes(1) by (rule add_uint32_repr) simp_all
  have "hdr ?p = hdr (reply_hdr cp)" using h0 by (cases p0) (simp add: hdr_def zero_packet_def)
  then show thesis using p by (intro that [of p]) (simp_all add: init_packet_def p0(1))
qed

definition server_opts :: "(u8 \<rightharpoonup> string) \<Rightarrow> u8 list \<Rightarrow> dhcp_opt list" where
  "server_opts h cs =
     concat (map (\<lambda>c. if c \<in> {G_DHCP_SUBNET, G_DHCP_ROUTER, G_DHCP_DNS_SERVER}
       then (case Option.bind (h c) inet_aton of None \<Rightarrow> [] | Some nip \<Rightarrow> [(c, put_be32 (ntohl nip))]) else []) cs)"

lemma add_options_from_repr:
  assumes "opts_repr p os" "length (enc_opts (os @ server_opts h cs)) + 1 < DHCP_OPTIONS_BUFSIZE"
  obtains p' where "add_options_from h cs p = Some p'" "opts_repr p' (os @ server_opts h cs)" "hdr p' = hdr p"
  using assms
proof (induction cs arbitrary: p os thesis)
  case Nil
  then show ?case by (simp add: server_opts_def)
next
  case (Cons c cs)
  let ?x = "server_opts h [c]"
  have split: "server_opts h (c # cs) = ?x @ server_opts h cs" by (simp add: server_opts_def)
  obtain p1 where p1: "add_option c (h c) p = Some p1" "opts_repr p1 (os @ ?x)" "hdr p1 = hdr p"
  proof (cases "?x = []")
    case True
    then have "add_option c (h c) p = Some p"
      by (cases "h c") (auto simp: server_opts_def add_option_def split: option.splits if_splits)
    then show thesis using Cons.prems(2) that [of p] True by simp
  next
    case False
    then obtain v nip where v: "h c = Some v" "inet_aton v = Some nip" "?x = [(c, put_be32 (ntohl nip))]"
      "c = G_DHCP_SUBNET \<or> c = G_DHCP_ROUTER \<or> c = G_DHCP_DNS_SERVER"
      by (auto simp: server_opts_def split: if_splits option.splits bind_splits)
    have fit: "length (enc_opts os) + 7 < DHCP_OPTIONS_BUFSIZE"
      using Cons.prems(3) by (simp add: split v(3))
    have ne: "check_option c 4 \<noteq> OPTION_UNKNOWN" "c \<noteq> DHCP_PADDING" "c \<noteq> DHCP_END"
      using v(4) checked_codes by auto
    show thesis
      using add_uint32_repr [OF Cons.prems(2) ne fit, of "ntohl nip"] that v by (auto simp: add_option_def)
  qed
  obtain p' where "add_options_from h cs p1 = Some p'" "opts_repr p' ((os @ ?x) @ server_opts h cs)" "hdr p' = hdr p1"
    using Cons.IH [OF _ p1(2)] Cons.prems(3) by (auto simp: split)
  then show ?case using p1 by (intro Cons.prems(1) [of p']) (simp_all add: split)
qed

lemma server_opts_codes: "fst ` set (server_opts h cs) \<subseteq> {G_DHCP_SUBNET, G_DHCP_ROUTER, G_DHCP_DNS_SERVER} \<inter> set cs"
  by (auto simp: server_opts_def split: if_splits option.splits)

lemma map_fst_server_opts: "distinct cs \<Longrightarrow> distinct (map fst (server_opts h cs))"
proof (induction cs)
  case (Cons c cs)
  have "server_opts h (c # cs) = server_opts h [c] @ server_opts h cs" by (simp add: server_opts_def)
  moreover have "distinct (map fst (server_opts h [c]))" by (simp add: server_opts_def split: option.splits)
  moreover have "fst ` set (server_opts h [c]) \<inter> fst ` set (server_opts h cs) = {}"
    using Cons.prems server_opts_codes [of h "[c]"] server_opts_codes [of h cs] by fastforce
  ultimately show ?case using Cons by simp
qed (simp add: server_opts_def)

lemma length_enc_opts_const:
  "\<forall>x \<in> set xs. length (enc_opt x) = n \<Longrightarrow> length (enc_opts xs) = n * length xs"
  by (induction xs) (auto simp del: enc_opt.simps)

lemma length_server_opts:
  assumes "distinct cs"
  shows "length (enc_opts (server_opts h cs)) \<le> 18"
proof -
  have "length (map fst (server_opts h cs)) = card (fst ` set (server_opts h cs))"
    using distinct_card [OF map_fst_server_opts [OF assms]] by simp
  also have "\<dots> \<le> card {G_DHCP_SUBNET, G_DHCP_ROUTER, G_DHCP_DNS_SERVER}"
    using server_opts_codes [of h cs] by (intro card_mono) auto
  finally have "length (server_opts h cs) \<le> 3" by simp
  moreover have "\<forall>x \<in> set (server_opts h cs). length (enc_opt x) = 6"
    by (auto simp: server_opts_def split: if_splits option.splits)
  then have "length (enc_opts (server_opts h cs)) = 6 * length (server_opts h cs)"
    by (rule length_enc_opts_const)
  ultimately show ?thesis by simp
qed

definition env_ok :: "server_env \<Rightarrow> dhcp_server \<Rightarrow> bool" where
  "env_ok env s \<longleftrightarrow> env_fresh env s \<and> distinct (hash_order env)"

abbreviation basic_opts :: "dhcp_server \<Rightarrow> u8 \<Rightarrow> dhcp_opt list" where
  "basic_opts s type \<equiv> [(DHCP_MESSAGE_TYPE, [type]), (DHCP_SERVER_ID, put_be32 (ntohl (server_nip s)))]"

abbreviation lease_opts :: "dhcp_server \<Rightarrow> server_env \<Rightarrow> u8 \<Rightarrow> dhcp_opt list" where
  "lease_opts s env type \<equiv> basic_opts s type @ [(DHCP_LEASE_TIME, put_be32 (lease_seconds s))] @
     server_opts (option_hash s) (hash_order env)"

lemma wf_reply_hdr: "wf_packet cp \<Longrightarrow> wf_packet (reply_hdr cp)"
  by (simp add: wf_packet_def zero_packet_def)

lemma hdr_yiaddr: "hdr p = hdr q \<Longrightarrow> hdr (p\<lparr>yiaddr := y\<rparr>) = hdr (q\<lparr>yiaddr := y\<rparr>)"
  by (cases p; cases q) (simp add: hdr_def)

lemma enc_opts_append [simp]: "enc_opts (xs @ ys) = enc_opts xs @ enc_opts ys"
  by (simp add: enc_opts_def)

lemma server_opts_fit: "distinct cs \<Longrightarrow> 18 < n \<Longrightarrow> length (enc_opts (server_opts h cs)) < n"
  using length_server_opts [of cs h] by linarith

lemma build_lease_reply:
  assumes "wf_packet cp" "type = DHCPOFFER \<or> type = DHCPACK" "distinct (hash_order env)" "same_config s s'"
  obtains p1 p2 p3 where "init_packet s cp type = Some p1"
    "dhcp_add_option_uint32 (p1\<lparr>yiaddr := y\<rparr>) DHCP_LEASE_TIME (lease_seconds s) = Some p2"
    "add_server_options env s' p2 = Some p3" "opts_repr p3 (lease_opts s env type)"
    "hdr p3 = hdr (reply_hdr cp\<lparr>yiaddr := y\<rparr>)" "chaddr p1 = chaddr cp" "chaddr p3 = chaddr cp" "yiaddr p3 = y"
proof -
  obtain p1 where p1: "init_packet s cp type = Some p1" "hdr p1 = hdr (reply_hdr cp)" "opts_repr p1 (basic_opts s type)"
    using assms(1,2) by (elim init_packet_repr [of cp type s]) auto
  have "opts_repr (p1\<lparr>yiaddr := y\<rparr>) (basic_opts s type)"
    using p1(3) by (auto intro: opts_repr_cong simp: opts_repr_def wf_packet_def)
  then obtain p2 where p2: "dhcp_add_option_uint32 (p1\<lparr>yiaddr := y\<rparr>) DHCP_LEASE_TIME (lease_seconds s) = Some p2"
    "opts_repr p2 (basic_opts s type @ [(DHCP_LEASE_TIME, put_be32 (lease_seconds s))])" "hdr p2 = hdr (p1\<lparr>yiaddr := y\<rparr>)"
    using checked_codes(2) by (rule add_uint32_repr) simp_all
  obtain p3 where p3: "add_options_from (option_hash s) (hash_order env) p2 = Some p3"
    "opts_repr p3 ((basic_opts s type @ [(DHCP_LEASE_TIME, put_be32 (lease_seconds s))]) @ server_opts (option_hash s) (hash_order env))"
    "hdr p3 = hdr p2"
    using p2(2) by (rule add_options_from_repr) (use assms(3) in \<open>auto intro!: server_opts_fit\<close>)
  have h: "hdr p3 = hdr (reply_hdr cp\<lparr>yiaddr := y\<rparr>)"
    using p3(3) p2(3) hdr_yiaddr [OF p1(2), of y] by simp
  show thesis
    using that [OF p1(1) p2(1) _ _ h] p3(1,2) hdr_fields(5,7) [OF h] hdr_fields(7) [OF p1(2)]
    by (simp add: add_server_options_def same_configD(5) [OF assms(4)])
qed

lemma build_inform_reply:
  assumes "wf_packet cp" "distinct (hash_order env)"
  obtains p1 p3 where "init_packet s cp DHCPACK = Some p1" "add_server_options env s p1 = Some p3"
    "opts_repr p3 (basic_opts s DHCPACK @ server_opts (option_hash s) (hash_order env))" "hdr p3 = hdr (reply_hdr cp)"
proof -
  obtain p1 where p1: "init_packet s cp DHCPACK = Some p1" "hdr p1 = hdr (reply_hdr cp)" "opts_repr p1 (basic_opts s DHCPACK)"
    using assms(1) by (elim init_packet_repr [of cp DHCPACK s]) auto
  obtain p3 where p3: "add_options_from (option_hash s) (hash_order env) p1 = Some p3"
    "opts_repr p3 (basic_opts s DHCPACK @ server_opts (option_hash s) (hash_order env))" "hdr p3 = hdr p1"
    using p1(3) by (rule add_options_from_repr) (use assms(2) in \<open>auto intro!: server_opts_fit\<close>)
  then show thesis using p1 by (intro that [of p1 p3]) (simp_all add: add_server_options_def)
qed

section \<open>What one packet does to the table\<close>

text \<open>
  \<open>step_ok now mac s s'\<close>: the table stays well formed and the configuration is untouched; leases of
  other clients that have not expired are kept; only the client's own lease is new; and
  a new address lies in the configured range. \<open>reply_ok\<close>: everything sent is a frame with
  a well-formed reply that carries the server's identifier, repeats the client's header fields, and
  names an address only if it is leased to that client in the new table.
\<close>

definition step_ok :: "int \<Rightarrow> u8 list \<Rightarrow> dhcp_server \<Rightarrow> dhcp_server \<Rightarrow> bool" where
  "step_ok now mac s s' \<longleftrightarrow> lease_inv s' \<and> same_config s s' \<and>
     (\<forall>y \<in> leases s. lease_mac y \<noteq> mac \<longrightarrow> now \<le> expire y \<longrightarrow> y \<in> leases s') \<and>
     (\<forall>y \<in> leases s'. y \<in> leases s \<or>
        lease_mac y = mac \<and> (addr_ok s (lease_nip y) \<or> lease_nip y \<in> lease_nip ` leases s))"

definition reply_ok :: "dhcp_server \<Rightarrow> dhcp_server \<Rightarrow> dhcp_packet \<Rightarrow> srv_action list \<Rightarrow> bool" where
  "reply_ok s s' cp acts \<longleftrightarrow>
     (\<forall>frame dst ifi. Sent frame dst ifi \<in> set acts \<longrightarrow>
        (\<exists>p os d. frame = raw_frame p (server_nip s) SERVER_PORT d CLIENT_PORT \<and> opts_repr p os \<and>
           map_of os DHCP_SERVER_ID = Some (put_be32 (ntohl (server_nip s))) \<and>
           hdr p = hdr (reply_hdr cp\<lparr>yiaddr := yiaddr p\<rparr>) \<and>
           (yiaddr p \<noteq> 0 \<longrightarrow>
              (\<exists>x \<in> leases s'. lease_mac x = take ETH_ALEN (chaddr cp) \<and> lease_nip x = ntohl (yiaddr p)))))"

lemma reply_ok_Nil [simp]: "reply_ok s s' cp []"
  by (simp add: reply_ok_def)

lemma step_ok_refl [simp]: "lease_inv s \<Longrightarrow> step_ok now mac s s"
  by (simp add: step_ok_def)

lemma sent_frame:
  "Sent frame dst ifi \<in> set (sent (dhcp_send_raw_packet io p a sp d dp mac i False)) \<Longrightarrow> frame = raw_frame p a sp d dp"
  by (auto simp: sent_def dhcp_send_raw_packet_def Let_def split: sum.splits)

lemma send_to_client_frame:
  "Sent frame dst ifi \<in> set (send_packet_to_client env s p) \<Longrightarrow>
     \<exists>d. frame = raw_frame p (server_nip s) SERVER_PORT d CLIENT_PORT"
  by (auto simp: send_packet_to_client_def dest: sent_frame split: if_splits)

lemma reply_okI:
  assumes "\<And>frame dst ifi. Sent frame dst ifi \<in> set acts \<Longrightarrow> \<exists>d. frame = raw_frame p (server_nip s) SERVER_PORT d CLIENT_PORT"
    "opts_repr p os" "map_of os DHCP_SERVER_ID = Some (put_be32 (ntohl (server_nip s)))"
    "hdr p = hdr (reply_hdr cp\<lparr>yiaddr := y\<rparr>)"
    "y \<noteq> 0 \<Longrightarrow> \<exists>x \<in> leases s'. lease_mac x = take ETH_ALEN (chaddr cp) \<and> lease_nip x = ntohl y"
  shows "reply_ok s s' cp acts"
proof -
  have y: "yiaddr p = y" using hdr_fields(5) [OF assms(4)] by simp
  then have "hdr p = hdr (reply_hdr cp\<lparr>yiaddr := yiaddr p\<rparr>)" using assms(4) by simp
  then show ?thesis using assms(1-3,5) y unfolding reply_ok_def by metis
qed

lemma add_lease_step_ok:
  assumes "lease_inv s" "env_fresh env s" "length (chaddr cp) = 16" "add_lease env s exp (chaddr cp) yi = Some (s', r)"
    "\<forall>y \<in> leases s. lease_nip y = ntohl yi \<longrightarrow> lease_mac y = take ETH_ALEN (chaddr cp) \<or> expire y < now"
  shows "step_ok now (take ETH_ALEN (chaddr cp)) s s'"
    "r \<noteq> None \<Longrightarrow> \<exists>x \<in> leases s'. lease_mac x = take ETH_ALEN (chaddr cp) \<and> lease_nip x = ntohl yi"
proof -
  have len: "ETH_ALEN \<le> length (chaddr cp)" using assms(3) by simp
  from assms(1,2) len have "step_ok now (take ETH_ALEN (chaddr cp)) s s' \<and>
      (r \<noteq> None \<longrightarrow> (\<exists>x \<in> leases s'. lease_mac x = take ETH_ALEN (chaddr cp) \<and> lease_nip x = ntohl yi))"
  proof (cases rule: add_lease_cases [where exp = exp and yi = yi])
    case (ok s1 l)
    then have s1: "s1 = s'" using assms(4) by simp
    have x: "lease_mac (new_lease_of env s exp (chaddr cp) (ntohl yi)) = take ETH_ALEN (chaddr cp)"
      "lease_nip (new_lease_of env s exp (chaddr cp) (ntohl yi)) = ntohl yi" by (simp_all add: new_lease_of_def)
    show ?thesis
      using ok(2,4,5,6) assms(5) x unfolding step_ok_def s1 by fastforce
  next
    case refused
    then show ?thesis using assms(1,4) by simp
  qed
  then show "step_ok now (take ETH_ALEN (chaddr cp)) s s'"
    "r \<noteq> None \<Longrightarrow> \<exists>x \<in> leases s'. lease_mac x = take ETH_ALEN (chaddr cp) \<and> lease_nip x = ntohl yi" by blast+
qed

abbreviation clock :: "server_env \<Rightarrow> int" where
  "clock env \<equiv> max (now1 env) (now2 env)"

abbreviation offer_choice :: "server_env \<Rightarrow> dhcp_server \<Rightarrow> u8 list \<Rightarrow> nat option \<Rightarrow> u32 \<Rightarrow> u32 option" where
  "offer_choice env s mac lease req \<equiv>
     (case lease of
        Some l \<Rightarrow> map_option lease_nip (lease_heap s l)
      | None \<Rightarrow>
        do {
          ok \<leftarrow> check_requested_nip (now1 env) s req;
          if ok then Some req else find_free_or_expired_nip (now2 env) s mac
        })"

lemma check_requested_nip_True:
  assumes "lease_inv s" "check_requested_nip now s req = Some True"
  shows "addr_ok s req \<and> (\<forall>y \<in> leases s. lease_nip y = req \<longrightarrow> expire y < now)"
proof (cases "nip_lease_hash s req")
  case None
  then show ?thesis
    using assms hash_none [OF assms(1) None]
    by (auto simp: check_requested_nip_def find_lease_by_nip_def not_less split: if_splits)
next
  case (Some l)
  then obtain x where x: "lease_heap s l = Some x" "lease_nip x = req" using lease_invD(3) [OF assms(1)] by auto
  then show ?thesis
    using assms Some leases_unique(2) [OF assms(1) x(1)]
    by (auto simp: check_requested_nip_def find_lease_by_nip_def is_expired_lease_def not_less split: if_splits)
qed

lemma check_requested_nip_total:
  "lease_inv s \<Longrightarrow> \<exists>b. check_requested_nip now s req = Some b"
  using lease_invD(3) [of s req] by (fastforce simp: check_requested_nip_def find_lease_by_nip_def split: option.splits)

lemma offer_choice_ok:
  assumes inv: "lease_inv s" and range: "end_ip s < 0xffffffff"
    and lease: "find_lease_by_mac s mac = Some lease"
  obtains nip where "offer_choice env s mac lease req = Some nip"
    "\<forall>y \<in> leases s. nip \<noteq> 0 \<longrightarrow> lease_nip y = nip \<longrightarrow> lease_mac y = take ETH_ALEN mac \<or> expire y < clock env"
  using inv
proof (cases rule: find_lease_by_mac_cases [where mac = mac])
  case (found l x)
  then show thesis
    using lease leases_unique(2) [OF inv found(2)] by (intro that [of "lease_nip x"]) auto
next
  case none
  then have l: "lease = None" using lease by simp
  obtain b where b: "check_requested_nip (now1 env) s req = Some b" using check_requested_nip_total [OF inv] by blast
  show thesis
  proof (cases b)
    case True
    then show thesis
      using check_requested_nip_True [OF inv] b by (intro that [of req]) (auto simp: l less_max_iff_disj)
  next
    case False
    from inv range show thesis
    proof (cases rule: find_free_or_expired_nip_result [where now = "now2 env" and mac = mac])
      case (free nip)
      then show thesis using hash_none [OF inv] b False by (intro that [of nip]) (auto simp: l)
    next
      case (expired k x)
      then show thesis
        using leases_unique(2) [OF inv expired(2)] b False
        by (intro that [of "lease_nip x"]) (auto simp: l less_max_iff_disj)
    next
      case none
      then show thesis using b False by (intro that [of 0]) (auto simp: l)
    qed
  qed
qed

lemma send_offer_ok:
  assumes inv: "lease_inv s" and env: "env_ok env s" and wf: "wf_packet cp" and range: "end_ip s < 0xffffffff"
    and lease: "find_lease_by_mac s (chaddr cp) = Some lease"
  obtains s' acts where "send_offer env s cp lease req = Some (s', acts)"
    "step_ok (clock env) (take ETH_ALEN (chaddr cp)) s s'" "reply_ok s s' cp acts"
proof -
  obtain nip where nip: "offer_choice env s (chaddr cp) lease req = Some nip"
    "\<forall>y \<in> leases s. nip \<noteq> 0 \<longrightarrow> lease_nip y = nip \<longrightarrow> lease_mac y = take ETH_ALEN (chaddr cp) \<or> expire y < clock env"
    using inv range lease by (rule offer_choice_ok)
  have fr: "env_fresh env s" and dist: "distinct (hash_order env)" using env by (auto simp: env_ok_def)
  have ch: "length (chaddr cp) = 16" using wf by (simp add: wf_packet_def)
  obtain r where r: "add_lease_value env s OFFER_TIME (chaddr cp) (htonl nip) = Some r"
    using lt.add_total [OF inv fr ch] by blast
  then obtain s' l where add: "add_lease env s OFFER_TIME (chaddr cp) (htonl nip) = Some (s', l)"
    by (auto simp: add_lease_value_def)
  have cfg: "same_config s s'" if "nip \<noteq> 0"
    using add_lease_step_ok(1) [OF inv fr ch add, of "clock env"] nip(2) that by (simp add: step_ok_def)
  show thesis
  proof (cases "nip = 0 \<or> l = None")
    case True
    obtain p1 where p1: "init_packet s cp DHCPOFFER = Some p1" "hdr p1 = hdr (reply_hdr cp)"
      using wf by (elim init_packet_repr [of cp DHCPOFFER s]) auto
    have "chaddr p1 = chaddr cp" using hdr_fields(7) [OF p1(2)] by simp
    moreover have "s' = s" if "l = None"
      using lt.add_None [OF inv fr ch, of OFFER_TIME "htonl nip" s'] add that by (simp add: add_lease_value_def)
    ultimately show thesis
      using True p1(1) nip(1) add inv by (intro that [of s "[]"]) (auto simp: send_offer_def Let_def)
  next
    case False
    then obtain l' where l': "l = Some l'" by blast
    obtain p1 p2 p3 where p: "init_packet s cp DHCPOFFER = Some p1"
      "dhcp_add_option_uint32 (p1\<lparr>yiaddr := htonl nip\<rparr>) DHCP_LEASE_TIME (lease_seconds s) = Some p2"
      "add_server_options env s' p2 = Some p3" "opts_repr p3 (lease_opts s env DHCPOFFER)"
      "hdr p3 = hdr (reply_hdr cp\<lparr>yiaddr := htonl nip\<rparr>)" "chaddr p1 = chaddr cp" "chaddr p3 = chaddr cp" "yiaddr p3 = htonl nip"
      using wf dist cfg False by (elim build_lease_reply [of cp DHCPOFFER env s s']) auto
    have st: "step_ok (clock env) (take ETH_ALEN (chaddr cp)) s s'"
      "\<exists>x \<in> leases s'. lease_mac x = take ETH_ALEN (chaddr cp) \<and> lease_nip x = ntohl (htonl nip)"
      using add_lease_step_ok [OF inv fr ch add, of "clock env"] nip(2) False by auto
    have "reply_ok s s' cp (send_packet_to_client env s' p3)"
      using p(4,5) st by (intro reply_okI [where p = p3])
        (auto dest!: send_to_client_frame simp: step_ok_def same_configD)
    then show thesis
      using False p(1-3,6) nip(1) add l' st(1) same_configD(4) [OF cfg]
      by (intro that [of s' "send_packet_to_client env s' p3"]) (auto simp: send_offer_def Let_def)
  qed
qed

lemma send_ACK_ok:
  assumes inv: "lease_inv s" and env: "env_ok env s" and wf: "wf_packet cp"
    and x: "x \<in> leases s" "lease_mac x = take ETH_ALEN (chaddr cp)"
  obtains s' acts where "send_ACK env s cp (lease_nip x) = Some (s', acts)"
    "step_ok (clock env) (take ETH_ALEN (chaddr cp)) s s'" "reply_ok s s' cp acts"
proof -
  let ?y = "htonl (lease_nip x)"
  have fr: "env_fresh env s" and dist: "distinct (hash_order env)" using env by (auto simp: env_ok_def)
  have ch: "length (chaddr cp) = 16" using wf by (simp add: wf_packet_def)
  obtain r where r: "add_lease_value env s 0 (chaddr cp) ?y = Some r"
    using lt.add_total [OF inv fr ch] by blast
  then obtain s' l where add: "add_lease env s 0 (chaddr cp) ?y = Some (s', l)"
    by (auto simp: add_lease_value_def)
  have own: "\<forall>y \<in> leases s. lease_nip y = ntohl ?y \<longrightarrow> lease_mac y = take ETH_ALEN (chaddr cp) \<or> expire y < clock env"
    using lt.inv_nip [OF inv _ x(1)] x(2) by auto
  note st = add_lease_step_ok [OF inv fr ch add own]
  have ex: "\<exists>z \<in> leases s'. lease_mac z = take ETH_ALEN (chaddr cp) \<and> lease_nip z = ntohl ?y"
  proof (cases l)
    case None
    then have "s' = s" using lt.add_None [OF inv fr ch, of 0 ?y s'] add by (simp add: add_lease_value_def)
    then show ?thesis using x by auto
  qed (use st(2) in simp)
  obtain p1 p2 p3 where p: "init_packet s cp DHCPACK = Some p1"
    "dhcp_add_option_uint32 (p1\<lparr>yiaddr := ?y\<rparr>) DHCP_LEASE_TIME (lease_seconds s) = Some p2"
    "add_server_options env s p2 = Some p3" "opts_repr p3 (lease_opts s env DHCPACK)"
    "hdr p3 = hdr (reply_hdr cp\<lparr>yiaddr := ?y\<rparr>)" "chaddr p1 = chaddr cp" "chaddr p3 = chaddr cp" "yiaddr p3 = ?y"
    using wf dist by (elim build_lease_reply [of cp DHCPACK env s s]) auto
  let ?acts = "send_packet_to_client env s p3 @ (if lease_added_cb s' then [Lease_added (chaddr p3) (yiaddr p3)] else [])"
  have "reply_ok s s' cp ?acts"
    using p(4,5) ex by (intro reply_okI [where p = p3]) (auto dest!: send_to_client_frame split: if_splits)
  then show thesis
    using p add st(1) by (intro that [of s' ?acts]) (simp_all add: send_ACK_def)
qed

lemma send_NAK_ok:
  assumes "wf_packet cp"
  obtains acts where "send_NAK env s cp = Some acts" "reply_ok s s cp acts"
proof -
  obtain p where p: "init_packet s cp DHCPNAK = Some p" "hdr p = hdr (reply_hdr cp)" "opts_repr p (basic_opts s DHCPNAK)"
    using assms by (elim init_packet_repr [of cp DHCPNAK s]) auto
  have "hdr p = hdr (reply_hdr cp\<lparr>yiaddr := 0\<rparr>)" using p(2) by (simp add: hdr_def zero_packet_def)
  then have "reply_ok s s cp (sent (dhcp_send_raw_packet (net_io env) p (server_nip s) SERVER_PORT INADDR_BROADCAST
      CLIENT_PORT MAC_BCAST_ADDR (srv_ifindex s) False))"
    using p(3) by (intro reply_okI [where p = p and os = "basic_opts s DHCPNAK"]) (auto dest!: sent_frame)
  then show thesis using that p(1) by (simp add: send_NAK_def)
qed

lemma send_inform_ok:
  assumes "wf_packet cp" "distinct (hash_order env)"
  obtains acts where "send_inform env s cp = Some acts" "reply_ok s s cp acts"
proof -
  obtain p1 p3 where p: "init_packet s cp DHCPACK = Some p1" "add_server_options env s p1 = Some p3"
    "opts_repr p3 (basic_opts s DHCPACK @ server_opts (option_hash s) (hash_order env))" "hdr p3 = hdr (reply_hdr cp)"
    using assms by (rule build_inform_reply)
  have "hdr p3 = hdr (reply_hdr cp\<lparr>yiaddr := 0\<rparr>)" using p(4) by (simp add: hdr_def zero_packet_def)
  then have "reply_ok s s cp (send_packet_to_client env s p3)"
    using p(3) by (intro reply_okI [where p = p3]) (auto dest!: send_to_client_frame)
  then show thesis using that p(1,2) by (simp add: send_inform_def)
qed

lemma found_lease:
  assumes "lease_inv s" "find_lease_by_mac s mac = Some (Some l)"
  obtains x where "lease_heap s l = Some x" "x \<in> leases s" "lease_mac x = take ETH_ALEN mac"
  using assms(1)
proof (cases rule: find_lease_by_mac_cases [where mac = mac])
  case (found k z)
  then show thesis using assms leases_in_heap that by auto
qed (use assms in simp)

lemma handle_request_ok:
  assumes inv: "lease_inv s" and env: "env_ok env s" and wf: "wf_packet cp"
    and lease: "find_lease_by_mac s (chaddr cp) = Some lease"
  obtains s' acts where "handle_request env s cp lease sid req = Some (s', acts)"
    "step_ok (clock env) (take ETH_ALEN (chaddr cp)) s s'" "reply_ok s s' cp acts"
proof -
  define rq where "rq = (if req = 0 then ciaddr cp else req)"
  note hr = handle_request_def [of env s cp _ sid req, folded rq_def, unfolded Let_def]
  obtain nak where nak: "send_NAK env s cp = Some nak" "reply_ok s s cp nak" using wf by (rule send_NAK_ok)
  show thesis
  proof (cases lease)
    case None
    then show thesis
      using inv nak by (intro that [of s "if rq = 0 then [] else nak"]) (simp_all add: hr)
  next
    case (Some l)
    then obtain x where x: "lease_heap s l = Some x" "x \<in> leases s" "lease_mac x = take ETH_ALEN (chaddr cp)"
      using found_lease [OF inv] lease by metis
    obtain s' acts where ack: "send_ACK env s cp (lease_nip x) = Some (s', acts)"
      "step_ok (clock env) (take ETH_ALEN (chaddr cp)) s s'" "reply_ok s s' cp acts"
      using inv env wf x(2,3) by (rule send_ACK_ok)
    show thesis
    proof (cases "rq \<noteq> 0 \<and> rq = lease_nip x")
      case True
      then show thesis
        using ack Some x(1) by (intro that [of s' acts]) (auto simp: hr)
    next
      case False
      then show thesis
        using inv nak Some x(1)
        by (intro that [of s "if rq \<noteq> 0 \<and> sid then nak else []"]) (auto simp: hr)
    qed
  qed
qed

lemma handle_decline_ok:
  assumes inv: "lease_inv s" and lease: "find_lease_by_mac s mac = Some lease"
  obtains s' where "handle_decline s lease sid req = Some s'" "step_ok now (take ETH_ALEN mac) s s'"
proof (cases lease)
  case None
  then show thesis using that [of s] inv by (simp add: handle_decline_def split: option.splits)
next
  case (Some l)
  then obtain x where x: "lease_heap s l = Some x" "x \<in> leases s" "lease_mac x = take ETH_ALEN mac"
    using found_lease [OF inv] lease by metis
  obtain s' where s': "remove_lease s l = Some s'" "lease_inv s'" "leases s' = leases s - {x}"
    "s' = s\<lparr>lease_list := lease_list s', nip_lease_hash := nip_lease_hash s', lease_heap := lease_heap s'\<rparr>"
    using remove_lease_ok [OF inv x(1)] by metis
  have st: "step_ok now (take ETH_ALEN mac) s s'"
    using s'(2,3) x(3) s'(4) [folded same_config_def] by (auto simp: step_ok_def)
  show thesis
  proof (cases "sid \<and> req = Some (lease_nip x)")
    case True
    then show thesis using that [of s'] st s'(1) Some x(1) by (simp add: handle_decline_def)
  next
    case False
    then show thesis using that [of s] inv Some x(1) by (auto simp: handle_decline_def split: option.splits)
  qed
qed

lemma handle_release_ok:
  assumes inv: "lease_inv s" and lease: "find_lease_by_mac s mac = Some lease"
  obtains s' where "handle_release env s cp lease sid = Some s'" "step_ok now (take ETH_ALEN mac) s s'"
proof (cases lease)
  case None
  then show thesis using that [of s] inv by (simp add: handle_release_def)
next
  case (Some l)
  then obtain x where x: "lease_heap s l = Some x" "x \<in> leases s" "lease_mac x = take ETH_ALEN mac"
    using found_lease [OF inv] lease by metis
  obtain s' where s': "lease_set_expire s l (of_int (now1 env)) = Some s'" "lease_inv s'"
    "leases s' = insert (x\<lparr>expire := uint (of_int (now1 env) :: u32)\<rparr>) (leases s - {x})" "same_config s s'"
    using inv x(1) by (rule lease_set_expire_ok)
  have st: "step_ok now (take ETH_ALEN mac) s s'"
    using s'(2-4) x(2,3) by (auto simp: step_ok_def)
  show thesis
  proof (cases "sid \<and> ciaddr cp = lease_nip x")
    case True
    then show thesis using that [of s'] st s'(1) Some x(1) by (simp add: handle_release_def)
  next
    case False
    then show thesis using that [of s] inv Some x(1) by (auto simp: handle_release_def)
  qed
qed

lemma dispatch_ok:
  assumes inv: "lease_inv s" and env: "env_ok env s" and wf: "wf_packet cp" and range: "end_ip s < 0xffffffff"
    and lease: "find_lease_by_mac s (chaddr cp) = Some lease"
  obtains s' acts where "dispatch env s cp type sid req lease = Some (s', acts)"
    "step_ok (clock env) (take ETH_ALEN (chaddr cp)) s s'" "reply_ok s s' cp acts"
proof -
  define rq where "rq = (case req of None \<Rightarrow> 0 | Some n \<Rightarrow> n)"
  note d = dispatch_def [of env s cp _ sid req lease, folded rq_def, unfolded Let_def]
  obtain inf where inf: "send_inform env s cp = Some inf" "reply_ok s s cp inf"
    using wf env by (auto simp: env_ok_def elim: send_inform_ok)
  consider "type = DHCPDISCOVER" | "type = DHCPREQUEST" | "type = DHCPDECLINE" | "type = DHCPRELEASE"
    | "type = DHCPINFORM" | "type \<notin> {DHCPDISCOVER, DHCPREQUEST, DHCPDECLINE, DHCPRELEASE, DHCPINFORM}" by blast
  then show thesis
  proof cases
    case 1
    obtain s' acts where "send_offer env s cp lease rq = Some (s', acts)"
      "step_ok (clock env) (take ETH_ALEN (chaddr cp)) s s'" "reply_ok s s' cp acts"
      by (rule send_offer_ok [OF inv env wf range lease])
    with 1 show thesis by (intro that [of s' acts]) (simp_all add: d)
  next
    case 2
    obtain s' acts where "handle_request env s cp lease sid rq = Some (s', acts)"
      "step_ok (clock env) (take ETH_ALEN (chaddr cp)) s s'" "reply_ok s s' cp acts"
      by (rule handle_request_ok [OF inv env wf lease])
    with 2 show thesis by (intro that [of s' acts]) (simp_all add: d)
  next
    case 3
    obtain s' where "handle_decline s lease sid req = Some s'" "step_ok (clock env) (take ETH_ALEN (chaddr cp)) s s'"
      by (rule handle_decline_ok [OF inv lease])
    with 3 show thesis by (intro that [of s' "[]"]) (simp_all add: d)
  next
    case 4
    obtain s' where "handle_release env s cp lease sid = Some s'" "step_ok (clock env) (take ETH_ALEN (chaddr cp)) s s'"
      by (rule handle_release_ok [OF inv lease])
    with 4 show thesis by (intro that [of s' "[]"]) (simp_all add: d)
  next
    case 5
    with inf inv show thesis by (intro that [of s inf]) (simp_all add: d)
  next
    case 6
    with inv show thesis by (intro that [of s "[]"]) (simp_all add: d)
  qed
qed

section \<open>Datagrams the handler reads without fault\<close>

text \<open>
  \<open>benign bs\<close>: at most 622 bytes, and no byte of the \<^verbatim>\<open>sname\<close> and \<^verbatim>\<open>file\<close> fields is the code of the
  overload option.
\<close>

definition benign :: "u8 list \<Rightarrow> bool" where
  "benign bs \<longleftrightarrow> length bs \<le> 622 \<and> DHCP_OPTION_OVERLOAD \<notin> set (take 192 (drop SNAME_OFF bs))"

lemma benign_option:
  assumes "benign bs" "dhcp_recv_l3_packet (Inr bs) = (n, p)" "code \<noteq> 0"
  obtains (absent) "dhcp_get_option p (uint code) = Some Opt_NULL"
  | (here) q where "dhcp_get_option p (uint code) = Some (Opt_at q)" "q + 4 \<le> PACKET_SIZE"
proof -
  have len: "length bs \<le> 626" using assms(1) by (simp add: benign_def)
  have m: "dhcp_packet_bytes p = bs @ replicate (PACKET_SIZE - length bs) 0" by (rule recv_bytes_tail [OF len assms(2)])
  have wf: "wf_packet p" using wf_recv [of "Inr bs"] assms(2) by simp
  have nth: "DHCP_OPTION_OVERLOAD \<noteq> dhcp_packet_bytes p ! i" if "44 \<le> i" "i < 236" for i
  proof (cases "i < length bs")
    case True
    then have "bs ! i \<in> set (take 192 (drop SNAME_OFF bs))"
      using that by (auto simp: in_set_conv_nth intro!: exI [of _ "i - 44"])
    then show ?thesis using assms(1) True by (auto simp: benign_def m nth_append)
  next
    case False
    then show ?thesis using that by (simp add: m nth_append)
  qed
  have "DHCP_OPTION_OVERLOAD \<notin> set (pk_file p)"
    using dhcp_packet_bytes_file [OF wf] nth wf by (fastforce simp: in_set_conv_nth wf_packet_def)
  moreover have "DHCP_OPTION_OVERLOAD \<notin> set (sname p)"
    using dhcp_packet_bytes_sname [OF wf] nth wf by (fastforce simp: in_set_conv_nth wf_packet_def)
  ultimately obtain r where r: "dhcp_get_option p (uint code) = Some r"
    using dhcp_get_option_returns [OF wf] by blast
  have "opt_ptr_ok (dhcp_packet_bytes p) (uint code) r"
  proof (rule dhcp_get_option_loop_safe)
    show "dhcp_get_option_loop (dhcp_packet_bytes p) (uint code) 0 OPTIONS_OFF (int OPTIONS_SIZE) = Some r"
      using r by (simp add: dhcp_get_option_def)
  qed (use wf len in \<open>simp_all add: m nth_append walk_inv_def\<close>)
  then show thesis
  proof (cases r)
    case (Opt_at q)
    then have q: "2 \<le> q" "q + unat (dhcp_packet_bytes p ! (q - 1)) \<le> PACKET_SIZE" "dhcp_packet_bytes p ! (q - 2) \<noteq> 0"
      using \<open>opt_ptr_ok _ _ r\<close> by (simp_all add: opt_ptr_ok_def)
    then have "q - 2 < length bs" by (cases "q - 2 < length bs") (auto simp: m nth_append)
    then show thesis using q(1) r Opt_at assms(1) by (intro here [of q]) (auto simp: benign_def)
  qed (use r absent in simp_all)
qed

lemma benign_read_option4:
  assumes "benign bs" "dhcp_recv_l3_packet (Inr bs) = (n, p)" "code \<noteq> 0"
    "\<And>m q. q + 4 \<le> length m \<Longrightarrow> get m q \<noteq> None"
  shows "\<exists>r. read_option4 get p code = Some r"
proof -
  have "wf_packet p" using wf_recv [of "Inr bs"] assms(2) by simp
  then have l: "length (dhcp_packet_bytes p) = PACKET_SIZE" by simp
  from assms(1-3) show ?thesis
  proof (cases rule: benign_option)
    case absent
    then show ?thesis by (simp add: read_option4_def)
  next
    case (here q)
    then show ?thesis using assms(4) [of q "dhcp_packet_bytes p"] l by (auto simp: read_option4_def)
  qed
qed

lemma get4_total: "q + 4 \<le> length m \<Longrightarrow> get_be32 m q \<noteq> None" "q + 4 \<le> length m \<Longrightarrow> get_unaligned32 m q \<noteq> None"
  by (auto simp: get_be32_def get_unaligned32_def bytes_at_def take4_drop)

lemma benign_check_packet_type:
  assumes "benign bs" "dhcp_recv_l3_packet (Inr bs) = (n, p)"
  shows "\<exists>t. check_packet_type p = Some t"
proof -
  have "wf_packet p" using wf_recv [of "Inr bs"] assms(2) by simp
  then have l: "length (dhcp_packet_bytes p) = PACKET_SIZE" by simp
  have "DHCP_MESSAGE_TYPE \<noteq> 0" by simp
  with assms show ?thesis
    by (cases rule: benign_option) (auto simp: check_packet_type_def byte_at_def l)
qed

text \<open>The handler as a whole: what it does if it returns, and that it returns.\<close>

lemma listener_event_step:
  assumes inv: "lease_inv s" and env: "env_ok env s" and range: "end_ip s < 0xffffffff"
    and ev: "listener_event env s False rd = Some (ret, s', acts)"
  shows "ret \<and> step_ok (clock env) (take ETH_ALEN (chaddr (snd (dhcp_recv_l3_packet rd)))) s s' \<and>
     reply_ok s s' (snd (dhcp_recv_l3_packet rd)) acts"
proof -
  obtain n p where np: "dhcp_recv_l3_packet rd = (n, p)" by fastforce
  have wf: "wf_packet p" using wf_recv [of rd] np by simp
  consider "ret" "s' = s" "acts = []"
    | type sid req lease where "ret" "find_lease_by_mac s (chaddr p) = Some lease"
        "dispatch env s p type sid req lease = Some (s', acts)"
    using ev by (auto simp: listener_event_def np split: if_splits bind_splits)
  then show ?thesis
  proof cases
    case 1
    then show ?thesis using inv by simp
  next
    case (2 type sid req lease)
    obtain s1 acts1 where "dispatch env s p type sid req lease = Some (s1, acts1)"
      "step_ok (clock env) (take ETH_ALEN (chaddr p)) s s1" "reply_ok s s1 p acts1"
      by (rule dispatch_ok [OF inv env wf range 2(2)])
    with 2 show ?thesis by (simp add: np)
  qed
qed

lemma listener_event_returns:
  assumes inv: "lease_inv s" and env: "env_ok env s" and range: "end_ip s < 0xffffffff"
    and rd: "\<And>bs. rd = Inr bs \<Longrightarrow> benign bs"
  shows "\<exists>s' acts. listener_event env s bad rd = Some (\<not> bad, s', acts)"
proof (cases "bad \<or> fst (dhcp_recv_l3_packet rd) < 0")
  case True
  then show ?thesis by (auto simp: listener_event_def split: prod.splits)
next
  case False
  obtain n p where np: "dhcp_recv_l3_packet rd = (n, p)" by fastforce
  show ?thesis
  proof (cases rd)
    case (Inl e)
    then show ?thesis
      using False by (simp add: listener_event_def dhcp_recv_l3_packet_def check_packet_type_def zero_packet_def)
  next
    case (Inr bs)
    note b = rd [OF Inr] np [unfolded Inr]
    have wf: "wf_packet p" using wf_recv [of rd] np by simp
    obtain t where t: "check_packet_type p = Some t" using benign_check_packet_type [OF b] by blast
    obtain sid where sid: "read_option4 get_unaligned32 p DHCP_SERVER_ID = Some sid"
      using benign_read_option4 [OF b, of DHCP_SERVER_ID get_unaligned32] get4_total by auto
    obtain req where req: "read_option4 get_be32 p DHCP_REQUESTED_IP = Some req"
      using benign_read_option4 [OF b, of DHCP_REQUESTED_IP get_be32] get4_total by auto
    obtain lease where lease: "find_lease_by_mac s (chaddr p) = Some lease"
      using find_lease_by_mac_cases [OF inv] by metis
    obtain s1 acts1 where "dispatch env s p t (sid \<noteq> None) req lease = Some (s1, acts1)"
      by (rule dispatch_ok [OF inv env wf range lease])
    then show ?thesis using False by (simp add: listener_event_def np t sid req lease)
  qed
qed

section \<open>The list is sorted by expiry\<close>

text \<open>
  The comparison truncates the difference of two times to 32 bits, so the order is right as long
  as all times lie in \<open>{0..<2\<^sup>3\<^sup>1}\<close>. Under that condition the last element is the lease that
  expires first, which \<^verbatim>\<open>find_free_or_expired_nip\<close> relies on.
\<close>

definition expire_of :: "(nat \<rightharpoonup> dhcp_lease) \<Rightarrow> nat \<Rightarrow> int" where
  "expire_of h l = (case h l of None \<Rightarrow> 0 | Some x \<Rightarrow> expire x)"

definition time_ok :: "int \<Rightarrow> bool" where
  "time_ok t \<longleftrightarrow> 0 \<le> t \<and> t < 2 ^ 31"

definition list_sorted :: "(nat \<rightharpoonup> dhcp_lease) \<Rightarrow> nat list \<Rightarrow> bool" where
  "list_sorted h ls \<longleftrightarrow> sorted_wrt (\<lambda>a b. expire_of h b \<le> expire_of h a) ls \<and>
     (\<forall>l \<in> set ls. h l \<noteq> None \<and> time_ok (expire_of h l))"

abbreviation lease_sorted :: "dhcp_server \<Rightarrow> bool" where
  "lease_sorted s \<equiv> list_sorted (lease_heap s) (lease_list s)"

lemma compare_expire_iff:
  assumes "h a \<noteq> None" "h b \<noteq> None" "time_ok (expire_of h a)" "time_ok (expire_of h b)"
  shows "compare_expire h a b > 0 \<longleftrightarrow> expire_of h a < expire_of h b"
proof -
  have "signed_take_bit 31 (expire_of h b - expire_of h a) = expire_of h b - expire_of h a"
    using assms(3,4) by (intro signed_take_bit_int_eq_self) (auto simp: time_ok_def)
  then show ?thesis using assms(1,2) by (auto simp: compare_expire_def expire_of_def)
qed

lemma list_sorted_insert:
  assumes "list_sorted h ls" "h l \<noteq> None" "time_ok (expire_of h l)"
  shows "list_sorted h (g_list_insert_sorted (compare_expire h) l ls)"
  using assms sorted_wrt_insert_sorted [where key = "expire_of h" and cmp = "compare_expire h" and x = l and xs = ls]
  by (auto simp: list_sorted_def compare_expire_iff)

lemma list_sorted_Cons:
  "list_sorted h (l # ls) \<longleftrightarrow> h l \<noteq> None \<and> time_ok (expire_of h l) \<and>
     (\<forall>k \<in> set ls. expire_of h k \<le> expire_of h l) \<and> list_sorted h ls"
  by (auto simp: list_sorted_def)

lemma list_sorted_remove1: "list_sorted h ls \<Longrightarrow> list_sorted h (g_list_remove l ls)"
proof (induction ls)
  case (Cons k ls)
  then show ?case using set_remove1_subset [of l ls] by (auto simp: list_sorted_Cons)
qed simp

lemma list_sorted_cong:
  assumes "list_sorted h ls" "\<And>l. l \<in> set ls \<Longrightarrow> h' l = h l"
  shows "list_sorted h' ls"
  using assms by (induction ls) (auto simp: list_sorted_def expire_of_def)

lemma list_sorted_last:
  assumes "list_sorted h ls" "ls \<noteq> []" "l \<in> set ls"
  shows "expire_of h (last ls) \<le> expire_of h l"
  using assms by (induction ls) (auto simp: list_sorted_def)

lemma get_lease_list:
  assumes "lease_inv s" "env_fresh env s" "lease_sorted s" "get_lease env s yi mac = Some (s', Inr l)"
  shows "lease_sorted s'" "l \<notin> set (lease_list s')"
proof -
  note d = lease_invD [OF assms(1)]
  have fresh: "l \<notin> set (lease_list s)" if "try_new env = Some l" for l
    using assms(2) that d(2) by (auto simp: env_fresh_def)
  have *: "lease_list s' \<in> {g_list_remove l (lease_list s), lease_list s} \<union> {g_list_remove m (g_list_remove l (lease_list s)) | m. True} \<and>
      (\<forall>k \<in> set (lease_list s'). lease_heap s' k = lease_heap s k) \<and> l \<notin> set (lease_list s')"
    using assms(4) d(1) fresh
    by (auto simp: get_lease_def remove_lease_def Let_def split: if_splits bind_splits option.splits)
  then have "list_sorted (lease_heap s) (lease_list s')" using assms(3) by (auto intro!: list_sorted_remove1)
  then show "lease_sorted s'" "l \<notin> set (lease_list s')"
    using * by (auto intro: list_sorted_cong)
qed

lemma add_lease_sorted:
  assumes "lease_inv s" "env_fresh env s" "lease_sorted s" "add_lease env s exp mac yi = Some (s', r)"
    "time_ok (if exp = 0 then now1 env + uint (lease_seconds s) else uint exp)"
  shows "lease_sorted s'"
proof -
  obtain s1 q where g: "get_lease env s yi mac = Some (s1, q)" using assms(4) by (auto simp: add_lease_def split: bind_splits)
  show ?thesis
  proof (cases q)
    case (Inl e)
    then have "s1 = s"
      using g by (auto simp: get_lease_def Let_def split: if_splits bind_splits option.splits)
    then show ?thesis using assms(3,4) g Inl by (simp add: add_lease_def)
  next
    case (Inr l)
    note gl = get_lease_list [OF assms(1-3) g [unfolded Inr]]
    have sec: "lease_seconds s1 = lease_seconds s"
      using g by (auto simp: get_lease_def remove_lease_def Let_def split: if_splits bind_splits option.splits)
    define h where "h = (lease_heap s1)(l \<mapsto> new_lease_of env s exp mac (ntohl yi))"
    have "list_sorted h (lease_list s1)"
      using gl by (intro list_sorted_cong [OF gl(1)]) (auto simp: h_def)
    then have "list_sorted h (g_list_insert_sorted (compare_expire h) l (lease_list s1))"
      using assms(5) by (intro list_sorted_insert) (auto simp: h_def expire_of_def new_lease_of_def)
    then show ?thesis
      using assms(4) g Inr sec
      by (auto simp: add_lease_def Let_def h_def new_lease_of_def split: bind_splits if_splits)
  qed
qed

lemma remove_lease_sorted:
  assumes "lease_inv s" "lease_sorted s" "remove_lease s l = Some s'"
  shows "lease_sorted s'"
proof -
  have "lease_heap s' k = lease_heap s k" if "k \<in> set (g_list_remove l (lease_list s))" for k
    using assms(3) that lease_invD(1) [OF assms(1)] by (auto simp: remove_lease_def split: bind_splits)
  then have "list_sorted (lease_heap s') (g_list_remove l (lease_list s))"
    by (intro list_sorted_cong [OF list_sorted_remove1 [OF assms(2)]])
  then show ?thesis using assms(3) by (auto simp: remove_lease_def split: bind_splits)
qed

lemma lease_set_expire_sorted:
  assumes "lease_inv s" "lease_sorted s" "lease_set_expire s l exp = Some s'" "time_ok (uint exp)"
  shows "lease_sorted s'"
proof -
  obtain x where x: "lease_heap s l = Some x" using assms(3) by (auto simp: lease_set_expire_def split: bind_splits)
  define h where "h = (lease_heap s)(l \<mapsto> x\<lparr>expire := uint exp\<rparr>)"
  have "list_sorted h (g_list_remove l (lease_list s))"
    using lease_invD(1) [OF assms(1)]
    by (intro list_sorted_cong [OF list_sorted_remove1 [OF assms(2)]]) (auto simp: h_def)
  then have "list_sorted h (g_list_insert_sorted (compare_expire h) l (g_list_remove l (lease_list s)))"
    using assms(4) by (intro list_sorted_insert) (auto simp: h_def expire_of_def)
  then show ?thesis
    using assms(3) x by (auto simp: lease_set_expire_def Let_def h_def split: if_splits)
qed

text \<open>Every packet changes the table by at most one of the three table operations.\<close>

lemma dispatch_effect:
  assumes "dispatch env s p type sid req lease = Some (s', acts)"
  shows "s' = s \<or> (\<exists>exp mac yi r. add_lease env s exp mac yi = Some (s', r) \<and> (exp = 0 \<or> exp = OFFER_TIME)) \<or>
     (\<exists>l. remove_lease s l = Some s') \<or> (\<exists>l. lease_set_expire s l (of_int (now1 env)) = Some s')"
proof -
  have offer: "s' = s \<or> (\<exists>mac yi r. add_lease env s OFFER_TIME mac yi = Some (s', r))"
    if "send_offer env s p lease rq = Some (s', acts)" for rq
    using that by (auto simp: send_offer_def Let_def split: bind_splits if_splits option.splits)
  have ack: "\<exists>mac yi r. add_lease env s 0 mac yi = Some (s', r)" if "send_ACK env s p nip = Some (s', acts)" for nip
    using that by (auto simp: send_ACK_def Let_def split: bind_splits)
  have req: "s' = s \<or> (\<exists>mac yi r. add_lease env s 0 mac yi = Some (s', r))"
    if "handle_request env s p lease sid rq = Some (s', acts)" for rq
    using that ack by (auto simp: handle_request_def Let_def split: bind_splits if_splits)
  show ?thesis
    using assms offer req
    by (auto simp: dispatch_def Let_def handle_decline_def handle_release_def
        split: if_splits option.splits bind_splits) blast+
qed

lemma listener_event_sorted:
  assumes "lease_inv s" "env_ok env s" "lease_sorted s" "listener_event env s bad rd = Some (ret, s', acts)"
    "0 \<le> now1 env" "now1 env + uint (lease_seconds s) < 2 ^ 31"
  shows "lease_sorted s'"
proof -
  have fr: "env_fresh env s" using assms(2) by (simp add: env_ok_def)
  have sec: "0 \<le> uint (lease_seconds s)" by simp
  have now: "time_ok (now1 env + uint (lease_seconds s))" "time_ok (now1 env)"
    unfolding time_ok_def using assms(5,6) sec by linarith+
  then have "uint (of_int (now1 env) :: u32) = now1 env"
    by (simp add: time_ok_def uint_word_of_int_eq take_bit_int_eq_self)
  then have rel: "time_ok (uint (of_int (now1 env) :: u32))" using now by simp
  have off: "time_ok (uint OFFER_TIME)" by (simp add: time_ok_def)
  consider "lease_list s' = lease_list s" "lease_heap s' = lease_heap s"
    | p type sid req lease where "dispatch env s p type sid req lease = Some (s', acts)"
    using assms(4) by (auto simp: listener_event_def split: if_splits bind_splits prod.splits)
  then show ?thesis
  proof cases
    case 1
    then show ?thesis using assms(3) by simp
  next
    case (2 p type sid req lease)
    from dispatch_effect [OF 2] show ?thesis
    proof (elim disjE exE conjE)
      show "s' = s \<Longrightarrow> ?thesis" using assms(3) by simp
      show "remove_lease s l = Some s' \<Longrightarrow> ?thesis" for l by (rule remove_lease_sorted [OF assms(1,3)])
      show "lease_set_expire s l (of_int (now1 env)) = Some s' \<Longrightarrow> ?thesis" for l
        by (rule lease_set_expire_sorted [OF assms(1,3) _ rel])
    next
      fix exp mac yi r
      assume a: "add_lease env s exp mac yi = Some (s', r)"
      show "exp = 0 \<Longrightarrow> ?thesis" using now(1) by (intro add_lease_sorted [OF assms(1) fr assms(3) a]) simp
      show "exp = OFFER_TIME \<Longrightarrow> ?thesis" using off by (intro add_lease_sorted [OF assms(1) fr assms(3) a]) simp
    qed
  qed
qed

section \<open>Runs of the server\<close>

text \<open>
  Every state the server can be in: made by \<^verbatim>\<open>g_dhcp_server_new\<close>, then changed by packets and by the
  configuration calls in any order. Packets are handled while the range ends below
  255.255.255.255, with a clock that has not reached the year 2038.
\<close>

inductive server_reach :: "dhcp_server \<Rightarrow> bool" where
  new: "g_dhcp_server_new al io1 io2 io3 t i = Inr s \<Longrightarrow> server_reach s"
| event: "server_reach s \<Longrightarrow> env_ok env s \<Longrightarrow> end_ip s < 0xffffffff \<Longrightarrow> 0 \<le> now1 env \<Longrightarrow>
    now1 env + uint (lease_seconds s) < 2 ^ 31 \<Longrightarrow>
    listener_event env s bad rd = Some (ret, s', acts) \<Longrightarrow> server_reach s'"
| start: "server_reach s \<Longrightarrow> g_dhcp_server_start io ch w s = (r, s') \<Longrightarrow> server_reach s'"
| stop: "server_reach s \<Longrightarrow> g_dhcp_server_stop s = Some (s', acts) \<Longrightarrow> server_reach s'"
| set_option: "server_reach s \<Longrightarrow> g_dhcp_server_set_option s c v = (r, s') \<Longrightarrow> server_reach s'"
| set_ip_range: "server_reach s \<Longrightarrow> g_dhcp_server_set_ip_range s a b = (r, s') \<Longrightarrow> server_reach s'"
| set_lease_time: "server_reach s \<Longrightarrow> server_reach (g_dhcp_server_set_lease_time s t)"
| set_save_lease: "server_reach s \<Longrightarrow> server_reach (g_dhcp_server_set_save_lease s f)"
| set_lease_added_cb: "server_reach s \<Longrightarrow> server_reach (g_dhcp_server_set_lease_added_cb s f)"
| ref: "server_reach s \<Longrightarrow> server_reach (g_dhcp_server_ref s)"
| unref: "server_reach s \<Longrightarrow> g_dhcp_server_unref s = Some (Some s', acts) \<Longrightarrow> server_reach s'"

text \<open>What the configuration calls leave alone.\<close>

definition same_table :: "dhcp_server \<Rightarrow> dhcp_server \<Rightarrow> bool" where
  "same_table s s' \<longleftrightarrow> lease_list s' = lease_list s \<and> nip_lease_hash s' = nip_lease_hash s \<and> lease_heap s' = lease_heap s"

definition opts_ok :: "dhcp_server \<Rightarrow> bool" where
  "opts_ok s \<longleftrightarrow> (\<forall>c v. option_hash s c = Some v \<longrightarrow>
     c \<in> {G_DHCP_SUBNET, G_DHCP_ROUTER, G_DHCP_DNS_SERVER} \<and> inet_aton v \<noteq> None)"

lemma same_table_inv: "same_table s s' \<Longrightarrow> lease_inv s' \<longleftrightarrow> lease_inv s"
  by (simp add: same_table_def lease_inv_def)

lemma config_same_table:
  "g_dhcp_server_start io ch w s = (r, s') \<Longrightarrow> same_table s s' \<and> option_hash s' = option_hash s"
  "g_dhcp_server_stop s = Some (s', acts) \<Longrightarrow> same_table s s' \<and> option_hash s' = option_hash s"
  "g_dhcp_server_set_ip_range s a b = (r, s') \<Longrightarrow> same_table s s' \<and> option_hash s' = option_hash s"
  "g_dhcp_server_unref s = Some (Some s', acts) \<Longrightarrow> same_table s s' \<and> option_hash s' = option_hash s"
  by (auto simp: g_dhcp_server_start_def g_dhcp_server_stop_def g_dhcp_server_set_ip_range_def Let_def
      g_dhcp_server_unref_def same_table_def split: if_splits option.splits bind_splits)

lemma opts_ok_upd:
  "opts_ok s \<Longrightarrow> c \<in> {G_DHCP_SUBNET, G_DHCP_ROUTER, G_DHCP_DNS_SERVER} \<Longrightarrow> inet_aton v \<noteq> None \<Longrightarrow>
     opts_ok (s\<lparr>option_hash := (option_hash s)(c \<mapsto> v)\<rparr>)"
  unfolding opts_ok_def by (metis (no_types, lifting) dhcp_server.select_convs(15) dhcp_server.surjective
      dhcp_server.update_convs(15) fun_upd_apply option.inject)

lemma set_option_same_table:
  assumes "g_dhcp_server_set_option s c v = (r, s')"
  shows "same_table s s'" "opts_ok s \<Longrightarrow> opts_ok s'"
proof -
  have "s' = s \<or> (\<exists>x. s' = s\<lparr>option_hash := (option_hash s)(c \<mapsto> x)\<rparr> \<and>
      c \<in> {G_DHCP_SUBNET, G_DHCP_ROUTER, G_DHCP_DNS_SERVER} \<and> inet_aton x \<noteq> None)"
    using assms by (auto simp: g_dhcp_server_set_option_def split: option.splits if_splits)
  then show "same_table s s'" "opts_ok s \<Longrightarrow> opts_ok s'"
    using opts_ok_upd by (auto simp: same_table_def)
qed

abbreviation server_inv :: "dhcp_server \<Rightarrow> bool" where
  "server_inv s \<equiv> lease_inv s \<and> lease_sorted s \<and> opts_ok s"

lemma server_inv_cong:
  "server_inv s \<Longrightarrow> same_table s s' \<Longrightarrow> option_hash s' = option_hash s \<Longrightarrow> server_inv s'"
  using same_table_inv [of s s'] by (auto simp: same_table_def opts_ok_def)

lemma lease_inv_empty:
  "lease_list s = [] \<Longrightarrow> nip_lease_hash s = Map.empty \<Longrightarrow> lease_heap s = Map.empty \<Longrightarrow> lease_inv s"
  by (simp add: lease_inv_def)

lemma event_server_inv:
  assumes "server_inv s" "env_ok env s" "end_ip s < 0xffffffff" "0 \<le> now1 env"
    "now1 env + uint (lease_seconds s) < 2 ^ 31" "listener_event env s bad rd = Some (ret, s', acts)"
  shows "server_inv s'"
proof (cases bad)
  case True
  then have "s' = s\<lparr>listener_watch := 0\<rparr>" using assms(6) by (simp add: listener_event_def)
  then show ?thesis using server_inv_cong [OF assms(1), of s'] by (simp add: same_table_def)
next
  case False
  have "step_ok (clock env) (take ETH_ALEN (chaddr (snd (dhcp_recv_l3_packet rd)))) s s'"
    using listener_event_step [OF _ assms(2,3)] assms(1,6) False by simp
  moreover have "lease_sorted s'" using listener_event_sorted [OF _ assms(2) _ assms(6,4,5)] assms(1) by blast
  moreover from calculation(1) have "lease_inv s'" "option_hash s' = option_hash s"
    by (auto simp: step_ok_def same_configD)
  ultimately show ?thesis using assms(1) by (simp add: opts_ok_def)
qed

lemma server_reach_inv: "server_reach s \<Longrightarrow> server_inv s"
proof (induction rule: server_reach.induct)
  case (new al io1 io2 io3 t i s)
  then show ?case
    by (auto simp: g_dhcp_server_new_def opts_ok_def list_sorted_def intro!: lease_inv_empty
        split: if_splits option.splits)
next
  case (event s env bad rd ret s' acts)
  then show ?case using event_server_inv by blast
next
  case (set_option s c v r s')
  then show ?case using set_option_same_table [of s c v r s'] same_table_inv [of s s'] by (simp add: same_table_def)
next
  case (start s io ch w r s')
  show ?case using server_inv_cong [OF start.IH] config_same_table(1) [OF start.hyps(2)] by simp
next
  case (stop s s' acts)
  show ?case using server_inv_cong [OF stop.IH] config_same_table(2) [OF stop.hyps(2)] by simp
next
  case (set_ip_range s a b r s')
  show ?case using server_inv_cong [OF set_ip_range.IH] config_same_table(3) [OF set_ip_range.hyps(2)] by simp
next
  case (unref s s' acts)
  show ?case using server_inv_cong [OF unref.IH] config_same_table(4) [OF unref.hyps(2)] by simp
next
  case (set_lease_time s t)
  show ?case using server_inv_cong [OF set_lease_time.IH] by (simp add: g_dhcp_server_set_lease_time_def same_table_def)
next
  case (set_save_lease s f)
  show ?case using server_inv_cong [OF set_save_lease.IH] by (simp add: g_dhcp_server_set_save_lease_def same_table_def)
next
  case (set_lease_added_cb s f)
  show ?case
    using server_inv_cong [OF set_lease_added_cb.IH] by (simp add: g_dhcp_server_set_lease_added_cb_def same_table_def)
next
  case (ref s)
  show ?case using server_inv_cong [OF ref.IH] by (simp add: g_dhcp_server_ref_def same_table_def)
qed

section \<open>Liveness of DISCOVER\<close>

lemma check_packet_type_repr:
  assumes "opts_repr p os" "DHCP_OPTION_OVERLOAD \<notin> fst ` set os" "map_of os DHCP_MESSAGE_TYPE = Some [t]"
    "hlen p = 6" "pk_op p = BOOTREQUEST" "DHCPDISCOVER \<le> t" "t \<le> DHCPINFORM"
  shows "check_packet_type p = Some t"
proof -
  obtain q where q: "dhcp_get_option p (uint DHCP_MESSAGE_TYPE) = Some (Opt_at q)"
    "bytes_at (dhcp_packet_bytes p) q (length [t]) = Some [t]"
    using assms(1-3) by (rule repr_option_at)
  have "byte_at (dhcp_packet_bytes p) q = Some t"
    using q(2) by (auto simp: bytes_at_def byte_at_def take_Suc hd_drop_conv_nth split: if_splits)
  then show ?thesis using q(1) assms(4-7) by (simp add: check_packet_type_def leD)
qed

lemma read_option4_repr_none:
  "opts_repr p os \<Longrightarrow> DHCP_OPTION_OVERLOAD \<notin> fst ` set os \<Longrightarrow> map_of os c = None \<Longrightarrow> read_option4 g p c = Some None"
  by (simp add: read_option4_def repr_option_none)

text \<open>Offering a free address.\<close>

lemma send_to_client_ok:
  assumes "socket_ret (net_io env) = Inr fd" "bind_ret (net_io env) = Inr b"
  obtains d dst where "send_packet_to_client env s p = [Sent (raw_frame p (server_nip s) SERVER_PORT d CLIENT_PORT) dst (srv_ifindex s)]"
proof -
  have "sent (dhcp_send_raw_packet (net_io env) p a sp ci dp ch i False) = [Sent (raw_frame p a sp ci dp) (take 6 ch) i]"
    for a sp ci dp ch i
    using assms by (simp add: sent_def dhcp_send_raw_packet_def Let_def split: sum.splits)
  then show thesis
    by (cases "pk_flags p AND htons BROADCAST_FLAG \<noteq> 0 \<or> ciaddr p = 0") (auto intro!: that simp: send_packet_to_client_def)
qed

lemma no_lease:
  assumes "lease_inv s" "find_lease_by_mac s mac = Some None" "y \<in> leases s"
  shows "lease_mac y \<noteq> take ETH_ALEN mac"
  using assms(1) by (cases rule: find_lease_by_mac_cases [where mac = mac]) (use assms in auto)

lemma send_offer_free:
  assumes inv: "lease_inv s" and env: "env_ok env s" and wf: "wf_packet cp" and range: "end_ip s < 0xffffffff"
    and none: "find_lease_by_mac s (chaddr cp) = Some None" and mac: "mac_ok (take ETH_ALEN (chaddr cp))"
    and a: "addr_ok s a" "usable a" "nip_lease_hash s a = None"
    and res: "try_new env \<noteq> None" "socket_ret (net_io env) = Inr fd" "bind_ret (net_io env) = Inr b"
  obtains s' p d dst nip where
    "send_offer env s cp None 0 = Some (s', [Sent (raw_frame p (server_nip s) SERVER_PORT d CLIENT_PORT) dst (srv_ifindex s)])"
    "start_ip s \<le> nip" "nip \<le> end_ip s" "usable nip" "nip_lease_hash s nip = None" "yiaddr p = htonl nip"
    "opts_repr p (lease_opts s env DHCPOFFER)"
    "leases s' = insert \<lparr>expire = 300, lease_nip = nip, lease_mac = take ETH_ALEN (chaddr cp)\<rparr> (leases s)"
proof -
  have fr: "env_fresh env s" and dist: "distinct (hash_order env)" using env by (auto simp: env_ok_def)
  obtain nip where nip: "find_free_or_expired_nip (now2 env) s (chaddr cp) = Some nip" "start_ip s \<le> nip" "nip \<le> end_ip s"
      "usable nip" "nip_lease_hash s nip = None"
    using inv range a by (elim find_free_or_expired_nip_result [where now = "now2 env" and mac = "chaddr cp"]) auto
  have nz: "nip \<noteq> 0" using nip(4) by (auto simp: usable_def)
  have no: "lease_mac y \<noteq> take ETH_ALEN (chaddr cp)" "lease_nip y \<noteq> nip" if "y \<in> leases s" for y
    using no_lease [OF inv none that] hash_none [OF inv nip(5) that] by simp_all
  have ok: "addr_ok s (ntohl (htonl nip))" using nip nz by simp
  have len: "ETH_ALEN \<le> length (chaddr cp)" using wf by (simp add: wf_packet_def)
  obtain s' l where add: "add_lease env s OFFER_TIME (chaddr cp) (htonl nip) = Some (s', Some l)"
    "leases s' = insert (new_lease_of env s OFFER_TIME (chaddr cp) nip) (others s (take ETH_ALEN (chaddr cp)) nip)"
    "same_config s s'"
    using inv fr len
  proof (cases rule: add_lease_cases [where exp = OFFER_TIME and yi = "htonl nip"])
    case (ok s' l)
    then show thesis using that [of s' l] by simp
  qed (use ok mac res(1) in simp)
  obtain p1 p2 p3 where p: "init_packet s cp DHCPOFFER = Some p1"
    "dhcp_add_option_uint32 (p1\<lparr>yiaddr := htonl nip\<rparr>) DHCP_LEASE_TIME (lease_seconds s) = Some p2"
    "add_server_options env s' p2 = Some p3" "opts_repr p3 (lease_opts s env DHCPOFFER)"
    "hdr p3 = hdr (reply_hdr cp\<lparr>yiaddr := htonl nip\<rparr>)" "chaddr p1 = chaddr cp" "chaddr p3 = chaddr cp" "yiaddr p3 = htonl nip"
    using wf dist add(3) by (elim build_lease_reply [of cp DHCPOFFER env s s']) auto
  obtain d dst where sent: "send_packet_to_client env s' p3 = [Sent (raw_frame p3 (server_nip s') SERVER_PORT d CLIENT_PORT) dst (srv_ifindex s')]"
    using res(2,3) by (rule send_to_client_ok)
  have "check_requested_nip (now1 env) s 0 = Some False" by (simp add: check_requested_nip_def)
  then have "send_offer env s cp None 0 = Some (s', [Sent (raw_frame p3 (server_nip s) SERVER_PORT d CLIENT_PORT) dst (srv_ifindex s)])"
    using p nip(1) nz add(1) sent by (simp add: send_offer_def Let_def same_configD [OF add(3)])
  moreover have "leases s' = insert \<lparr>expire = 300, lease_nip = nip, lease_mac = take ETH_ALEN (chaddr cp)\<rparr> (leases s)"
    using no by (auto simp: add(2) new_lease_of_def)
  ultimately show thesis using that p(4,8) nip(2-5) by blast
qed


section \<open>Properties\<close>

text \<open>A server with one lease and a DISCOVER from another client, for the witnesses.\<close>

definition ex_lease :: dhcp_lease where
  "ex_lease = \<lparr>expire = 5000, lease_nip = 0x0a000002, lease_mac = [2, 0, 0, 0, 0, 7]\<rparr>"

definition ex_server :: dhcp_server where
  "ex_server =
     \<lparr>ref_count = 1, srv_type = G_DHCP_IPV4, started = True, srv_ifindex = 3, srv_interface = ''tether'',
      start_ip = 0x0a000002, end_ip = 0x0a0000fe, server_nip = htonl 0x0a000001, lease_seconds = 3600,
      listener_sockfd = 5, listener_watch = 9, listener_channel = Some 1, lease_list = [7],
      nip_lease_hash = [0x0a000002 \<mapsto> 7], option_hash = [G_DHCP_SUBNET \<mapsto> ''255.255.255.0''],
      save_lease_func = False, lease_added_cb = False, lease_heap = [7 \<mapsto> ex_lease]\<rparr>"

definition ex_env :: server_env where
  "ex_env = \<lparr>now1 = 1000, now2 = 1000, try_new = Some 8,
     net_io = \<lparr>socket_ret = Inr 6, bind_ret = Inr 0, sendto_ret = Inr 576\<rparr>, hash_order = [G_DHCP_SUBNET]\<rparr>"

definition ex_discover :: "u8 list" where
  "ex_discover = [BOOTREQUEST, 1, 6, 0, 0xaa, 0xbb, 0xcc, 0xdd] @ replicate 20 0 @ [2, 0, 0, 0, 0, 9] @
     replicate 202 0 @ [0x63, 0x82, 0x53, 0x63, DHCP_MESSAGE_TYPE, 1, DHCPDISCOVER, DHCP_END]"

lemma ex_server_inv: "lease_inv ex_server"
  by (rule lease_invI) (auto simp: ex_server_def ex_lease_def mac_ok_def split: if_splits)

lemma ex_env_ok: "env_ok ex_env ex_server"
  by (simp add: env_ok_def env_fresh_def ex_env_def ex_server_def)

lemma ex_range: "end_ip ex_server < 0xffffffff"
  by (simp add: ex_server_def)

lemma ex_leases: "leases ex_server = {ex_lease}"
  by (auto simp: leases_def ex_server_def)

lemma ex_benign: "benign ex_discover"
  by (auto simp: benign_def ex_discover_def dest!: in_set_takeD in_set_dropD)

lemma ex_packet: "chaddr (snd (dhcp_recv_l3_packet (Inr ex_discover))) = [2, 0, 0, 0, 0, 9] @ replicate 10 0"
  by (simp add: dhcp_recv_l3_packet_def ex_discover_def dhcp_packet_of_bytes_def Let_def split: if_splits)

lemmas ex_facts = ex_server_inv ex_env_ok ex_range

lemma ex_event:
  obtains s' acts where "listener_event ex_env ex_server False (Inr ex_discover) = Some (True, s', acts)"
  using listener_event_returns [OF ex_facts, of "Inr ex_discover" False] ex_benign by auto

text \<open>C4. The packet handler returns and does not fault, whatever is in the datagram, if the
  datagram has at most 622 bytes and no overload option code in its \<^verbatim>\<open>sname\<close> and \<^verbatim>\<open>file\<close> fields: no
  read outside the packet, no access to a freed lease, no endless loop.\<close>

theorem listener_event_no_fault:
  assumes "lease_inv s" "env_ok env s" "end_ip s < 0xffffffff" "\<forall>bs. rd = Inr bs \<longrightarrow> benign bs"
  shows "\<exists>s' acts. listener_event env s bad rd = Some (\<not> bad, s', acts)"
  using assms by (intro listener_event_returns) auto

theorem listener_event_no_fault_witness:
  "\<exists>s' acts. listener_event ex_env ex_server False (Inr ex_discover) = Some (True, s', acts)"
  using listener_event_no_fault [OF ex_facts, of "Inr ex_discover" False] ex_benign by simp

text \<open>C1. In every reachable state the three views of the lease table agree: the list holds each
  allocated lease once (nothing leaks, nothing dangles), the hash finds exactly the lease with the
  address, no two leases share a hardware address or an address, the list is sorted by
  expiry, and every configured option is one the server can send.\<close>

theorem server_reachable_invariant:
  assumes "server_reach s"
  shows "lease_inv s \<and> lease_sorted s \<and> opts_ok s \<and>
     (\<forall>x \<in> leases s. \<forall>y \<in> leases s. lease_mac x = lease_mac y \<or> lease_nip x = lease_nip y \<longrightarrow> x = y)"
  using server_reach_inv [OF assms] lt.inv_mac lt.inv_nip by blast

theorem server_reachable_invariant_witness:
  "\<exists>s. server_reach s \<and> lease_inv s \<and> server_nip s = 16777226"
proof -
  let ?io = "\<lparr>if_socket = Inr 3, if_name = Inr ''tether'', if_flags = Inr 1, if_addr = Inr 16777226\<rparr>"
  obtain s where s: "g_dhcp_server_new True ?io ?io ?io G_DHCP_IPV4 3 = Inr s" "server_nip s = 16777226"
    by (simp add: g_dhcp_server_new_def get_interface_name_def interface_is_up_def get_interface_address_def)
  then have "server_reach s" using server_reach.new by blast
  with server_reachable_invariant [OF this] s(2) show ?thesis by blast
qed

text \<open>C2. No client can take away another client's address: whatever a client sends, a lease of a
  client with another hardware address that has not expired is still in the table afterwards.\<close>

theorem unexpired_lease_kept:
  assumes "lease_inv s" "env_ok env s" "end_ip s < 0xffffffff"
    "listener_event env s False rd = Some (ret, s', acts)" "x \<in> leases s"
    "lease_mac x \<noteq> take ETH_ALEN (chaddr (snd (dhcp_recv_l3_packet rd)))"
    "now1 env \<le> expire x" "now2 env \<le> expire x"
  shows "x \<in> leases s'"
  using listener_event_step [OF assms(1-4)] assms(5-8) by (auto simp: step_ok_def)

theorem unexpired_lease_kept_witness:
  "\<exists>s' acts. listener_event ex_env ex_server False (Inr ex_discover) = Some (True, s', acts) \<and> ex_lease \<in> leases s'"
proof -
  obtain s' acts where ev: "listener_event ex_env ex_server False (Inr ex_discover) = Some (True, s', acts)"
    by (rule ex_event)
  moreover have "ex_lease \<in> leases s'"
    by (rule unexpired_lease_kept [OF ex_facts ev]) (simp_all only: ex_packet ex_leases, simp_all add: ex_lease_def ex_env_def)
  ultimately show ?thesis by blast
qed

lemma ex_recv: "dhcp_recv_l3_packet (Inr ex_discover) = (244, snd (dhcp_recv_l3_packet (Inr ex_discover)))"
  by (simp add: dhcp_recv_l3_packet_def ex_discover_def dhcp_packet_of_bytes_def Let_def rd32_def nth_append
      bswap32_def le32_of_def)

lemma ex_opts: "opts_repr (snd (dhcp_recv_l3_packet (Inr ex_discover))) [(DHCP_MESSAGE_TYPE, [DHCPDISCOVER])]"
proof -
  have "pk_options (snd (dhcp_recv_l3_packet (Inr ex_discover))) =
      [DHCP_MESSAGE_TYPE, 1, DHCPDISCOVER, DHCP_END] @ replicate 384 0"
    by (simp add: dhcp_recv_l3_packet_def ex_discover_def dhcp_packet_of_bytes_def Let_def)
  then show ?thesis using wf_recv [of "Inr ex_discover"] by (simp add: opts_repr_def)
qed

lemma discover_offer:
  assumes "lease_inv s" "env_ok env s" "end_ip s < 0xffffffff"
    and rd: "dhcp_recv_l3_packet rd = (n, cp)" "0 \<le> n" "hlen cp = 6" "pk_op cp = BOOTREQUEST"
    and os: "opts_repr cp os" "DHCP_OPTION_OVERLOAD \<notin> fst ` set os" "map_of os DHCP_MESSAGE_TYPE = Some [DHCPDISCOVER]"
      "map_of os DHCP_SERVER_ID = None" "map_of os DHCP_REQUESTED_IP = None"
    and "find_lease_by_mac s (chaddr cp) = Some None" "mac_ok (take ETH_ALEN (chaddr cp))"
      "addr_ok s a" "usable a" "nip_lease_hash s a = None"
      "try_new env \<noteq> None" "socket_ret (net_io env) = Inr fd" "bind_ret (net_io env) = Inr b"
  shows "\<exists>s' p d dst nip.
     listener_event env s False rd =
       Some (True, s', [Sent (raw_frame p (server_nip s) SERVER_PORT d CLIENT_PORT) dst (srv_ifindex s)]) \<and>
     yiaddr p = htonl nip \<and> start_ip s \<le> nip \<and> nip \<le> end_ip s \<and> usable nip \<and> nip_lease_hash s nip = None \<and>
     opt_data p DHCP_MESSAGE_TYPE = Some [DHCPOFFER] \<and> opt_data p DHCP_LEASE_TIME = Some (put_be32 (lease_seconds s)) \<and>
     leases s' = insert \<lparr>expire = 300, lease_nip = nip, lease_mac = take ETH_ALEN (chaddr cp)\<rparr> (leases s)"
proof -
  have wf: "wf_packet cp" using wf_recv [of rd] rd by simp
  obtain s' p d dst nip where o:
    "send_offer env s cp None 0 = Some (s', [Sent (raw_frame p (server_nip s) SERVER_PORT d CLIENT_PORT) dst (srv_ifindex s)])"
    "start_ip s \<le> nip" "nip \<le> end_ip s" "usable nip" "nip_lease_hash s nip = None" "yiaddr p = htonl nip"
    "opts_repr p (lease_opts s env DHCPOFFER)"
    "leases s' = insert \<lparr>expire = 300, lease_nip = nip, lease_mac = take ETH_ALEN (chaddr cp)\<rparr> (leases s)"
    by (rule send_offer_free [OF assms(1,2) wf assms(3,13-20)])
  have ty: "check_packet_type cp = Some DHCPDISCOVER"
    by (rule check_packet_type_repr [OF os(1-3) rd(3,4)]) simp_all
  note nopt = read_option4_repr_none [OF os(1,2)]
  have "listener_event env s False rd =
      Some (True, s', [Sent (raw_frame p (server_nip s) SERVER_PORT d CLIENT_PORT) dst (srv_ifindex s)])"
    using rd(2) assms(13) o(1) by (simp add: listener_event_def rd(1) ty nopt os(4,5) dispatch_def)
  moreover have "DHCP_OPTION_OVERLOAD \<notin> fst ` set (lease_opts s env DHCPOFFER)"
    using server_opts_codes [of "option_hash s" "hash_order env"] by auto
  note pko.get_repr [OF o(7) this]
  ultimately show ?thesis using o(2-6,8) by (intro exI conjI) (assumption | simp)+
qed

lemma ex_fields: "hlen (snd (dhcp_recv_l3_packet (Inr ex_discover))) = 6" "pk_op (snd (dhcp_recv_l3_packet (Inr ex_discover))) = BOOTREQUEST"
  by (simp_all add: dhcp_recv_l3_packet_def ex_discover_def dhcp_packet_of_bytes_def Let_def)

lemma ex_free:
  "find_lease_by_mac ex_server (chaddr (snd (dhcp_recv_l3_packet (Inr ex_discover)))) = Some None"
  "mac_ok (take ETH_ALEN (chaddr (snd (dhcp_recv_l3_packet (Inr ex_discover)))))"
  "addr_ok ex_server 0x0a000003" "usable 0x0a000003" "nip_lease_hash ex_server 0x0a000003 = None"
  by (simp_all add: find_lease_by_mac_def ex_packet ex_server_def ex_lease_def mac_ok_def usable_def)

lemma ex_offer:
  "\<exists>s' p d dst. listener_event ex_env ex_server False (Inr ex_discover) =
       Some (True, s', [Sent (raw_frame p (server_nip ex_server) SERVER_PORT d CLIENT_PORT) dst 3])"
proof -
  obtain s' p d dst where "listener_event ex_env ex_server False (Inr ex_discover) =
       Some (True, s', [Sent (raw_frame p (server_nip ex_server) SERVER_PORT d CLIENT_PORT) dst (srv_ifindex ex_server)])"
    using discover_offer [OF ex_facts ex_recv _ ex_fields ex_opts, where a = "0x0a000003" and fd = 6 and b = 0] ex_free
    by (auto simp: ex_env_def)
  moreover have "srv_ifindex ex_server = 3" by (simp add: ex_server_def)
  ultimately show ?thesis by auto
qed



text \<open>C5. Whatever the server sends is an IPv4/UDP datagram with correct checksums that holds a
  BOOTREPLY with the client's transaction id and hardware address and the server's identifier;
  an address in it is leased to that client, and to nobody else, in the table after the packet.\<close>

theorem replies_are_leased:
  assumes "lease_inv s" "env_ok env s" "end_ip s < 0xffffffff"
    "listener_event env s False rd = Some (ret, s', acts)" "Sent frame dst ifi \<in> set acts"
  shows "\<exists>p d. frame = raw_frame p (server_nip s) SERVER_PORT d CLIENT_PORT \<and>
     dhcp_checksum (take 20 frame) = 0 \<and> dhcp_checksum (udp_pseudo (server_nip s) d UPD_DHCP_SIZE @ drop 20 frame) = 0 \<and>
     pk_op p = BOOTREPLY \<and> xid p = xid (snd (dhcp_recv_l3_packet rd)) \<and>
     chaddr p = chaddr (snd (dhcp_recv_l3_packet rd)) \<and>
     (yiaddr p \<noteq> 0 \<longrightarrow> (\<exists>!x. x \<in> leases s' \<and> lease_nip x = ntohl (yiaddr p)) \<and>
        (\<forall>x \<in> leases s'. lease_nip x = ntohl (yiaddr p) \<longrightarrow> lease_mac x = take ETH_ALEN (chaddr p)))"
proof -
  let ?cp = "snd (dhcp_recv_l3_packet rd)"
  have st: "lease_inv s'" "reply_ok s s' ?cp acts"
    using listener_event_step [OF assms(1-4)] by (auto simp: step_ok_def)
  then obtain p os d where p: "frame = raw_frame p (server_nip s) SERVER_PORT d CLIENT_PORT" "opts_repr p os"
    "hdr p = hdr (reply_hdr ?cp\<lparr>yiaddr := yiaddr p\<rparr>)"
    "yiaddr p \<noteq> 0 \<longrightarrow> (\<exists>x \<in> leases s'. lease_mac x = take ETH_ALEN (chaddr ?cp) \<and> lease_nip x = ntohl (yiaddr p))"
    using assms(5) unfolding reply_ok_def by blast
  have wf: "wf_packet p" using p(2) by (simp add: opts_repr_def)
  have f: "pk_op p = BOOTREPLY" "xid p = xid ?cp" "chaddr p = chaddr ?cp"
    using hdr_fields(1,2,7) [OF p(3)] by simp_all
  have "(\<exists>!x. x \<in> leases s' \<and> lease_nip x = ntohl (yiaddr p)) \<and>
        (\<forall>x \<in> leases s'. lease_nip x = ntohl (yiaddr p) \<longrightarrow> lease_mac x = take ETH_ALEN (chaddr p))" if "yiaddr p \<noteq> 0"
    using p(4) that lt.inv_nip [OF st(1)] f(3) by metis
  then show ?thesis using p(1) raw_frame_valid [OF wf p(1)] f by blast
qed

theorem replies_are_leased_witness:
  "\<exists>s' frame dst p d. listener_event ex_env ex_server False (Inr ex_discover) = Some (True, s', [Sent frame dst 3]) \<and>
     frame = raw_frame p (server_nip ex_server) SERVER_PORT d CLIENT_PORT \<and>
     pk_op p = BOOTREPLY \<and> dhcp_checksum (take 20 frame) = 0"
proof -
  obtain s' frame dst where "listener_event ex_env ex_server False (Inr ex_discover) = Some (True, s', [Sent frame dst 3])"
    using ex_offer by blast
  moreover from replies_are_leased [OF ex_facts this, of frame dst 3] obtain p d where
    "frame = raw_frame p (server_nip ex_server) SERVER_PORT d CLIENT_PORT" "pk_op p = BOOTREPLY"
    "dhcp_checksum (take 20 frame) = 0" by auto
  ultimately show ?thesis by blast
qed

text \<open>The specification of the table: a set of leases in which a new lease replaces the ones with its
  hardware address or its address.\<close>

definition table_add :: "dhcp_lease set \<Rightarrow> dhcp_lease \<Rightarrow> dhcp_lease set" where
  "table_add T x = insert x {y \<in> T. lease_mac y \<noteq> lease_mac x \<and> lease_nip y \<noteq> lease_nip x}"

text \<open>C9. \<^verbatim>\<open>add_lease\<close> implements the abstract table: on every branch (new client, client with
  another lease, address held by another client, both) the set of leases becomes the one of the
  specification, and the operation is refused exactly if the address is outside the range, the
  hardware address is not usable, or a new object is needed and memory is exhausted.\<close>

theorem add_lease_refines:
  assumes "lease_inv s" "env_fresh env s" "length mac = 16" "add_lease env s exp mac yi = Some (s', r)"
  shows "lease_inv s' \<and>
     leases s' = (if r = None then leases s else table_add (leases s) (new_lease_of env s exp mac (ntohl yi))) \<and>
     (r = None \<longleftrightarrow> \<not> addr_ok s (ntohl yi) \<or> \<not> mac_ok (take ETH_ALEN mac) \<or>
        try_new env = None \<and> (\<forall>y \<in> leases s. lease_mac y \<noteq> take ETH_ALEN mac \<and> lease_nip y \<noteq> ntohl yi))"
proof (cases "addr_ok s (ntohl yi) \<and> mac_ok (take ETH_ALEN mac)")
  case True
  then have a: "addr_ok s (ntohl yi)" "mac_ok (take ETH_ALEN mac)" by blast+
  let ?x = "new_lease_of env s exp mac (ntohl yi)"
  have x: "lease_mac ?x = take ETH_ALEN mac" "lease_nip ?x = ntohl yi" by (simp_all add: new_lease_of_def)
  from assms(1,2) a show ?thesis
  proof (cases rule: add_lease_ok [where exp = exp])
    case (ok t l)
    have t: "t = s'" "r = Some l" using ok(1) assms(4) by simp_all
    have "try_new env \<noteq> None \<or> (\<exists>y \<in> leases s. lease_mac y = take ETH_ALEN mac \<or> lease_nip y = ntohl yi)"
    proof (rule ccontr)
      assume n: "\<not> ?thesis"
      have "find_lease_by_mac s mac = Some None"
        using assms(1) by (cases rule: find_lease_by_mac_cases [where mac = mac])
          (use n leases_in_heap [OF assms(1)] in auto)
      moreover have "nip_lease_hash s (ntohl yi) = None"
        using n leases_in_heap [OF assms(1)] lease_invD(3) [OF assms(1), of "ntohl yi"]
        by (cases "nip_lease_hash s (ntohl yi)") blast+
      ultimately show False
        using n a ok(1) by (auto simp: add_lease_def get_lease_def mac_ok_def split: if_splits)
    qed
    then show ?thesis using ok(2,4) a unfolding t table_add_def x by auto
  next
    case nomem
    then have "s' = s" "r = None" using assms(4) by simp_all
    then show ?thesis using nomem assms(1) by auto
  qed
next
  case False
  then have "add_lease env s exp mac yi = Some (s, None)"
    using add_lease_refused [where s = s and yi = yi and mac = mac] assms(3) by (auto simp: mac_ok_def)
  then show ?thesis using False assms(1,4) by auto
qed

theorem add_lease_refines_witness:
  "\<exists>s' l. add_lease ex_env ex_server 300 ([2, 0, 0, 0, 0, 9] @ replicate 10 0) (htonl 0x0a000002) = Some (s', Some l) \<and>
     leases s' = {\<lparr>expire = 300, lease_nip = 0x0a000002, lease_mac = [2, 0, 0, 0, 0, 9]\<rparr>}"
proof -
  let ?m = "[2, 0, 0, 0, 0, 9] @ replicate 10 (0 :: u8)"
  have fr: "env_fresh ex_env ex_server" using ex_env_ok by (simp add: env_ok_def)
  have len: "length ?m = 16" by simp
  obtain q where "add_lease_value ex_env ex_server 300 ?m (htonl 0x0a000002) = Some q"
    using lt.add_total [OF ex_server_inv fr len] by blast
  then obtain s' r where a: "add_lease ex_env ex_server 300 ?m (htonl 0x0a000002) = Some (s', r)"
    by (auto simp: add_lease_value_def)
  have "addr_ok ex_server 0x0a000002" "mac_ok (take ETH_ALEN ?m)" by (simp_all add: ex_server_def mac_ok_def)
  then show ?thesis
    using a add_lease_refines [OF ex_server_inv fr len a]
    by (auto simp: ex_leases table_add_def new_lease_of_def ex_env_def ex_lease_def)
qed

text \<open>C16. The search for an address always returns, and it returns none only if there is really none:
  every usable address of the range is leased and no lease has expired.\<close>

theorem find_free_or_expired_nip_complete:
  assumes "lease_inv s" "lease_sorted s" "end_ip s < 0xffffffff" "0 \<notin> lease_nip ` leases s"
  shows "\<exists>nip. find_free_or_expired_nip now s mac = Some nip \<and>
     (nip = 0 \<longleftrightarrow> (\<forall>a. start_ip s \<le> a \<and> a \<le> end_ip s \<and> usable a \<longrightarrow> nip_lease_hash s a \<noteq> None) \<and>
        (\<forall>x \<in> leases s. now \<le> expire x))"
  using assms(1,3)
proof (cases rule: find_free_or_expired_nip_result [where now = now and mac = mac])
  case (free nip)
  then have "nip \<noteq> 0" by (auto simp: usable_def)
  then show ?thesis using free by auto
next
  case (expired l x)
  then have "x \<in> leases s" using leases_in_heap [OF assms(1)] by blast
  then show ?thesis using expired(1,4) assms(4) by force
next
  case none
  have "now \<le> expire x" if x: "x \<in> leases s" for x
  proof -
    obtain l where l: "l \<in> set (lease_list s)" "lease_heap s l = Some x" using x by (auto simp: leases_def)
    then have ne: "lease_list s \<noteq> []" by auto
    obtain y where y: "lease_heap s (last (lease_list s)) = Some y"
      using ne lease_invD(2) [OF assms(1)] last_in_set [OF ne] by auto
    have "now \<le> expire y" using none(3) [of "last (lease_list s)" y] y ne by (simp add: g_list_last_def)
    also have "expire y \<le> expire x"
      using list_sorted_last [OF assms(2) ne l(1)] l(2) y by (simp add: expire_of_def)
    finally show ?thesis .
  qed
  then show ?thesis using none(1,2) by auto
qed

theorem find_free_or_expired_nip_complete_witness:
  "\<exists>nip. find_free_or_expired_nip 1000 ex_server [] = Some nip \<and> nip \<noteq> 0"
proof -
  have "lease_sorted ex_server" by (simp add: list_sorted_def ex_server_def ex_lease_def time_ok_def expire_of_def)
  moreover have "0 \<notin> lease_nip ` leases ex_server" by (simp add: ex_leases ex_lease_def)
  moreover have "start_ip ex_server \<le> 0x0a000003 \<and> 0x0a000003 \<le> end_ip ex_server \<and> usable 0x0a000003"
    "nip_lease_hash ex_server 0x0a000003 = None"
    by (simp_all add: ex_server_def usable_def)
  ultimately show ?thesis
    using find_free_or_expired_nip_complete [OF ex_server_inv _ ex_range, of 1000 "[]"] by blast
qed

lemma send_ACK_add:
  assumes "wf_packet cp" "distinct (hash_order env)" "send_ACK env s cp dest = Some (s', acts)"
  shows "\<exists>r. add_lease env s 0 (chaddr cp) (htonl dest) = Some (s', r)"
proof -
  obtain p1 p2 p3 where "init_packet s cp DHCPACK = Some p1"
    "dhcp_add_option_uint32 (p1\<lparr>yiaddr := htonl dest\<rparr>) DHCP_LEASE_TIME (lease_seconds s) = Some p2"
    "add_server_options env s p2 = Some p3" "chaddr p3 = chaddr cp" "yiaddr p3 = htonl dest"
    using assms(1,2) by (elim build_lease_reply [of cp DHCPACK env s s]) auto
  then show ?thesis using assms(3) by (auto simp: send_ACK_def split: bind_splits)
qed



end
