(* ===== verification/DhcpClient.thy ===== *)
theory DhcpClient
  imports DhcpCommon
begin

text \<open>
  The DHCP client (\<^verbatim>\<open>gdhcp/client.c\<close>) and the link-local helpers (\<^verbatim>\<open>gdhcp/ipv4ll.c\<close>): the client object, its
  timers and sockets, the messages it sends and the messages it receives. The handlers that drive its
  state machine are in the next theory.

  The event sources of the main loop that belong to the client are \<open>c_sources\<close>, from identifiers to the
  callback and the delay of a timer. What leaves the program is recorded in \<open>c_acts\<close>: frames, packets and the
  calls of the event functions that the daemon registered. An event function is called with the client; what it does then
  is a call of the daemon, so only the fact that it is called is recorded here.
\<close>

section \<open>State\<close>

datatype listen_mode = L_NONE | L2 | L3 | L_ARP

datatype client_state =
    INIT_SELECTING | REBOOTING | REQUESTING | BOUND | RENEWING | REBINDING | RELEASED
  | IPV4LL_PROBE | IPV4LL_ANNOUNCE | IPV4LL_MONITOR | IPV4LL_DEFEND
  | INFORMATION_REQ | SOLICITATION | REQUEST | CONFIRM | RENEW | REBIND | RELEASE | DECLINE

datatype client_event =
    EVENT_LEASE_AVAILABLE | EVENT_IPV4LL_AVAILABLE | EVENT_NO_LEASE | EVENT_LEASE_LOST | EVENT_IPV4LL_LOST
  | EVENT_ADDRESS_CONFLICT | EVENT_INFORMATION_REQ | EVENT_SOLICITATION | EVENT_ADVERTISE | EVENT_REQUEST
  | EVENT_RENEW | EVENT_REBIND | EVENT_RELEASE | EVENT_CONFIRM | EVENT_DECLINE

datatype client_callback =
    Listener_event | Discover_timeout | Reboot_timeout | Request_timeout | Restart_dhcp_timeout
  | Start_renew | Continue_renew | Start_rebound | Continue_rebound | Start_expire
  | Send_probe | Probe_timeout | Announce_timeout | Defend_timeout

datatype delay = Watch | Seconds u32 | Millis u32

record ia_prefix =
  px_prefix :: "u8 list"
  px_len :: u8
  px_preferred :: u32
  px_valid :: u32
  px_expire :: int

text \<open>A value read from a packet: a text, an IPv6 address (the text \<^verbatim>\<open>inet_ntop\<close> prints for it), or a prefix.\<close>

datatype client_value = Text string | Addr6 "u8 list" | Prefix ia_prefix

datatype client_act =
    Frame "u8 list" "u8 list" int
  | Kernel_packet "u8 list" u32 u16 u32 u16
  | Packet6 "u8 list" "u8 list" int
  | Arp "u8 list" int
  | Event client_event

record dhcp_client =
  c_ref_count :: int
  c_type :: GDHCPType
  c_state :: client_state
  c_ifindex :: int
  c_interface :: string
  c_mac :: "u8 list"
  c_xid :: u32
  c_server_ip :: u32
  c_requested_ip :: u32
  c_assigned_ip :: "string option"
  c_start :: int
  c_lease_seconds :: u32
  c_listen_mode :: listen_mode
  c_listener_sockfd :: int
  c_retry_times :: u8
  c_ack_retry_times :: u8
  c_conflicts :: u8
  c_timeout :: nat
  c_t1_timeout :: nat
  c_t2_timeout :: nat
  c_lease_timeout :: nat
  c_listener_watch :: nat
  c_request_list :: "u32 list"
  c_code_value_hash :: "int \<rightharpoonup> client_value list"
  c_send_value_hash :: "int \<rightharpoonup> u8 list"
  c_cb :: "client_event \<Rightarrow> bool"
  c_last_address :: "string option"
  c_duid :: "u8 list option"
  c_server_duid :: "u8 list option"
  c_server_duid_len :: nat
  c_status_code :: u16
  c_iaid :: u32
  c_T1 :: u32
  c_T2 :: u32
  c_ia_na :: "u8 list"
  c_ia_ta :: "u8 list"
  c_last_request :: int
  c_expire :: u32
  c_retransmit :: bool
  c_start_time :: "int \<times> int"
  c_request_bcast :: bool
  c_sources :: "nat \<rightharpoonup> client_callback \<times> delay"
  c_next :: nat
  c_acts :: "client_act list"

text \<open>
  The environment of one call: the clock, random numbers and the results of system calls, which are functions of the
  counter \<open>c_next\<close>, the order in which the hash table of options to send is walked, and what a stack buffer holds before it is written.
\<close>

record l2_io =
  l2_socket :: "int + int"
  l2_bind :: "int + int"

record client_env =
  e_time :: int
  e_timeofday :: "int \<times> int"
  e_rand :: "nat \<Rightarrow> u64"
  e_alloc :: "nat \<Rightarrow> bool"
  e_raw :: "nat \<Rightarrow> raw_io"
  e_kernel :: "nat \<Rightarrow> kernel_io"
  e_l2 :: l2_io
  e_l3 :: l3_io
  e_arp :: l2_io
  e_channel :: bool
  e_order :: "int list"
  e_stale :: "u8 list"
  e_mac :: "u8 list option"
  e_inet_pton6 :: "string \<Rightarrow> u8 list option"

abbreviation "DHCP_PARAM_REQ \<equiv> (0x37 :: u8)"

definition c_act :: "client_act \<Rightarrow> dhcp_client \<Rightarrow> dhcp_client" where
  "c_act a c = c\<lparr>c_acts := c_acts c @ [a]\<rparr>"

definition c_event :: "client_event \<Rightarrow> dhcp_client \<Rightarrow> dhcp_client" where
  "c_event e c = (if c_cb c e then c_act (Event e) c else c)"

definition c_tick :: "dhcp_client \<Rightarrow> dhcp_client \<times> nat" where
  "c_tick c = (c\<lparr>c_next := Suc (c_next c)\<rparr>, c_next c)"

definition c_add_source :: "client_callback \<Rightarrow> delay \<Rightarrow> dhcp_client \<Rightarrow> dhcp_client \<times> nat" where
  "c_add_source cb d c =
     (let n = Suc (c_next c) in (c\<lparr>c_next := n, c_sources := (c_sources c)(n \<mapsto> (cb, d))\<rparr>, n))"

definition c_source_remove :: "nat \<Rightarrow> dhcp_client \<Rightarrow> dhcp_client" where
  "c_source_remove n c = c\<lparr>c_sources := (c_sources c)(n := None)\<rparr>"

definition set_timeout :: "client_callback \<Rightarrow> delay \<Rightarrow> dhcp_client \<Rightarrow> dhcp_client" where
  "set_timeout cb d c = (let (c, n) = c_add_source cb d c in c\<lparr>c_timeout := n\<rparr>)"

definition remove_nonzero :: "nat \<Rightarrow> dhcp_client \<Rightarrow> dhcp_client" where
  "remove_nonzero n c = (if n > 0 then c_source_remove n c else c)"

definition remove_timeouts :: "dhcp_client \<Rightarrow> dhcp_client" where
  "remove_timeouts c =
     (let c = remove_nonzero (c_timeout c) c;
          c = remove_nonzero (c_t1_timeout c) c;
          c = remove_nonzero (c_t2_timeout c) c;
          c = remove_nonzero (c_lease_timeout c) c
      in c\<lparr>c_timeout := 0, c_t1_timeout := 0, c_t2_timeout := 0, c_lease_timeout := 0\<rparr>)"

section \<open>Link-local addresses\<close>

abbreviation "LINKLOCAL_ADDR \<equiv> (0xa9fe0000 :: u32)"
abbreviation "IN_CLASSB_HOST \<equiv> (0xffff :: u32)"
abbreviation "PROBE_WAIT \<equiv> (1 :: u32)"
abbreviation "PROBE_NUM \<equiv> (3 :: u8)"
abbreviation "PROBE_MIN \<equiv> (1 :: u32)"
abbreviation "PROBE_MAX \<equiv> (2 :: u32)"
abbreviation "ANNOUNCE_WAIT \<equiv> (2 :: u32)"
abbreviation "ANNOUNCE_NUM \<equiv> (2 :: u8)"
abbreviation "ANNOUNCE_INTERVAL \<equiv> (2 :: u32)"
abbreviation "MAX_CONFLICTS \<equiv> (10 :: u8)"
abbreviation "DEFEND_INTERVAL \<equiv> (10 :: u32)"

text \<open>Numbers are drawn until one fits; the result has the address and how many were drawn.\<close>

partial_function (option) ipv4ll_random_ip :: "(nat \<Rightarrow> u64) \<Rightarrow> nat \<Rightarrow> (u32 \<times> nat) option" where
  "ipv4ll_random_ip rand n =
     (let tmp = (ucast (rand n) :: u32) AND IN_CLASSB_HOST in
      if tmp > IN_CLASSB_HOST - 0x0200 then ipv4ll_random_ip rand (Suc n)
      else Some ((LINKLOCAL_ADDR + 0x0100) + tmp, Suc n))"

declare ipv4ll_random_ip.simps [code]

definition ipv4ll_random_delay_ms :: "u64 \<Rightarrow> u32 \<Rightarrow> u32" where
  "ipv4ll_random_delay_ms rand seconds = ucast (rand mod ucast (seconds * 1000))"

text \<open>An ARP request: hardware and protocol types and lengths, the operation, and source and target addresses.\<close>

definition ether_arp :: "u16 \<Rightarrow> u8 list \<Rightarrow> u32 \<Rightarrow> u32 \<Rightarrow> u8 list" where
  "ether_arp arp_op source_eth source_ip target_ip =
     put_be16 1 @ put_be16 0x0800 @ [6, 4] @ put_be16 arp_op @ take 6 source_eth @ put_be32 source_ip @
     replicate 6 0 @ put_be32 target_ip"

definition ipv4ll_send_arp_packet :: "raw_io \<Rightarrow> u8 list \<Rightarrow> u32 \<Rightarrow> u32 \<Rightarrow> int \<Rightarrow> int \<times> (u8 list \<times> int) option" where
  "ipv4ll_send_arp_packet io source_eth source_ip target_ip ifindex =
     (case socket_ret io of
        Inl e \<Rightarrow> (- e, None)
      | Inr _ \<Rightarrow>
        (case bind_ret io of
           Inl e \<Rightarrow> (- e, None)
         | Inr _ \<Rightarrow>
           let sent = Some (ether_arp 1 source_eth source_ip target_ip, ifindex)
           in (case sendto_ret io of Inl e \<Rightarrow> (- e, sent) | Inr n \<Rightarrow> (n, sent))))"

definition ipv4ll_arp_socket :: "l2_io \<Rightarrow> int" where
  "ipv4ll_arp_socket io =
     (case l2_socket io of
        Inl _ \<Rightarrow> - 1
      | Inr fd \<Rightarrow> (case l2_bind io of Inl e \<Rightarrow> - e | Inr _ \<Rightarrow> fd))"

definition dhcp_l2_socket :: "l2_io \<Rightarrow> int" where
  "dhcp_l2_socket io =
     (case l2_socket io of
        Inl e \<Rightarrow> - e
      | Inr fd \<Rightarrow> (case l2_bind io of Inl e \<Rightarrow> - e | Inr _ \<Rightarrow> fd))"

section \<open>Listening\<close>

definition open_listener :: "client_env \<Rightarrow> dhcp_client \<Rightarrow> listen_mode \<Rightarrow> int" where
  "open_listener env c mode =
     (case mode of
        L2 \<Rightarrow> dhcp_l2_socket (e_l2 env)
      | L3 \<Rightarrow> dhcp_l3_socket (e_l3 env) (if c_type c = G_DHCP_IPV6 then AF_INET6 else AF_INET)
      | L_ARP \<Rightarrow> ipv4ll_arp_socket (e_arp env)
      | L_NONE \<Rightarrow> - EIO)"

definition switch_listening_mode :: "client_env \<Rightarrow> listen_mode \<Rightarrow> dhcp_client \<Rightarrow> dhcp_client \<times> int" where
  "switch_listening_mode env mode c =
     (if c_listen_mode c = mode then (c, 0)
      else
        let c = (if c_listen_mode c \<noteq> L_NONE
                 then (remove_nonzero (c_listener_watch c) c)\<lparr>c_listen_mode := L_NONE, c_listener_sockfd := - 1, c_listener_watch := 0\<rparr>
                 else c)
        in
        if mode = L_NONE then (c, 0)
        else
          let fd = open_listener env c mode in
          if fd < 0 \<or> \<not> e_channel env then (c, - EIO)
          else
            let (c, n) = c_add_source Listener_event Watch c
            in (c\<lparr>c_listen_mode := mode, c_listener_sockfd := fd, c_listener_watch := n\<rparr>, 0))"

section \<open>Sending DHCPv4 messages\<close>

text \<open>The memory of the packet that \<^verbatim>\<open>init_packet\<close> prepares; the DHCPv6 header is written by \<open>dhcpv6_init_header\<close>.\<close>

definition init_packet4 :: "dhcp_client \<Rightarrow> u8 \<Rightarrow> dhcp_packet option" where
  "init_packet4 c type =
     map_option (\<lambda>p. p\<lparr>chaddr := mem_write 0 (take 6 (c_mac c)) (chaddr p)\<rparr>) (dhcp_init_header type)"

text \<open>
  The list of requested options is written behind the last option without a check of the space left.
  Nothing is written for an empty list.
\<close>

definition add_request_options :: "dhcp_client \<Rightarrow> dhcp_packet \<Rightarrow> dhcp_packet option" where
  "add_request_options c packet = do {
     e \<leftarrow> dhcp_end_option (pk_options packet);
     let codes = map (\<lambda>x. ucast x :: u8) (c_request_list c);
     if codes = [] then Some packet
     else do {
       opts \<leftarrow> put_at e ([DHCP_PARAM_REQ, of_nat (length codes)] @ codes @ [DHCP_END]) (pk_options packet);
       Some (packet\<lparr>pk_options := opts\<rparr>) } }"

fun add_send_from :: "(int \<rightharpoonup> u8 list) \<Rightarrow> int list \<Rightarrow> dhcp_packet \<Rightarrow> dhcp_packet option" where
  "add_send_from h [] packet = Some packet"
| "add_send_from h (k # ks) packet = do {
     packet \<leftarrow> (case h k of None \<Rightarrow> Some packet | Some opt \<Rightarrow> dhcp_add_binary_option packet opt);
     add_send_from h ks packet }"

definition add_send_options :: "client_env \<Rightarrow> dhcp_client \<Rightarrow> dhcp_packet \<Rightarrow> dhcp_packet option" where
  "add_send_options env c packet = add_send_from (c_send_value_hash c) (e_order env) packet"

definition dhcp_attempt_secs :: "client_env \<Rightarrow> dhcp_client \<Rightarrow> u16" where
  "dhcp_attempt_secs env c = htons (of_int (min (e_time env - c_start c) 65535))"

definition send_raw :: "client_env \<Rightarrow> dhcp_packet \<Rightarrow> bool \<Rightarrow> dhcp_client \<Rightarrow> dhcp_client" where
  "send_raw env packet bcast c =
     (let (c, n) = c_tick c;
          (ret, packet, sent) = dhcp_send_raw_packet (e_raw env n) packet 0 CLIENT_PORT INADDR_BROADCAST SERVER_PORT
                                  MAC_BCAST_ADDR (c_ifindex c) bcast
      in case sent of None \<Rightarrow> c | Some (frame, mac, i) \<Rightarrow> c_act (Frame frame mac i) c)"

definition send_kernel :: "client_env \<Rightarrow> dhcp_packet \<Rightarrow> u32 \<Rightarrow> u32 \<Rightarrow> dhcp_client \<Rightarrow> dhcp_client" where
  "send_kernel env packet source_ip dest_ip c =
     (let (c, n) = c_tick c;
          (ret, sent) = dhcp_send_kernel_packet (e_kernel env n) packet source_ip CLIENT_PORT dest_ip SERVER_PORT
      in case sent of None \<Rightarrow> c | Some (bs, s, sp, d, dp) \<Rightarrow> c_act (Kernel_packet bs s sp d dp) c)"

definition discover_packet :: "client_env \<Rightarrow> dhcp_client \<Rightarrow> u32 \<Rightarrow> dhcp_packet option" where
  "discover_packet env c requested = do {
     packet \<leftarrow> init_packet4 c DHCPDISCOVER;
     let packet = packet\<lparr>xid := c_xid c, secs := dhcp_attempt_secs env c\<rparr>;
     packet \<leftarrow> (if requested \<noteq> 0 then dhcp_add_option_uint32 packet DHCP_REQUESTED_IP requested else Some packet);
     packet \<leftarrow> dhcp_add_option_uint16 packet DHCP_MAX_SIZE 576;
     packet \<leftarrow> add_request_options c packet;
     add_send_options env c packet }"

definition send_discover :: "client_env \<Rightarrow> u32 \<Rightarrow> dhcp_client \<Rightarrow> dhcp_client option" where
  "send_discover env requested c = do {
     packet \<leftarrow> discover_packet env c requested;
     Some (send_raw env packet (c_retry_times c mod 2 \<noteq> 0) c) }"

definition request_packet :: "client_env \<Rightarrow> dhcp_client \<Rightarrow> dhcp_packet option" where
  "request_packet env c = do {
     packet \<leftarrow> init_packet4 c DHCPREQUEST;
     let packet = packet\<lparr>xid := c_xid c, secs := dhcp_attempt_secs env c\<rparr>;
     packet \<leftarrow> (if c_state c = REQUESTING \<or> c_state c = REBOOTING
                then dhcp_add_option_uint32 packet DHCP_REQUESTED_IP (c_requested_ip c) else Some packet);
     packet \<leftarrow> (if c_state c = REQUESTING
                then dhcp_add_option_uint32 packet DHCP_SERVER_ID (c_server_ip c) else Some packet);
     packet \<leftarrow> dhcp_add_option_uint16 packet DHCP_MAX_SIZE 576;
     packet \<leftarrow> add_request_options c packet;
     packet \<leftarrow> add_send_options env c packet;
     Some (if c_state c = RENEWING \<or> c_state c = REBINDING then packet\<lparr>ciaddr := htonl (c_requested_ip c)\<rparr> else packet) }"

definition send_request :: "client_env \<Rightarrow> dhcp_client \<Rightarrow> dhcp_client option" where
  "send_request env c = do {
     packet \<leftarrow> request_packet env c;
     Some (if c_state c = RENEWING then send_kernel env packet (c_requested_ip c) (c_server_ip c) c
           else send_raw env packet (c_request_bcast c) c) }"

definition send_release :: "client_env \<Rightarrow> u32 \<Rightarrow> u32 \<Rightarrow> dhcp_client \<Rightarrow> dhcp_client option" where
  "send_release env server ciaddr' c = do {
     packet \<leftarrow> init_packet4 c DHCPRELEASE;
     let (c, n) = c_tick c;
     let packet = packet\<lparr>xid := ucast (e_rand env n), ciaddr := htonl ciaddr'\<rparr>;
     packet \<leftarrow> dhcp_add_option_uint32 packet DHCP_SERVER_ID server;
     Some (send_kernel env packet ciaddr' server c) }"

end
