(* ===== verification/DhcpClient6.thy ===== *)
theory DhcpClient6
  imports DhcpClient
begin

text \<open>
  The DHCPv6 messages of the client (\<^verbatim>\<open>gdhcp/client.c\<close>): what it sends, the options the daemon sets, and the
  values it reads from a reply. A message is built in a zeroed buffer from front to back, so it is the list of
  the bytes written so far.
\<close>

section \<open>Options to send\<close>

abbreviation "G_DHCPV6_CLIENTID \<equiv> (1 :: u16)"
abbreviation "G_DHCPV6_SERVERID \<equiv> (2 :: u16)"
abbreviation "G_DHCPV6_IA_NA \<equiv> (3 :: u16)"
abbreviation "G_DHCPV6_IA_TA \<equiv> (4 :: u16)"
abbreviation "G_DHCPV6_IAADDR \<equiv> (5 :: u16)"
abbreviation "G_DHCPV6_ORO \<equiv> (6 :: u16)"
abbreviation "G_DHCPV6_ELAPSED_TIME \<equiv> (8 :: u16)"
abbreviation "G_DHCPV6_STATUS_CODE \<equiv> (13 :: u16)"
abbreviation "G_DHCPV6_RAPID_COMMIT \<equiv> (14 :: u16)"
abbreviation "G_DHCPV6_DNS_SERVERS \<equiv> (23 :: u16)"
abbreviation "G_DHCPV6_DOMAIN_LIST \<equiv> (24 :: u16)"
abbreviation "G_DHCPV6_IA_PD \<equiv> (25 :: u16)"
abbreviation "G_DHCPV6_IA_PREFIX \<equiv> (26 :: u16)"
abbreviation "G_DHCPV6_SNTP_SERVERS \<equiv> (31 :: u16)"

definition copy_option :: "u16 \<Rightarrow> u8 list \<Rightarrow> u8 list" where
  "copy_option code msg = be16_bytes code @ be16_bytes (of_nat (length msg)) @ msg"

definition get_time_diff :: "int \<times> int \<Rightarrow> int \<times> int \<Rightarrow> int" where
  "get_time_diff tm tv =
     (let d = snd tm - snd tv; q = (if d \<ge> 0 then d div 10000 else - (- d div 10000))
      in sint (of_int ((fst tm - fst tv) * 100) + of_int q :: u32))"

definition elapsed_time :: "client_env \<Rightarrow> dhcp_client \<Rightarrow> u16" where
  "elapsed_time env c =
     (if \<not> c_retransmit c then 0
      else let diff = get_time_diff (e_timeofday env) (c_start_time c)
           in if diff < 0 \<or> diff > 0xffff then 0xffff else of_int diff)"

text \<open>The option of one entry of the request list: \<open>None\<close> ends the loop, an empty list adds nothing.\<close>

definition request_option6 :: "client_env \<Rightarrow> dhcp_client \<Rightarrow> u16 \<Rightarrow> u8 list option" where
  "request_option6 env c code =
     (if code = G_DHCPV6_CLIENTID then map_option (copy_option code) (c_duid c)
      else if code = G_DHCPV6_SERVERID then (case c_server_duid c of None \<Rightarrow> Some [] | Some d \<Rightarrow> Some (copy_option code d))
      else if code = G_DHCPV6_RAPID_COMMIT then Some (copy_option code [])
      else if code = G_DHCPV6_ELAPSED_TIME then Some (copy_option code (be16_bytes (elapsed_time env c)))
      else Some [])"

fun add_dhcpv6_request_options :: "client_env \<Rightarrow> dhcp_client \<Rightarrow> nat \<Rightarrow> u32 list \<Rightarrow> u8 list \<Rightarrow> u8 list" where
  "add_dhcpv6_request_options env c max_buf [] msg = msg"
| "add_dhcpv6_request_options env c max_buf (code # codes) msg =
     (case request_option6 env c (ucast code) of
        None \<Rightarrow> msg
      | Some opt \<Rightarrow>
        if opt \<noteq> [] \<and> length msg + length opt > max_buf then msg
        else add_dhcpv6_request_options env c max_buf codes (msg @ opt))"

fun add_dhcpv6_send_options :: "(int \<rightharpoonup> u8 list) \<Rightarrow> nat \<Rightarrow> int list \<Rightarrow> u8 list \<Rightarrow> u8 list option" where
  "add_dhcpv6_send_options h max_buf [] msg = Some msg"
| "add_dhcpv6_send_options h max_buf (k # ks) msg =
     (case h k of
        None \<Rightarrow> add_dhcpv6_send_options h max_buf ks msg
      | Some opt \<Rightarrow> do {
          l \<leftarrow> bytes_at opt 2 2;
          let len = unat (be16_of (l ! 0) (l ! 1));
          if length msg + len + 4 > max_buf then add_dhcpv6_send_options h max_buf ks msg
          else do {
            bs \<leftarrow> bytes_at opt 0 (len + 4);
            add_dhcpv6_send_options h max_buf ks (msg @ bs) } })"

definition g_dhcp_client_set_request :: "u32 \<Rightarrow> dhcp_client \<Rightarrow> dhcp_client" where
  "g_dhcp_client_set_request code c =
     (if code \<in> set (c_request_list c) then c else c\<lparr>c_request_list := code # c_request_list c\<rparr>)"

section \<open>Sending\<close>

abbreviation "MAX_DHCPV6_PKT_SIZE \<equiv> (1500 :: nat)"

definition xid6_bytes :: "u32 \<Rightarrow> u8 list" where
  "xid6_bytes x = [ucast (drop_bit 16 x), ucast (drop_bit 8 x), ucast x]"

definition xid6_of :: "u8 list \<Rightarrow> u32" where
  "xid6_of bs = push_bit 16 (ucast (bs ! 0)) OR push_bit 8 (ucast (bs ! 1)) OR ucast (bs ! 2)"

definition send_dhcpv6_msg :: "client_env \<Rightarrow> u8 \<Rightarrow> dhcp_client \<Rightarrow> dhcp_client option" where
  "send_dhcpv6_msg env type c = do {
     let (c, n) = c_tick c;
     let hdr = dhcpv6_init_header (e_rand env n) type;
     let (c, hdr) = (if \<not> c_retransmit c
                     then (c\<lparr>c_xid := xid6_of (drop 1 hdr), c_start_time := e_timeofday env\<rparr>, hdr)
                     else (c, type # xid6_bytes (c_xid c)));
     let c = g_dhcp_client_set_request (ucast G_DHCPV6_ELAPSED_TIME) c;
     let max_buf = MAX_DHCPV6_PKT_SIZE - 4;
     let msg = add_dhcpv6_request_options env c max_buf (c_request_list c) hdr;
     msg \<leftarrow> add_dhcpv6_send_options (c_send_value_hash c) max_buf (e_order env) msg;
     let (c, n) = c_tick c;
     (ret, sent) \<leftarrow> dhcpv6_send_packet (e_kernel env n) (e_alloc env n) (c_ifindex c) msg (length msg);
     Some (case sent of None \<Rightarrow> c | Some (bs, dst, i) \<Rightarrow> c_act (Packet6 bs dst i) c) }"

section \<open>Settings\<close>

definition alloc_dhcpv6_option :: "u16 \<Rightarrow> u8 list \<Rightarrow> u8 list" where
  "alloc_dhcpv6_option code opt = be16_bytes code @ be16_bytes (of_nat (length opt)) @ opt"

definition g_dhcpv6_client_set_send :: "u16 \<Rightarrow> u8 list option \<Rightarrow> dhcp_client \<Rightarrow> dhcp_client" where
  "g_dhcpv6_client_set_send code value c =
     (case value of
        None \<Rightarrow> c
      | Some v \<Rightarrow>
        let v = take (length v mod 65536) v
        in c\<lparr>c_send_value_hash := (c_send_value_hash c)(uint code \<mapsto> alloc_dhcpv6_option code v)\<rparr>)"

definition g_dhcpv6_client_clear_send :: "u16 \<Rightarrow> dhcp_client \<Rightarrow> dhcp_client" where
  "g_dhcpv6_client_clear_send code c = c\<lparr>c_send_value_hash := (c_send_value_hash c)(uint code := None)\<rparr>"

definition get_interface_mac_address :: "client_env \<Rightarrow> u8 list \<Rightarrow> u8 list" where
  "get_interface_mac_address env old = (case e_mac env of None \<Rightarrow> old | Some m \<Rightarrow> m)"

datatype duid_type = DUID_LLT | DUID_EN | DUID_LL

definition g_dhcpv6_create_duid :: "client_env \<Rightarrow> bool \<Rightarrow> duid_type \<Rightarrow> u8 \<Rightarrow> int + u8 list" where
  "g_dhcpv6_create_duid env alloc dt type =
     (let mac = get_interface_mac_address env (take 6 (e_stale env)) in
      case dt of
        DUID_LLT \<Rightarrow>
          if \<not> alloc then Inl (- ENOMEM)
          else Inr ([0, 1, 0, type] @ put_be32 (of_int (e_time env - 946684800)) @ mac)
      | DUID_EN \<Rightarrow> Inl (- EINVAL)
      | DUID_LL \<Rightarrow> if \<not> alloc then Inl (- ENOMEM) else Inr ([0, 3, 0, type] @ mac))"

definition g_dhcpv6_client_set_duid :: "u8 list \<Rightarrow> dhcp_client \<Rightarrow> dhcp_client \<times> int" where
  "g_dhcpv6_client_set_duid duid c =
     (if c_type c \<noteq> G_DHCP_IPV6 then (c, - EINVAL) else (c\<lparr>c_duid := Some duid\<rparr>, 0))"

definition g_dhcpv6_client_create_iaid :: "client_env \<Rightarrow> dhcp_client \<Rightarrow> dhcp_client \<times> u8 list" where
  "g_dhcpv6_client_create_iaid env c =
     (let buf = get_interface_mac_address env (take 6 (e_stale env)); iaid = take 4 (drop 2 buf)
      in (c\<lparr>c_iaid := push_bit 24 (ucast (iaid ! 0)) OR push_bit 16 (ucast (iaid ! 1)) OR
                      push_bit 8 (ucast (iaid ! 2)) OR ucast (iaid ! 3)\<rparr>, iaid))"

definition g_dhcpv6_client_get_iaid :: "dhcp_client \<Rightarrow> u32" where
  "g_dhcpv6_client_get_iaid c = (if c_type c \<noteq> G_DHCP_IPV6 then 0 else c_iaid c)"

definition g_dhcpv6_client_set_iaid :: "u32 \<Rightarrow> dhcp_client \<Rightarrow> dhcp_client" where
  "g_dhcpv6_client_set_iaid iaid c = (if c_type c \<noteq> G_DHCP_IPV6 then c else c\<lparr>c_iaid := iaid\<rparr>)"

definition put_iaid :: "client_env \<Rightarrow> dhcp_client \<Rightarrow> dhcp_client \<times> u8 list" where
  "put_iaid env c =
     (let iaid = g_dhcpv6_client_get_iaid c in
      if iaid = 0 then g_dhcpv6_client_create_iaid env c else (c, put_be32 iaid))"

definition iaaddr_option :: "u8 list \<Rightarrow> u8 list" where
  "iaaddr_option addr = [0, ucast G_DHCPV6_IAADDR, 0, 24] @ addr @ replicate 8 0"

definition time_bytes :: "u32 option \<Rightarrow> u8 list" where
  "time_bytes t = (case t of None \<Rightarrow> replicate 4 0 | Some t \<Rightarrow> put_be32 t)"

definition g_dhcpv6_client_set_ia ::
  "client_env \<Rightarrow> u16 \<Rightarrow> u32 option \<Rightarrow> u32 option \<Rightarrow> bool \<Rightarrow> string option \<Rightarrow> dhcp_client \<Rightarrow> dhcp_client \<times> int" where
  "g_dhcpv6_client_set_ia env code t1 t2 add_iaaddr ia_na c =
     (if code = G_DHCPV6_IA_TA then
        let (c, iaid) = put_iaid env c;
            c = g_dhcp_client_set_request (ucast code) c
        in (g_dhcpv6_client_set_send code (Some iaid) c, 0)
      else if code = G_DHCPV6_IA_NA then
        let c = g_dhcp_client_set_request (ucast code) c; addr = Option.bind ia_na (e_inet_pton6 env) in
        if add_iaaddr \<and> (ia_na = None \<and> c_ia_na c \<noteq> replicate 16 0 \<or> addr \<noteq> None) then
          let c = (case addr of None \<Rightarrow> c | Some a \<Rightarrow> c\<lparr>c_ia_na := a\<rparr>);
              (c, iaid) = put_iaid env c
          in (g_dhcpv6_client_set_send code (Some (iaid @ time_bytes t1 @ time_bytes t2 @ iaaddr_option (c_ia_na c))) c, 0)
        else
          let (c, iaid) = put_iaid env c
          in (g_dhcpv6_client_set_send code (Some (iaid @ replicate 8 0)) c, 0)
      else (c, - EINVAL))"

fun append_iaaddrs :: "client_env \<Rightarrow> string list \<Rightarrow> u8 list" where
  "append_iaaddrs env [] = []"
| "append_iaaddrs env (a # as) =
     (case e_inet_pton6 env a of None \<Rightarrow> [] | Some addr \<Rightarrow> iaaddr_option addr @ append_iaaddrs env as)"

definition g_dhcpv6_client_set_ias ::
  "client_env \<Rightarrow> u16 \<Rightarrow> u32 option \<Rightarrow> u32 option \<Rightarrow> string list \<Rightarrow> dhcp_client \<Rightarrow> dhcp_client \<times> int" where
  "g_dhcpv6_client_set_ias env code t1 t2 addresses c =
     (if addresses = [] then (c, - EINVAL)
      else
        let c = g_dhcp_client_set_request (ucast code) c in
        if code \<noteq> G_DHCPV6_IA_TA \<and> code \<noteq> G_DHCPV6_IA_NA then (c, - EINVAL)
        else
          let (c, n) = c_tick c in
          if \<not> e_alloc env n then (c, - ENOMEM)
          else
            let (c, iaid) = put_iaid env c;
                times = (if code = G_DHCPV6_IA_NA then time_bytes t1 @ time_bytes t2 else []);
                addrs = append_iaaddrs env addresses;
                pad = replicate (28 * length addresses - length addrs) 0
            in (g_dhcpv6_client_set_send code (Some (iaid @ times @ addrs @ pad)) c, 0))"

definition prefix_option :: "u8 \<times> u8 list \<Rightarrow> u8 list" where
  "prefix_option = (\<lambda>(plen, prefix). copy_option G_DHCPV6_IA_PREFIX (replicate 8 0 @ [plen] @ prefix))"

fun append_prefixes :: "(u8 \<times> u8 list) list \<Rightarrow> u8 list \<Rightarrow> u8 list option" where
  "append_prefixes [] msg = Some msg"
| "append_prefixes (p # ps) msg = (if length msg + 29 \<ge> 1452 then None else append_prefixes ps (msg @ prefix_option p))"

definition g_dhcpv6_client_set_pd ::
  "u32 option \<Rightarrow> u32 option \<Rightarrow> (u8 \<times> u8 list) list \<Rightarrow> dhcp_client \<Rightarrow> dhcp_client \<times> int" where
  "g_dhcpv6_client_set_pd t1 t2 prefixes c =
     (if c_type c \<noteq> G_DHCP_IPV6 then (c, - EINVAL)
      else
        let c = g_dhcp_client_set_request (ucast G_DHCPV6_IA_PD) c in
        case append_prefixes prefixes (put_be32 (c_iaid c) @ time_bytes t1 @ time_bytes t2) of
          None \<Rightarrow> (c, - EINVAL)
        | Some msg \<Rightarrow> (g_dhcpv6_client_set_send G_DHCPV6_IA_PD (Some msg) c, 0))"

definition g_dhcpv6_client_set_oro :: "client_env \<Rightarrow> u16 list \<Rightarrow> dhcp_client \<Rightarrow> dhcp_client \<times> int" where
  "g_dhcpv6_client_set_oro env codes c =
     (let (c, n) = c_tick c in
      if \<not> e_alloc env n then (c, - ENOMEM)
      else (g_dhcpv6_client_set_send G_DHCPV6_ORO (Some (concat (map be16_bytes codes))) c, 0))"

definition g_dhcpv6_client_get_timeouts :: "dhcp_client \<Rightarrow> int + u32 \<times> u32 \<times> int \<times> int" where
  "g_dhcpv6_client_get_timeouts c =
     (if c_type c \<noteq> G_DHCP_IPV6 then Inl (- EINVAL)
      else if c_expire c = 0xffffffff then Inr (0xffffffff, 0xffffffff, c_last_request c, 0xffffffff)
      else Inr (c_T1 c, c_T2 c, c_last_request c, c_last_request c + uint (c_expire c)))"

section \<open>Reading a reply\<close>

text \<open>
  An option that identifies an association: its suboptions are walked in the packet buffer \<open>m\<close> from the data of the option at
  \<open>v\<close>. The bound passed to \<^verbatim>\<open>dhcpv6_get_sub_option\<close> stays the same while the position moves.
\<close>

record ia_acc =
  ia_addr :: "u8 list"
  ia_preferred :: u32
  ia_valid :: u32
  ia_st :: u16
  ia_addrs :: nat
  ia_prefixes :: nat
  ia_shortest :: u32
  ia_list :: "client_value list"

definition add_prefix :: "client_env \<Rightarrow> nat \<Rightarrow> u8 list \<Rightarrow> u8 \<Rightarrow> u32 \<Rightarrow> u32 \<Rightarrow> client_value list \<Rightarrow> client_value list" where
  "add_prefix env n addr plen preferred valid l =
     (if \<not> e_alloc env n then l
      else Prefix \<lparr>px_prefix = addr, px_len = plen, px_preferred = preferred, px_valid = valid,
                   px_expire = e_time env + uint valid\<rparr> # l)"

definition ia_suboption ::
  "client_env \<Rightarrow> u8 list \<Rightarrow> nat \<Rightarrow> u16 \<Rightarrow> ia_acc \<Rightarrow> dhcp_client \<Rightarrow> (ia_acc \<times> dhcp_client) option" where
  "ia_suboption env m p code a c =
     (if code = G_DHCPV6_IAADDR then do {
        addr \<leftarrow> bytes_at m p 16;
        preferred \<leftarrow> get_be32 m (p + 16);
        valid \<leftarrow> get_be32 m (p + 20);
        Some (a\<lparr>ia_addr := addr, ia_preferred := preferred, ia_valid := valid, ia_addrs := Suc (ia_addrs a)\<rparr>, c) }
      else if code = G_DHCPV6_STATUS_CODE then do {
        st \<leftarrow> get_be16 m p;
        Some (a\<lparr>ia_st := st\<rparr>, c\<lparr>c_status_code := st\<rparr>) }
      else if code = G_DHCPV6_IA_PREFIX then do {
        preferred \<leftarrow> get_be32 m p;
        valid \<leftarrow> get_be32 m (p + 4);
        plen \<leftarrow> byte_at m (p + 8);
        addr \<leftarrow> bytes_at m (p + 9) 16;
        let a = a\<lparr>ia_addr := addr, ia_preferred := preferred, ia_valid := valid\<rparr>;
        if preferred < valid then
          let (c, n) = c_tick c
          in Some (a\<lparr>ia_list := add_prefix env n addr plen preferred valid (ia_list a),
                     ia_shortest := (if ia_shortest a > valid then valid else ia_shortest a),
                     ia_prefixes := Suc (ia_prefixes a)\<rparr>, c)
        else Some (a, c) }
      else Some (a, c))"

function ia_loop ::
  "client_env \<Rightarrow> u8 list \<Rightarrow> nat \<Rightarrow> u16 \<Rightarrow> nat \<Rightarrow> nat \<Rightarrow> ia_acc \<Rightarrow> dhcp_client \<Rightarrow> (ia_acc \<times> dhcp_client) option" where
  "ia_loop env m v max_len len pos a c =
     (case dhcpv6_get_sub_option (drop (v + pos) m) max_len of
        None \<Rightarrow> None
      | Some None \<Rightarrow> Some (a, c)
      | Some (Some (off, code, olen)) \<Rightarrow>
        (case ia_suboption env m (v + pos + off) code a c of
           None \<Rightarrow> None
         | Some (a, c) \<Rightarrow>
           if pos + 4 + unat olen < len then ia_loop env m v max_len len (pos + 4 + unat olen) a c
           else Some (a, c)))"
  by pat_completeness auto
termination by (relation "measure (\<lambda>(env, m, v, max_len, len, pos, a, c). len - pos)") auto

declare ia_loop.simps [simp del]

definition ia_finish :: "u16 \<Rightarrow> u32 \<Rightarrow> u32 \<Rightarrow> ia_acc \<Rightarrow> dhcp_client \<Rightarrow> dhcp_client \<times> client_value list" where
  "ia_finish code t1 t2 a c =
     (if ia_addrs a > 0 \<and> ia_st a = 0 \<and> ia_preferred a > ia_valid a then (c, [])
      else
        let (c, l) =
              (if ia_addrs a > 0 \<and> ia_st a = 0
               then (if code = G_DHCPV6_IA_NA
                     then c\<lparr>c_T1 := t1, c_T2 := t2, c_ia_na := ia_addr a, c_expire := ia_valid a\<rparr>
                     else c\<lparr>c_T1 := t1, c_T2 := t2, c_ia_ta := ia_addr a, c_expire := ia_valid a\<rparr>,
                     ia_list a @ [Addr6 (ia_addr a)])
               else (c, ia_list a))
        in if ia_prefixes a > 0 \<and> l \<noteq> [] then (c\<lparr>c_T1 := t1, c_T2 := t2, c_expire := ia_shortest a\<rparr>, rev l) else (c, l))"

definition get_addresses ::
  "client_env \<Rightarrow> u16 \<Rightarrow> nat \<Rightarrow> u8 list \<Rightarrow> nat \<Rightarrow> dhcp_client \<Rightarrow> (dhcp_client \<times> client_value list) option" where
  "get_addresses env code len m v c =
     (if len < 4 then Some (c, [])
      else do {
        iaid \<leftarrow> get_be32 m v;
        if c_iaid c \<noteq> iaid then Some (c, [])
        else do {
          let times = (code = G_DHCPV6_IA_NA \<or> code = G_DHCPV6_IA_PD);
          t1 \<leftarrow> (if times then get_be32 m (v + 4) else Some 0);
          t2 \<leftarrow> (if times then get_be32 m (v + 8) else Some 0);
          let pos = (if times then 12 else 4);
          if t1 > t2 \<or> len \<le> pos then Some (c, [])
          else do {
            (a, c) \<leftarrow> ia_loop env m v (of_nat (len - pos)) len pos
                       \<lparr>ia_addr = [], ia_preferred = 0, ia_valid = 0, ia_st = 0, ia_addrs = 0, ia_prefixes = 0,
                        ia_shortest = 0, ia_list = []\<rparr> c;
            Some (ia_finish code t1 t2 a c) } } })"

text \<open>
  A list of domain names. Each is copied to a buffer of 1026 bytes, of which \<^verbatim>\<open>strncpy\<close> writes 1025; then the lengths
  of its labels are replaced by dots. Reading the last byte of the buffer, or behind it, is a fault.
\<close>

function label_dots :: "u8 list \<Rightarrow> nat \<Rightarrow> (u8 list \<times> nat) option" where
  "label_dots name p =
     (if p < length name then
        if name ! p = 0 then Some (name, p) else label_dots (name[p := 46]) (p + unat (name ! p) + 1)
      else None)"
  by pat_completeness auto
termination by (relation "measure (\<lambda>(name, p). length name - p)") auto

declare label_dots.simps [simp del]

definition chars_of :: "u8 list \<Rightarrow> string" where
  "chars_of bs = map (\<lambda>b. char_of (unat b)) bs"

function get_domains_from :: "u8 list \<Rightarrow> nat \<Rightarrow> nat \<Rightarrow> nat \<Rightarrow> client_value list option" where
  "get_domains_from m v maxlen pos =
     (if pos < maxlen then
        (case cstrn_at m (v + pos) 1025 of
           None \<Rightarrow> None
         | Some s \<Rightarrow>
           (case label_dots (s @ replicate (1025 - length s) 0) 0 of
              None \<Rightarrow> None
            | Some (name, p) \<Rightarrow>
              (case cstr_at name 1 of
                 None \<Rightarrow> None
               | Some d \<Rightarrow> map_option (\<lambda>l. Text (chars_of d) # l) (get_domains_from m v maxlen (pos + p + 1)))))
      else Some [])"
  by pat_completeness auto
termination by (relation "measure (\<lambda>(m, v, maxlen, pos). maxlen - pos)") auto

declare get_domains_from.simps [simp del]

definition get_domains :: "nat \<Rightarrow> u8 list \<Rightarrow> nat \<Rightarrow> client_value list option" where
  "get_domains maxlen m v = (if maxlen < 3 then Some [] else get_domains_from m v maxlen 0)"

fun server_addresses :: "client_env \<Rightarrow> u8 list \<Rightarrow> nat \<Rightarrow> nat \<Rightarrow> dhcp_client \<Rightarrow> (dhcp_client \<times> client_value list) option" where
  "server_addresses env m v 0 c = Some (c, [])"
| "server_addresses env m v (Suc n) c =
     (let (c, i) = c_tick c in
      if \<not> e_alloc env i then Some (c, [])
      else do {
        a \<leftarrow> bytes_at m v 16;
        (c, l) \<leftarrow> server_addresses env m (v + 16) n c;
        Some (c, Addr6 a # l) })"

definition get_dhcpv6_option_value_list ::
  "client_env \<Rightarrow> u16 \<Rightarrow> nat \<Rightarrow> u8 list \<Rightarrow> nat \<Rightarrow> dhcp_client \<Rightarrow> (dhcp_client \<times> client_value list) option" where
  "get_dhcpv6_option_value_list env code len m v c =
     (if code = G_DHCPV6_DNS_SERVERS \<or> code = G_DHCPV6_SNTP_SERVERS then
        if len mod 16 \<noteq> 0 then Some (c, []) else server_addresses env m v (len div 16) c
      else if code = G_DHCPV6_IA_NA \<or> code = G_DHCPV6_IA_TA \<or> code = G_DHCPV6_IA_PD then get_addresses env code len m v c
      else if code = G_DHCPV6_DOMAIN_LIST then map_option (\<lambda>l. (c, l)) (get_domains len m v)
      else Some (c, []))"

definition set_values :: "int \<Rightarrow> client_value list \<Rightarrow> dhcp_client \<Rightarrow> dhcp_client" where
  "set_values code l c =
     c\<lparr>c_code_value_hash := (c_code_value_hash c)(code := (if l = [] then None else Some l))\<rparr>"

fun get_dhcpv6_request :: "client_env \<Rightarrow> u8 list \<Rightarrow> u16 \<Rightarrow> u32 list \<Rightarrow> dhcp_client \<Rightarrow> dhcp_client option" where
  "get_dhcpv6_request env m pkt_len [] c = Some c"
| "get_dhcpv6_request env m pkt_len (x # xs) c = do {
     let code = (ucast x :: u16);
     (found, len, count) \<leftarrow> dhcpv6_get_option m pkt_len (uint code);
     c \<leftarrow> (case (found, len) of
             (Some v, Some l) \<Rightarrow> map_option (\<lambda>(c, l). set_values (uint code) l c)
                                  (get_dhcpv6_option_value_list env code (unat l) m v c)
           | _ \<Rightarrow> Some (set_values (uint code) [] c));
     get_dhcpv6_request env m pkt_len xs c }"

end
