(* ===== verification/DhcpClientRun.thy ===== *)
theory DhcpClientRun
  imports DhcpClient6
begin

text \<open>
  The state machine of the DHCP client (\<^verbatim>\<open>gdhcp/client.c\<close>): receiving, the handlers of the socket and of the timers, the public
  calls, and the steps of the main loop.
\<close>

section \<open>Receiving DHCPv4 packets\<close>

text \<open>The frame is at the start of a zeroed buffer \<open>m\<close> of 656 bytes: IP header, UDP header, packet.\<close>

definition sanity_check :: "u8 list \<Rightarrow> nat \<Rightarrow> bool" where
  "sanity_check m bytes \<longleftrightarrow>
     m ! 9 = IPPROTO_UDP \<and> drop_bit 4 (m ! 0) = 4 \<and> m ! 0 AND 0x0f = 5 \<and> rd16 m 22 = htons CLIENT_PORT \<and>
     ntohs (rd16 m 24) = of_int (int bytes - 20)"

text \<open>
  \<open>stale\<close> is what the packet of the caller holds before the call. The last number is the destination of
  the frame. The length of the data is computed with unsigned numbers, so a total length below that of the headers is a fault.
\<close>

definition dhcp_recv_l2_packet :: "u8 list \<Rightarrow> int + u8 list \<Rightarrow> (int \<times> dhcp_packet \<times> u32) option" where
  "dhcp_recv_l2_packet stale rd =
     (let failed = Some (- 1, dhcp_packet_of_bytes stale, 0) in
      case rd of
        Inl errno \<Rightarrow> failed
      | Inr bs \<Rightarrow>
        let got = take 656 bs; m = got @ replicate (656 - length got) 0; bytes = unat (ntohs (rd16 m 2)) in
        if length got < 28 \<or> length got < bytes \<or> \<not> sanity_check m bytes then failed
        else
          let check = rd16 m 10; m = mem_write 10 [0, 0] m in
          if check \<noteq> dhcp_checksum (take 20 m) then failed
          else
            let m = mem_write 0 (replicate 9 0) m;
                m = mem_write 2 (take 2 (drop 24 m)) m;
                check = rd16 m 26;
                m = mem_write 26 [0, 0] m
            in
            if check \<noteq> 0 \<and> check \<noteq> dhcp_checksum (take bytes m) then failed
            else if bytes < 28 then None
            else
              let packet = dhcp_packet_of_bytes (take (bytes - 28) (drop 28 m) @ drop (bytes - 28) stale) in
              if cookie packet \<noteq> htonl DHCP_MAGIC then Some (- 1, packet, 0)
              else Some (int (bytes - 28), packet, rd32 m 16))"

definition check_package_owner :: "dhcp_client \<Rightarrow> dhcp_packet \<Rightarrow> bool" where
  "check_package_owner c packet \<longleftrightarrow>
     xid packet = c_xid c \<and> hlen packet = 6 \<and> take 6 (chaddr packet) = take 6 (c_mac c)"

definition check_package_owner6 :: "dhcp_client \<Rightarrow> u8 list \<Rightarrow> bool" where
  "check_package_owner6 c m \<longleftrightarrow> xid6_of (drop 1 m) = c_xid c"

text \<open>The four bytes of an option that must be there; a missing option is a null pointer.\<close>

definition option_be32 :: "dhcp_packet \<Rightarrow> u8 \<Rightarrow> u32 option" where
  "option_be32 packet code = do {
     opt \<leftarrow> dhcp_get_option packet (uint code);
     (case opt of Opt_at p \<Rightarrow> get_be32 (dhcp_packet_bytes packet) p | _ \<Rightarrow> None) }"

definition packet_lease :: "dhcp_packet \<Rightarrow> u32 option" where
  "packet_lease packet = do {
     opt \<leftarrow> dhcp_get_option packet (uint DHCP_LEASE_TIME);
     (case opt of
        Opt_NULL \<Rightarrow> Some 3600
      | Opt_oob \<Rightarrow> None
      | Opt_at p \<Rightarrow> map_option (\<lambda>s. if s < 10 then 10 else s) (get_be32 (dhcp_packet_bytes packet) p)) }"

section \<open>Values of options\<close>

function dec_string :: "nat \<Rightarrow> string" where
  "dec_string n = (if n < 10 then [dec_char n] else dec_string (n div 10) @ [dec_char (n mod 10)])"
  by pat_completeness auto
termination by (relation "measure id") auto

declare dec_string.simps [simp del]

definition value_item :: "GDHCPOptionType \<Rightarrow> u8 list \<Rightarrow> string" where
  "value_item type bs =
     (if type = OPTION_IP then inet_ntoa (le32_of (bs ! 0) (bs ! 1) (bs ! 2) (bs ! 3))
      else if type = OPTION_U16 then dec_string (unat (be16_of (bs ! 0) (bs ! 1)))
      else if type = OPTION_U32 then dec_string (unat (ntohl (le32_of (bs ! 0) (bs ! 1) (bs ! 2) (bs ! 3))))
      else [])"

function value_string :: "GDHCPOptionType \<Rightarrow> nat \<Rightarrow> u8 list \<Rightarrow> string" where
  "value_string type optlen bs =
     (if optlen = 0 \<or> length bs < optlen then []
      else
        value_item type bs @
        (if drop optlen bs = [] then [] else CHR '' '' # value_string type optlen (drop optlen bs)))"
  by pat_completeness auto
termination by (relation "measure (\<lambda>(type, optlen, bs). length bs)") auto

declare value_string.simps [simp del]

text \<open>
  \<open>Some None\<close> is a null result. With fewer bytes than one value has, or with a single value of one byte, nothing is
  written to the new buffer, and reading it is a fault.
\<close>

definition malloc_option_value_string :: "u8 list \<Rightarrow> nat \<Rightarrow> GDHCPOptionType \<Rightarrow> string option option" where
  "malloc_option_value_string m p type =
     (let type = type AND OPTION_TYPE_MASK; optlen = unat (dhcp_option_lengths ! unat type) in
      if optlen = 0 then Some None
      else do {
        len \<leftarrow> byte_at m (p - 1);
        bs \<leftarrow> bytes_at m p (unat len);
        if unat len < optlen \<or> type = OPTION_U8 \<and> len = 1 then None
        else if type = OPTION_STRING then Some (Some (chars_of bs))
        else Some (Some (value_string type optlen bs)) })"

fun split_spaces :: "string \<Rightarrow> string \<Rightarrow> string list" where
  "split_spaces acc [] = [acc]"
| "split_spaces acc (ch # s) = (if ch = CHR '' '' then acc # split_spaces [] s else split_spaces (acc @ [ch]) s)"

definition get_option_value_list :: "string option \<Rightarrow> GDHCPOptionType \<Rightarrow> client_value list" where
  "get_option_value_list value type =
     (case value of
        None \<Rightarrow> []
      | Some s \<Rightarrow>
        let s = takeWhile (\<lambda>ch. ch \<noteq> CHR 0x00) s in
        if type = OPTION_STRING then [Text s] else map Text (split_spaces [] s))"

fun get_request :: "dhcp_packet \<Rightarrow> u32 list \<Rightarrow> dhcp_client \<Rightarrow> dhcp_client option" where
  "get_request packet [] c = Some c"
| "get_request packet (x # xs) c = do {
     let code = (ucast x :: u8);
     opt \<leftarrow> dhcp_get_option packet (uint code);
     c \<leftarrow> (case opt of
             Opt_oob \<Rightarrow> None
           | Opt_NULL \<Rightarrow> Some (set_values (uint code) [] c)
           | Opt_at p \<Rightarrow> do {
               let type = dhcp_get_code_type code;
               v \<leftarrow> malloc_option_value_string (dhcp_packet_bytes packet) p type;
               Some (set_values (uint code) (get_option_value_list v type) c) });
     get_request packet xs c }"

section \<open>Link-local configuration\<close>

definition draw_ip :: "client_env \<Rightarrow> dhcp_client \<Rightarrow> dhcp_client option" where
  "draw_ip env c = do {
     (ip, n) \<leftarrow> ipv4ll_random_ip (e_rand env) (c_next c);
     Some (c\<lparr>c_requested_ip := ip, c_next := n\<rparr>) }"

definition draw_delay :: "client_env \<Rightarrow> u32 \<Rightarrow> dhcp_client \<Rightarrow> dhcp_client \<times> u32" where
  "draw_delay env secs' c = (let (c, n) = c_tick c in (c, ipv4ll_random_delay_ms (e_rand env n) secs'))"

definition send_arp :: "client_env \<Rightarrow> u32 \<Rightarrow> u32 \<Rightarrow> dhcp_client \<Rightarrow> dhcp_client" where
  "send_arp env source_ip target_ip c =
     (let (c, n) = c_tick c;
          (ret, sent) = ipv4ll_send_arp_packet (e_raw env n) (c_mac c) source_ip target_ip (c_ifindex c)
      in case sent of None \<Rightarrow> c | Some (bs, i) \<Rightarrow> c_act (Arp bs i) c)"

definition ipv4ll_start :: "client_env \<Rightarrow> dhcp_client \<Rightarrow> dhcp_client option" where
  "ipv4ll_start env c = do {
     let c = fst (switch_listening_mode env L_NONE (remove_timeouts c));
     c \<leftarrow> draw_ip env (c\<lparr>c_retry_times := 0, c_requested_ip := 0\<rparr>);
     let (c, t) = draw_delay env PROBE_WAIT c;
     Some (set_timeout Send_probe (Millis t) (c\<lparr>c_retry_times := c_retry_times c + 1\<rparr>)) }"

definition ipv4ll_stop :: "client_env \<Rightarrow> dhcp_client \<Rightarrow> dhcp_client" where
  "ipv4ll_stop env c =
     (let c = remove_timeouts (fst (switch_listening_mode env L_NONE c));
          c = (remove_nonzero (c_listener_watch c) c)\<lparr>c_listener_watch := 0\<rparr>
      in c\<lparr>c_state := IPV4LL_PROBE, c_retry_times := 0, c_requested_ip := 0, c_assigned_ip := None\<rparr>)"

definition send_probe_packet :: "client_env \<Rightarrow> dhcp_client \<Rightarrow> dhcp_client option" where
  "send_probe_packet env c = do {
     c \<leftarrow> (if c_requested_ip c = 0 then draw_ip env c else Some c);
     let c = (if c_retry_times c = 1 then fst (switch_listening_mode env L_ARP (c\<lparr>c_state := IPV4LL_PROBE\<rparr>)) else c);
     let c = send_arp env 0 (c_requested_ip c) c;
     let (c, t) = (if c_retry_times c < PROBE_NUM
                   then let (c, t) = draw_delay env (PROBE_MAX - PROBE_MIN) c in (c, t + PROBE_MIN * 1000)
                   else (c, ANNOUNCE_WAIT * 1000));
     Some (set_timeout Probe_timeout (Millis t) c) }"

definition send_announce_packet :: "client_env \<Rightarrow> dhcp_client \<Rightarrow> dhcp_client" where
  "send_announce_packet env c =
     (let c = remove_timeouts (send_arp env (c_requested_ip c) (c_requested_ip c) c) in
      if c_state c = IPV4LL_DEFEND then set_timeout Defend_timeout (Seconds DEFEND_INTERVAL) c
      else set_timeout Announce_timeout (Seconds ANNOUNCE_INTERVAL) c)"

definition ipv4ll_recv_arp_packet :: "client_env \<Rightarrow> int + u8 list \<Rightarrow> dhcp_client \<Rightarrow> dhcp_client" where
  "ipv4ll_recv_arp_packet env rd c =
     (case rd of
        Inl errno \<Rightarrow> c
      | Inr bs \<Rightarrow>
        let got = take 28 bs; arp = got @ replicate (28 - length got) 0;
            ip_requested = put_be32 (c_requested_ip c);
            source_conflict = (take 4 (drop 14 arp) = ip_requested);
            target_conflict = (take 4 (drop 24 arp) = ip_requested)
        in
        if rd16 arp 6 \<noteq> htons 2 \<and> rd16 arp 6 \<noteq> htons 1 then c
        else if \<not> source_conflict \<and> \<not> target_conflict then c
        else
          let c = c\<lparr>c_conflicts := c_conflicts c + 1\<rparr> in
          if c_state c = IPV4LL_MONITOR then
            if \<not> source_conflict then c else send_announce_packet env (c\<lparr>c_state := IPV4LL_DEFEND\<rparr>)
          else if c_state c = IPV4LL_DEFEND \<and> \<not> source_conflict then c
          else
            let c = (if c_state c = IPV4LL_DEFEND then c_event EVENT_IPV4LL_LOST c else c);
                c = ipv4ll_stop env c
            in
            if c_conflicts c < MAX_CONFLICTS then
              let (c, t) = draw_delay env PROBE_WAIT (c\<lparr>c_retry_times := c_retry_times c + 1\<rparr>)
              in set_timeout Send_probe (Millis t) c
            else c_event EVENT_NO_LEASE c)"

definition ipv4ll_defend_timeout :: "dhcp_client \<Rightarrow> dhcp_client" where
  "ipv4ll_defend_timeout c = c\<lparr>c_conflicts := 0, c_state := IPV4LL_MONITOR\<rparr>"

definition ipv4ll_announce_timeout :: "client_env \<Rightarrow> dhcp_client \<Rightarrow> dhcp_client" where
  "ipv4ll_announce_timeout env c =
     (if c_retry_times c \<noteq> ANNOUNCE_NUM then send_announce_packet env (c\<lparr>c_retry_times := c_retry_times c + 1\<rparr>)
      else
        let c = c\<lparr>c_state := IPV4LL_MONITOR, c_assigned_ip := Some (inet_ntoa (htonl (c_requested_ip c)))\<rparr>
        in (c_event EVENT_IPV4LL_AVAILABLE c)\<lparr>c_conflicts := 0, c_timeout := 0\<rparr>)"

definition ipv4ll_probe_timeout :: "client_env \<Rightarrow> dhcp_client \<Rightarrow> dhcp_client option" where
  "ipv4ll_probe_timeout env c =
     (if c_retry_times c = PROBE_NUM
      then Some (send_announce_packet env (c\<lparr>c_state := IPV4LL_ANNOUNCE, c_retry_times := 1\<rparr>))
      else send_probe_packet env (c\<lparr>c_retry_times := c_retry_times c + 1\<rparr>))"

section \<open>Starting and restarting\<close>

abbreviation "DISCOVER_TIMEOUT \<equiv> (5 :: u32)"
abbreviation "DISCOVER_RETRIES \<equiv> (6 :: u8)"
abbreviation "REQUEST_TIMEOUT \<equiv> (5 :: u32)"
abbreviation "REQUEST_RETRIES \<equiv> (3 :: u8)"

definition start_request :: "client_env \<Rightarrow> dhcp_client \<Rightarrow> dhcp_client option" where
  "start_request env c =
     (if c_retry_times c = REQUEST_RETRIES then Some (c_event EVENT_NO_LEASE c)
      else do {
        let c = (if c_retry_times c = 0 then fst (switch_listening_mode env L2 (c\<lparr>c_state := REQUESTING\<rparr>)) else c);
        c \<leftarrow> send_request env c;
        Some (set_timeout Request_timeout (Seconds REQUEST_TIMEOUT) c) })"

definition client_request_timeout :: "client_env \<Rightarrow> dhcp_client \<Rightarrow> dhcp_client option" where
  "client_request_timeout env c = start_request env (c\<lparr>c_retry_times := c_retry_times c + 1\<rparr>)"

text \<open>The message of a DHCPv6 client depends on which event function is registered.\<close>

definition start6_with :: "client_env \<Rightarrow> client_state \<Rightarrow> u8 \<Rightarrow> dhcp_client \<Rightarrow> (dhcp_client \<times> int) option" where
  "start6_with env st type c =
     (let (c, re) = switch_listening_mode env L3 (c\<lparr>c_state := st\<rparr>) in
      if re \<noteq> 0 then Some ((fst (switch_listening_mode env L_NONE c))\<lparr>c_state := INIT_SELECTING\<rparr>, re)
      else map_option (\<lambda>c. (c, 0)) (send_dhcpv6_msg env type c))"

definition start6 :: "client_env \<Rightarrow> dhcp_client \<Rightarrow> (dhcp_client \<times> int) option" where
  "start6 env c =
     (if c_cb c EVENT_INFORMATION_REQ then start6_with env INFORMATION_REQ 11 c
      else if c_cb c EVENT_SOLICITATION then start6_with env SOLICITATION 1 c
      else if c_cb c EVENT_REQUEST then start6_with env REQUEST 3 c
      else if c_cb c EVENT_CONFIRM then start6_with env CONFIRM 4 c
      else if c_cb c EVENT_RENEW then start6_with env RENEW 5 c
      else if c_cb c EVENT_REBIND then start6_with env REBIND 6 c
      else if c_cb c EVENT_RELEASE then start6_with env RENEW 8 c
      else if c_cb c EVENT_DECLINE then start6_with env DECLINE 9 c
      else Some (c, 0))"

definition start_address :: "string option \<Rightarrow> u32" where
  "start_address last_address =
     (case last_address of
        None \<Rightarrow> 0
      | Some s \<Rightarrow>
        let addr = ntohl (inet_addr s) in
        if addr = 0xffffffff \<or> addr AND LINKLOCAL_ADDR = LINKLOCAL_ADDR then 0 else addr)"

text \<open>The first attempt opens the socket and chooses the transaction identifier.\<close>

definition first_attempt :: "client_env \<Rightarrow> dhcp_client \<Rightarrow> dhcp_client \<times> int" where
  "first_attempt env c =
     (if c_retry_times c \<noteq> 0 then (c, 0)
      else
        let (c, re) = switch_listening_mode env L2 (c\<lparr>c_assigned_ip := None, c_state := INIT_SELECTING\<rparr>) in
        if re \<noteq> 0 then (c, re)
        else let (c, n) = c_tick c in (c\<lparr>c_xid := ucast (e_rand env n), c_start := e_time env\<rparr>, 0))"

definition start4 :: "client_env \<Rightarrow> string option \<Rightarrow> dhcp_client \<Rightarrow> (dhcp_client \<times> int) option" where
  "start4 env last_address c =
     (let addr = start_address last_address in
      if addr \<noteq> 0 then do {
        c \<leftarrow> send_request env (c\<lparr>c_last_address := last_address, c_requested_ip := addr, c_state := REBOOTING\<rparr>);
        Some (set_timeout Reboot_timeout (Seconds REQUEST_TIMEOUT) c, 0) }
      else do {
        let c = (case last_address of
                   None \<Rightarrow> c
                 | Some s \<Rightarrow> if ntohl (inet_addr s) = 0 then c\<lparr>c_last_address := last_address\<rparr> else c);
        c \<leftarrow> send_discover env addr c;
        Some (set_timeout Discover_timeout (Seconds DISCOVER_TIMEOUT) c, 0) })"

definition g_dhcp_client_start :: "client_env \<Rightarrow> string option \<Rightarrow> dhcp_client \<Rightarrow> (dhcp_client \<times> int) option" where
  "g_dhcp_client_start env last_address c =
     (let c = remove_timeouts c in
      case c_type c of
        G_DHCP_IPV6 \<Rightarrow> start6 env c
      | G_DHCP_IPV4LL \<Rightarrow> map_option (\<lambda>c. (c, 0)) (ipv4ll_start env (c\<lparr>c_state := INIT_SELECTING\<rparr>))
      | G_DHCP_IPV4 \<Rightarrow>
        if c_retry_times c = DISCOVER_RETRIES then Some ((c_event EVENT_NO_LEASE c)\<lparr>c_retry_times := 0\<rparr>, 0)
        else
          let (c, re) = first_attempt env c in
          if re \<noteq> 0 then Some (c, re) else start4 env last_address c)"

definition start_only :: "client_env \<Rightarrow> string option \<Rightarrow> dhcp_client \<Rightarrow> dhcp_client option" where
  "start_only env last_address c = map_option fst (g_dhcp_client_start env last_address c)"

definition discover_timeout :: "client_env \<Rightarrow> dhcp_client \<Rightarrow> dhcp_client option" where
  "discover_timeout env c = start_only env None (c\<lparr>c_retry_times := c_retry_times c + 1\<rparr>)"

definition reboot_timeout :: "client_env \<Rightarrow> dhcp_client \<Rightarrow> dhcp_client option" where
  "reboot_timeout env c = start_only env None (c\<lparr>c_retry_times := 0, c_requested_ip := 0, c_state := INIT_SELECTING\<rparr>)"

definition restart_dhcp :: "client_env \<Rightarrow> u8 \<Rightarrow> dhcp_client \<Rightarrow> dhcp_client option" where
  "restart_dhcp env retry c =
     (let c = (remove_timeouts c)\<lparr>c_retry_times := retry, c_requested_ip := 0, c_state := INIT_SELECTING\<rparr>;
          c = fst (switch_listening_mode env L2 c)
      in start_only env (c_last_address c) c)"

definition restart_dhcp_timeout :: "client_env \<Rightarrow> dhcp_client \<Rightarrow> dhcp_client option" where
  "restart_dhcp_timeout env c =
     (if c_state c = REBOOTING then restart_dhcp env 0 (c\<lparr>c_last_address := None\<rparr>)
      else let c = c\<lparr>c_ack_retry_times := c_ack_retry_times c + 1\<rparr> in restart_dhcp env (c_ack_retry_times c) c)"

section \<open>The lease\<close>

definition start_expire :: "client_env \<Rightarrow> dhcp_client \<Rightarrow> dhcp_client option" where
  "start_expire env c = map_option (c_event EVENT_LEASE_LOST) (restart_dhcp env 0 (remove_timeouts c))"

text \<open>The next try after half of the remaining time, give or take a second. The product wraps at 32 bits.\<close>

definition retry_delay :: "client_env \<Rightarrow> nat \<Rightarrow> u32 \<Rightarrow> delay" where
  "retry_delay env n t = Millis (t * 1000 + ucast (e_rand env n mod 2000) - 1000)"

definition continue_rebound :: "client_env \<Rightarrow> dhcp_client \<Rightarrow> dhcp_client option" where
  "continue_rebound env c = do {
     c \<leftarrow> send_request env (fst (switch_listening_mode env L2 c));
     let c = remove_nonzero (c_t2_timeout c) c;
     let c = c\<lparr>c_T2 := drop_bit 1 (c_T2 c)\<rparr>;
     Some (if c_T2 c > 60 then
             let (c, n) = c_tick c; (c, s) = c_add_source Continue_rebound (retry_delay env n (c_T2 c)) c
             in c\<lparr>c_t2_timeout := s\<rparr>
           else c) }"

definition start_rebound :: "client_env \<Rightarrow> dhcp_client \<Rightarrow> dhcp_client option" where
  "start_rebound env c =
     (let c = remove_nonzero (c_t1_timeout c) c
      in continue_rebound env (c\<lparr>c_state := REBINDING, c_T2 := c_expire c - c_T2 c\<rparr>))"

definition continue_renew :: "client_env \<Rightarrow> dhcp_client \<Rightarrow> dhcp_client option" where
  "continue_renew env c = do {
     c \<leftarrow> send_request env (fst (switch_listening_mode env L3 c));
     let c = remove_nonzero (c_t1_timeout c) c;
     let c = c\<lparr>c_t1_timeout := 0, c_T1 := drop_bit 1 (c_T1 c)\<rparr>;
     Some (if c_T1 c > 60 then
             let (c, n) = c_tick c; (c, s) = c_add_source Continue_renew (retry_delay env n (c_T1 c)) c
             in c\<lparr>c_t1_timeout := s\<rparr>
           else c) }"

definition start_renew :: "client_env \<Rightarrow> dhcp_client \<Rightarrow> dhcp_client option" where
  "start_renew env c = continue_renew env (c\<lparr>c_state := RENEWING, c_T1 := c_T2 c - c_T1 c\<rparr>)"

text \<open>The second time is \<^verbatim>\<open>lease_seconds * 0.875\<close>, which is exact before it is truncated.\<close>

definition start_bound :: "dhcp_client \<Rightarrow> dhcp_client" where
  "start_bound c =
     (let c = remove_timeouts (c\<lparr>c_state := BOUND\<rparr>);
          c = c\<lparr>c_T1 := drop_bit 1 (c_lease_seconds c), c_T2 := of_nat (unat (c_lease_seconds c) * 7 div 8),
                c_expire := c_lease_seconds c\<rparr>;
          (c, n1) = c_add_source Start_renew (Seconds (c_T1 c)) c;
          (c, n2) = c_add_source Start_rebound (Seconds (c_T2 c)) c;
          (c, n3) = c_add_source Start_expire (Seconds (c_expire c)) c
      in c\<lparr>c_t1_timeout := n1, c_t2_timeout := n2, c_lease_timeout := n3\<rparr>)"

section \<open>The listener\<close>

text \<open>The reply to a REQUEST: an ACK binds the address, a NAK starts again after three seconds.\<close>

definition handle_ack :: "client_env \<Rightarrow> dhcp_packet \<Rightarrow> dhcp_client \<Rightarrow> dhcp_client option" where
  "handle_ack env packet c = do {
     let c = remove_timeouts (c\<lparr>c_retry_times := 0\<rparr>);
     lease \<leftarrow> packet_lease packet;
     c \<leftarrow> get_request packet (c_request_list c) (c\<lparr>c_lease_seconds := lease\<rparr>);
     let c = (fst (switch_listening_mode env L_NONE c))\<lparr>c_assigned_ip := Some (inet_ntoa (yiaddr packet))\<rparr>;
     c \<leftarrow> (if c_state c = REBOOTING then map_option (\<lambda>ip. c\<lparr>c_server_ip := ip\<rparr>) (option_be32 packet DHCP_SERVER_ID) else Some c);
     Some (start_bound (c_event EVENT_LEASE_AVAILABLE c)) }"

definition handle_reply :: "client_env \<Rightarrow> dhcp_packet \<Rightarrow> u8 \<Rightarrow> dhcp_client \<Rightarrow> dhcp_client option" where
  "handle_reply env packet mtype c =
     (if mtype = DHCPACK then handle_ack env packet c
      else if mtype = DHCPNAK
      then Some (set_timeout Restart_dhcp_timeout (Seconds 3) (remove_timeouts (c\<lparr>c_retry_times := 0\<rparr>)))
      else Some c)"

definition handle_offer :: "client_env \<Rightarrow> dhcp_packet \<Rightarrow> u32 \<Rightarrow> dhcp_client \<Rightarrow> dhcp_client option" where
  "handle_offer env packet dst c = do {
     let c = (remove_timeouts c)\<lparr>c_timeout := 0, c_retry_times := 0\<rparr>;
     server \<leftarrow> option_be32 packet DHCP_SERVER_ID;
     start_request env (c\<lparr>c_server_ip := server, c_requested_ip := ntohl (yiaddr packet), c_state := REQUESTING,
                          c_request_bcast := (dst = INADDR_BROADCAST)\<rparr>) }"

text \<open>A DHCPv4 packet with its message type, in the states of the two protocols.\<close>

definition handle_packet4 :: "client_env \<Rightarrow> dhcp_packet \<Rightarrow> u32 \<Rightarrow> u8 \<Rightarrow> dhcp_client \<Rightarrow> dhcp_client option" where
  "handle_packet4 env packet dst mtype c =
     (case c_state c of
        INIT_SELECTING \<Rightarrow> if mtype \<noteq> DHCPOFFER then Some c else handle_offer env packet dst c
      | REBOOTING \<Rightarrow> handle_reply env packet mtype (c\<lparr>c_request_bcast := (dst = INADDR_BROADCAST)\<rparr>)
      | REQUESTING \<Rightarrow> handle_reply env packet mtype c
      | RENEWING \<Rightarrow> handle_reply env packet mtype c
      | REBINDING \<Rightarrow> handle_reply env packet mtype c
      | _ \<Rightarrow> Some c)"

definition receive4 :: "client_env \<Rightarrow> int \<times> dhcp_packet \<times> u32 \<Rightarrow> dhcp_client \<Rightarrow> dhcp_client option" where
  "receive4 env = (\<lambda>(re, packet, dst) c.
     if re < 0 \<or> \<not> check_package_owner c packet then Some c
     else do {
       opt \<leftarrow> dhcp_get_option packet (uint DHCP_MESSAGE_TYPE);
       (case opt of
          Opt_NULL \<Rightarrow> Some c
        | Opt_oob \<Rightarrow> None
        | Opt_at p \<Rightarrow> do {
            mtype \<leftarrow> byte_at (dhcp_packet_bytes packet) p;
            handle_packet4 env packet dst mtype c }) })"

abbreviation "DHCPV6_ADVERTISE \<equiv> (2 :: u8)"
abbreviation "DHCPV6_REPLY \<equiv> (7 :: u8)"

text \<open>Keeping the identifier of the server: \<open>False\<close> when there is no memory for it.\<close>

definition keep_server_duid :: "client_env \<Rightarrow> u8 list \<Rightarrow> nat \<Rightarrow> u16 \<Rightarrow> dhcp_client \<Rightarrow> (dhcp_client \<times> bool) option" where
  "keep_server_duid env m p len c =
     (let (c, n) = c_tick c in
      if len = 0 \<or> \<not> e_alloc env n then Some (c\<lparr>c_server_duid := None\<rparr>, False)
      else do {
        d \<leftarrow> bytes_at m p (unat len);
        Some (c\<lparr>c_server_duid := Some d, c_server_duid_len := unat len\<rparr>, True) })"

definition is_rapid_commit :: "v6_found \<Rightarrow> bool" where
  "is_rapid_commit = (\<lambda>(p, len, count). p \<noteq> None \<and> len = Some 0 \<and> count = 1)"

definition handle_solicitation :: "client_env \<Rightarrow> u8 list \<Rightarrow> u16 \<Rightarrow> dhcp_client \<Rightarrow> dhcp_client option" where
  "handle_solicitation env m pkt_len c =
     (if m ! 0 \<noteq> DHCPV6_REPLY \<and> m ! 0 \<noteq> DHCPV6_ADVERTISE then Some c
      else do {
        found \<leftarrow> dhcpv6_get_option m pkt_len (uint G_DHCPV6_SERVERID);
        (case found of
           (Some p, Some len, count) \<Rightarrow>
             if count \<noteq> 1 \<or> len = 0 then Some c
             else do {
               (c, ok) \<leftarrow> keep_server_duid env m p len c;
               rapid \<leftarrow> (if ok \<and> m ! 0 = DHCPV6_REPLY then map_option is_rapid_commit (dhcpv6_get_option m pkt_len (uint G_DHCPV6_RAPID_COMMIT))
                        else Some True);
               if \<not> ok \<or> \<not> rapid then Some c
               else do {
                 let c = fst (switch_listening_mode env L_NONE c);
                 c \<leftarrow> (if c_status_code c = 0 then get_dhcpv6_request env m pkt_len (c_request_list c) c else Some c);
                 Some (if m ! 0 = DHCPV6_ADVERTISE then c_event EVENT_ADVERTISE c else c_event EVENT_SOLICITATION c) } }
         | _ \<Rightarrow> Some c) })"

definition first_event :: "dhcp_client \<Rightarrow> client_event option" where
  "first_event c = List.find (c_cb c)
     [EVENT_INFORMATION_REQ, EVENT_REQUEST, EVENT_RENEW, EVENT_REBIND, EVENT_RELEASE, EVENT_DECLINE, EVENT_CONFIRM]"

definition handle_reply6 :: "client_env \<Rightarrow> u8 list \<Rightarrow> u16 \<Rightarrow> dhcp_client \<Rightarrow> dhcp_client option" where
  "handle_reply6 env m pkt_len c =
     (if m ! 0 \<noteq> DHCPV6_REPLY then Some c
      else do {
        found \<leftarrow> dhcpv6_get_option m pkt_len (uint G_DHCPV6_SERVERID);
        (case found of
           (Some p, Some len, count) \<Rightarrow> do {
             same \<leftarrow> (if count \<noteq> 1 \<or> len = 0 \<or> c_server_duid_len c = 0 then Some True
                      else do {
                        d \<leftarrow> c_server_duid c;
                        bs \<leftarrow> bytes_at m p (c_server_duid_len c);
                        Some (d = bs) });
             if count \<noteq> 1 \<or> len = 0 \<or> \<not> same then Some c
             else do {
               c \<leftarrow> get_dhcpv6_request env m pkt_len (c_request_list c) (fst (switch_listening_mode env L_NONE c));
               (case first_event c of
                  None \<Rightarrow> Some c
                | Some e \<Rightarrow>
                  if e = EVENT_CONFIRM then do {
                    (c, ok) \<leftarrow> keep_server_duid env m p len c;
                    Some (if ok then c_event e c else c) }
                  else Some (c_event e c)) } }
         | _ \<Rightarrow> Some c) })"

definition handle_rebind6 :: "client_env \<Rightarrow> u8 list \<Rightarrow> u16 \<Rightarrow> dhcp_client \<Rightarrow> dhcp_client option" where
  "handle_rebind6 env m pkt_len c = do {
     found \<leftarrow> dhcpv6_get_option m pkt_len (uint G_DHCPV6_SERVERID);
     (case found of
        (Some p, Some len, count) \<Rightarrow>
          if c_server_duid c = None \<and> count = 1 then do {
            (c, ok) \<leftarrow> keep_server_duid env m p len c;
            if ok then handle_reply6 env m pkt_len c else Some c }
          else handle_reply6 env m pkt_len c
      | _ \<Rightarrow> handle_reply6 env m pkt_len c) }"

text \<open>In a state of DHCPv4 the message type of a DHCPv6 packet is read through a null pointer.\<close>

definition handle_packet6 :: "client_env \<Rightarrow> u8 list \<Rightarrow> u16 \<Rightarrow> dhcp_client \<Rightarrow> dhcp_client option" where
  "handle_packet6 env m pkt_len c =
     (if c_state c \<in> {INIT_SELECTING, REBOOTING, REQUESTING, RENEWING, REBINDING} then None
      else if c_state c = SOLICITATION then handle_solicitation env m pkt_len c
      else if c_state c = REBIND then handle_rebind6 env m pkt_len c
      else if c_state c \<in> {INFORMATION_REQ, REQUEST, RENEW, RELEASE, CONFIRM, DECLINE} then handle_reply6 env m pkt_len c
      else Some c)"

definition own_duid :: "u8 list \<Rightarrow> u16 \<Rightarrow> dhcp_client \<Rightarrow> bool option" where
  "own_duid m pkt_len c = do {
     found \<leftarrow> dhcpv6_get_option m pkt_len (uint G_DHCPV6_CLIENTID);
     (case found of
        (Some p, Some len, count) \<Rightarrow>
          if count = 0 \<or> len = 0 then Some False
          else (case c_duid c of
                  None \<Rightarrow> Some True
                | Some d \<Rightarrow> map_option (\<lambda>bs. d = bs) (bytes_at m p (length d)))
      | _ \<Rightarrow> Some False) }"

definition read_status :: "u8 list \<Rightarrow> u16 \<Rightarrow> dhcp_client \<Rightarrow> dhcp_client option" where
  "read_status m pkt_len c = do {
     found \<leftarrow> dhcpv6_get_option m pkt_len (uint G_DHCPV6_STATUS_CODE);
     (case found of
        (Some p, Some len, count) \<Rightarrow> if len > 0 then map_option (\<lambda>st. c\<lparr>c_status_code := st\<rparr>) (get_be16 m p) else Some c
      | _ \<Rightarrow> Some c) }"

text \<open>After a failed read the packet is still a null pointer when its identifier is read.\<close>

definition receive6 :: "client_env \<Rightarrow> int + u8 list \<Rightarrow> dhcp_client \<Rightarrow> dhcp_client option" where
  "receive6 env rd c =
     (case dhcpv6_recv_l3_packet (take MAX_DHCPV6_PKT_SIZE (e_stale env)) rd of
        (re, None) \<Rightarrow> None
      | (re, Some m) \<Rightarrow>
        if \<not> check_package_owner6 c m then Some c
        else do {
          let pkt_len = of_int re;
          own \<leftarrow> own_duid m pkt_len c;
          if \<not> own then Some c
          else do {
            c \<leftarrow> read_status m pkt_len c;
            handle_packet6 env m pkt_len c } })"

text \<open>The handler of the socket, with \<open>bad\<close> for an error condition of the channel; the result says whether the source stays.\<close>

definition client_listener_event :: "client_env \<Rightarrow> bool \<Rightarrow> int + u8 list \<Rightarrow> dhcp_client \<Rightarrow> (dhcp_client \<times> bool) option" where
  "client_listener_event env bad rd c =
     (if bad then Some (c\<lparr>c_listener_watch := 0\<rparr>, False)
      else
        let c0 = c; c = c\<lparr>c_status_code := 0\<rparr> in
        case c_listen_mode c of
          L_NONE \<Rightarrow> Some (c0, False)
        | L2 \<Rightarrow> do {
            r \<leftarrow> dhcp_recv_l2_packet (take PACKET_SIZE (e_stale env)) rd;
            c \<leftarrow> (if c_type c = G_DHCP_IPV6 then Some c else receive4 env r c);
            Some (c, True) }
        | L3 \<Rightarrow> do {
            c \<leftarrow> (if c_type c = G_DHCP_IPV6 then receive6 env rd c
                   else let (re, packet) = dhcp_recv_l3_packet rd in receive4 env (re, packet, 0) c);
            Some (c, True) }
        | L_ARP \<Rightarrow> Some (ipv4ll_recv_arp_packet env rd c, True))"

section \<open>Calls of the daemon\<close>

datatype GDHCPClientError =
    G_DHCP_CLIENT_ERROR_NONE | G_DHCP_CLIENT_ERROR_INTERFACE_UNAVAILABLE | G_DHCP_CLIENT_ERROR_INTERFACE_IN_USE
  | G_DHCP_CLIENT_ERROR_INTERFACE_DOWN | G_DHCP_CLIENT_ERROR_NOMEM | G_DHCP_CLIENT_ERROR_INVALID_INDEX
  | G_DHCP_CLIENT_ERROR_INVALID_OPTION

definition new_client :: "client_env \<Rightarrow> GDHCPType \<Rightarrow> int \<Rightarrow> string \<Rightarrow> dhcp_client" where
  "new_client env type ifindex name =
     \<lparr>c_ref_count = 1, c_type = type, c_state = INIT_SELECTING, c_ifindex = ifindex, c_interface = name,
      c_mac = get_interface_mac_address env (replicate 6 0), c_xid = 0, c_server_ip = 0, c_requested_ip = 0,
      c_assigned_ip = None, c_start = 0, c_lease_seconds = 0, c_listen_mode = L_NONE, c_listener_sockfd = - 1,
      c_retry_times = 0, c_ack_retry_times = 0, c_conflicts = 0, c_timeout = 0, c_t1_timeout = 0,
      c_t2_timeout = 0, c_lease_timeout = 0, c_listener_watch = 0, c_request_list = [],
      c_code_value_hash = Map.empty, c_send_value_hash = Map.empty, c_cb = (\<lambda>_. False),
      c_last_address = None, c_duid = None, c_server_duid = None, c_server_duid_len = 0, c_status_code = 0,
      c_iaid = 0, c_T1 = 0, c_T2 = 0, c_ia_na = replicate 16 0, c_ia_ta = replicate 16 0,
      c_last_request = e_time env, c_expire = 0, c_retransmit = False, c_start_time = (0, 0),
      c_request_bcast = False, c_sources = Map.empty, c_next = 0, c_acts = []\<rparr>"

definition g_dhcp_client_new ::
  "client_env \<Rightarrow> bool \<Rightarrow> if_io \<Rightarrow> if_io \<Rightarrow> GDHCPType \<Rightarrow> int \<Rightarrow> GDHCPClientError + dhcp_client" where
  "g_dhcp_client_new env alloc io1 io2 type ifindex =
     (if ifindex < 0 then Inl G_DHCP_CLIENT_ERROR_INVALID_INDEX
      else if \<not> alloc then Inl G_DHCP_CLIENT_ERROR_NOMEM
      else case get_interface_name io1 ifindex of
          None \<Rightarrow> Inl G_DHCP_CLIENT_ERROR_INTERFACE_UNAVAILABLE
        | Some name \<Rightarrow>
          if \<not> interface_is_up io2 ifindex then Inl G_DHCP_CLIENT_ERROR_INTERFACE_DOWN
          else Inr (new_client env type ifindex name))"

definition g_dhcp_client_stop :: "client_env \<Rightarrow> dhcp_client \<Rightarrow> dhcp_client option" where
  "g_dhcp_client_stop env c = do {
     let c = fst (switch_listening_mode env L_NONE c);
     c \<leftarrow> (if c_state c \<in> {BOUND, RENEWING, REBINDING} then send_release env (c_server_ip c) (c_requested_ip c) c else Some c);
     let c = remove_timeouts c;
     let c = (if c_listener_watch c > 0 then (c_source_remove (c_listener_watch c) c)\<lparr>c_listener_watch := 0\<rparr> else c);
     Some (c\<lparr>c_retry_times := 0, c_ack_retry_times := 0, c_requested_ip := 0, c_state := RELEASED, c_lease_seconds := 0,
             c_request_bcast := False\<rparr>) }"

definition g_dhcp_client_get_option :: "dhcp_client \<Rightarrow> u8 \<Rightarrow> client_value list" where
  "g_dhcp_client_get_option c code = (case c_code_value_hash c (uint code) of None \<Rightarrow> [] | Some l \<Rightarrow> l)"

definition g_dhcp_client_register_event :: "client_event \<Rightarrow> bool \<Rightarrow> dhcp_client \<Rightarrow> dhcp_client" where
  "g_dhcp_client_register_event event func c =
     (let set = c\<lparr>c_cb := (c_cb c)(event := func)\<rparr> in
      if event \<in> {EVENT_LEASE_AVAILABLE, EVENT_NO_LEASE, EVENT_LEASE_LOST, EVENT_ADDRESS_CONFLICT} then set
      else if event \<in> {EVENT_IPV4LL_AVAILABLE, EVENT_IPV4LL_LOST} then if c_type c = G_DHCP_IPV6 then c else set
      else if c_type c \<noteq> G_DHCP_IPV6 then c else set)"

definition g_dhcp_client_get_index :: "dhcp_client \<Rightarrow> int" where
  "g_dhcp_client_get_index c = c_ifindex c"

text \<open>The number kept in \<open>c_server_ip\<close> is in host order, but it is printed as if it were in network order.\<close>

definition g_dhcp_client_get_server_address :: "dhcp_client \<Rightarrow> string" where
  "g_dhcp_client_get_server_address c = inet_ntoa (c_server_ip c)"

definition g_dhcp_client_get_address :: "dhcp_client \<Rightarrow> string option" where
  "g_dhcp_client_get_address c = c_assigned_ip c"

definition g_dhcp_client_get_netmask :: "dhcp_client \<Rightarrow> client_value option" where
  "g_dhcp_client_get_netmask c =
     (if c_type c = G_DHCP_IPV6 then None
      else if c_state c \<in> {IPV4LL_DEFEND, IPV4LL_MONITOR} then Some (Text ''255.255.0.0'')
      else if c_state c \<in> {BOUND, RENEWING, REBINDING}
      then (case g_dhcp_client_get_option c 1 of [] \<Rightarrow> None | v # _ \<Rightarrow> Some v)
      else None)"

definition g_dhcp_client_clear_requests :: "dhcp_client \<Rightarrow> dhcp_client" where
  "g_dhcp_client_clear_requests c = c\<lparr>c_request_list := []\<rparr>"

definition g_dhcp_client_clear_values :: "dhcp_client \<Rightarrow> dhcp_client" where
  "g_dhcp_client_clear_values c = c\<lparr>c_send_value_hash := Map.empty\<rparr>"

definition alloc_dhcp_option :: "u8 \<Rightarrow> u8 list \<Rightarrow> u8 list" where
  "alloc_dhcp_option code data = [code, of_nat (length data)] @ data"

definition alloc_dhcp_data_option :: "u8 \<Rightarrow> u8 list \<Rightarrow> u8 list" where
  "alloc_dhcp_data_option code data = alloc_dhcp_option code (take 255 data)"

definition alloc_dhcp_string_option :: "u8 \<Rightarrow> string \<Rightarrow> u8 list" where
  "alloc_dhcp_string_option code str = alloc_dhcp_data_option code (map (\<lambda>ch. of_nat (of_char ch)) str)"

abbreviation "G_DHCP_CLIENT_ID \<equiv> (0x3d :: u8)"
abbreviation "G_DHCP_HOST_NAME \<equiv> (0x0c :: u8)"

definition g_dhcp_client_set_id :: "client_env \<Rightarrow> dhcp_client \<Rightarrow> dhcp_client \<times> GDHCPClientError" where
  "g_dhcp_client_set_id env c =
     (let (c, n) = c_tick c; option = alloc_dhcp_data_option G_DHCP_CLIENT_ID (1 # take 6 (c_mac c)) in
      if \<not> e_alloc env n then (c, G_DHCP_CLIENT_ERROR_NOMEM)
      else (c\<lparr>c_send_value_hash := (c_send_value_hash c)(uint G_DHCP_CLIENT_ID \<mapsto> option)\<rparr>, G_DHCP_CLIENT_ERROR_NONE))"

definition g_dhcp_client_set_send :: "client_env \<Rightarrow> u8 \<Rightarrow> string option \<Rightarrow> dhcp_client \<Rightarrow> dhcp_client \<times> GDHCPClientError" where
  "g_dhcp_client_set_send env code value c =
     (case value of
        None \<Rightarrow> (c, G_DHCP_CLIENT_ERROR_NONE)
      | Some v \<Rightarrow>
        if code \<noteq> G_DHCP_HOST_NAME then (c, G_DHCP_CLIENT_ERROR_NONE)
        else
          let (c, n) = c_tick c in
          if \<not> e_alloc env n then (c, G_DHCP_CLIENT_ERROR_NOMEM)
          else (c\<lparr>c_send_value_hash := (c_send_value_hash c)(uint code \<mapsto> alloc_dhcp_string_option code v)\<rparr>,
                G_DHCP_CLIENT_ERROR_NONE))"

definition g_dhcpv6_client_reset_request :: "client_env \<Rightarrow> dhcp_client \<Rightarrow> dhcp_client" where
  "g_dhcpv6_client_reset_request env c = (if c_type c \<noteq> G_DHCP_IPV6 then c else c\<lparr>c_last_request := e_time env\<rparr>)"

definition g_dhcpv6_client_get_status :: "dhcp_client \<Rightarrow> u16" where
  "g_dhcpv6_client_get_status c = (if c_type c \<noteq> G_DHCP_IPV6 then 0 else c_status_code c)"

definition g_dhcpv6_client_set_retransmit :: "dhcp_client \<Rightarrow> dhcp_client" where
  "g_dhcpv6_client_set_retransmit c = c\<lparr>c_retransmit := True\<rparr>"

definition g_dhcpv6_client_clear_retransmit :: "dhcp_client \<Rightarrow> dhcp_client" where
  "g_dhcpv6_client_clear_retransmit c = c\<lparr>c_retransmit := False\<rparr>"

definition g_dhcp_client_ref :: "dhcp_client \<Rightarrow> dhcp_client" where
  "g_dhcp_client_ref c = c\<lparr>c_ref_count := c_ref_count c + 1\<rparr>"

text \<open>The result says whether the object was freed; the state is then what was left when it was.\<close>

definition g_dhcp_client_unref :: "client_env \<Rightarrow> dhcp_client \<Rightarrow> (dhcp_client \<times> bool) option" where
  "g_dhcp_client_unref env c =
     (let c' = c\<lparr>c_ref_count := c_ref_count c - 1\<rparr> in
      if c_ref_count c \<noteq> 1 then Some (c', False)
      else map_option (\<lambda>c. (c, True)) (g_dhcp_client_stop env c'))"

text \<open>A prefix that cannot be copied leaves a null pointer in the list.\<close>

definition copy_prefix :: "bool \<Rightarrow> ia_prefix \<Rightarrow> ia_prefix option" where
  "copy_prefix alloc p = (if alloc then Some p else None)"

fun copy_prefixes_from :: "(nat \<Rightarrow> bool) \<Rightarrow> nat \<Rightarrow> ia_prefix list \<Rightarrow> ia_prefix option list \<Rightarrow> ia_prefix option list" where
  "copy_prefixes_from alloc n [] copy = copy"
| "copy_prefixes_from alloc n (p # ps) copy = copy_prefixes_from alloc (Suc n) ps (copy_prefix (alloc n) p # copy)"

definition g_dhcpv6_copy_prefixes :: "(nat \<Rightarrow> bool) \<Rightarrow> ia_prefix list \<Rightarrow> ia_prefix option list" where
  "g_dhcpv6_copy_prefixes alloc prefixes = copy_prefixes_from alloc 0 prefixes []"

section \<open>The main loop\<close>

text \<open>The handler of a timer. Every handler returns false, so the main loop drops the source after the call.\<close>

definition run_timer :: "client_env \<Rightarrow> client_callback \<Rightarrow> dhcp_client \<Rightarrow> dhcp_client option" where
  "run_timer env cb c =
     (case cb of
        Listener_event \<Rightarrow> None
      | Discover_timeout \<Rightarrow> discover_timeout env c
      | Reboot_timeout \<Rightarrow> reboot_timeout env c
      | Request_timeout \<Rightarrow> client_request_timeout env c
      | Restart_dhcp_timeout \<Rightarrow> restart_dhcp_timeout env c
      | Start_renew \<Rightarrow> start_renew env c
      | Continue_renew \<Rightarrow> continue_renew env c
      | Start_rebound \<Rightarrow> start_rebound env c
      | Continue_rebound \<Rightarrow> continue_rebound env c
      | Start_expire \<Rightarrow> start_expire env c
      | Send_probe \<Rightarrow> send_probe_packet env c
      | Probe_timeout \<Rightarrow> ipv4ll_probe_timeout env c
      | Announce_timeout \<Rightarrow> Some (ipv4ll_announce_timeout env c)
      | Defend_timeout \<Rightarrow> Some (ipv4ll_defend_timeout c))"

definition dispatch_source :: "client_env \<Rightarrow> bool \<Rightarrow> int + u8 list \<Rightarrow> nat \<Rightarrow> dhcp_client \<Rightarrow> dhcp_client option" where
  "dispatch_source env bad rd n c =
     (case c_sources c n of
        None \<Rightarrow> None
      | Some (cb, d) \<Rightarrow>
        if cb = Listener_event
        then map_option (\<lambda>(c, stay). if stay then c else c_source_remove n c) (client_listener_event env bad rd c)
        else map_option (c_source_remove n) (run_timer env cb c))"

text \<open>The calls of the daemon that only change settings of the client.\<close>

datatype client_setting =
    Register_event client_event bool | Set_request u32 | Clear_requests | Clear_values | Set_id | Set_send u8 "string option"
  | Set_send6 u16 "u8 list option" | Clear_send u16 | Set_duid "u8 list" | Create_iaid | Set_iaid u32
  | Set_ia u16 "u32 option" "u32 option" bool "string option" | Set_ias u16 "u32 option" "u32 option" "string list"
  | Set_pd "u32 option" "u32 option" "(u8 \<times> u8 list) list" | Set_oro "u16 list" | Reset_request
  | Set_retransmit | Clear_retransmit | Ref

fun run_setting :: "client_env \<Rightarrow> client_setting \<Rightarrow> dhcp_client \<Rightarrow> dhcp_client" where
  "run_setting env (Register_event e f) c = g_dhcp_client_register_event e f c"
| "run_setting env (Set_request code) c = g_dhcp_client_set_request code c"
| "run_setting env Clear_requests c = g_dhcp_client_clear_requests c"
| "run_setting env Clear_values c = g_dhcp_client_clear_values c"
| "run_setting env Set_id c = fst (g_dhcp_client_set_id env c)"
| "run_setting env (Set_send code v) c = fst (g_dhcp_client_set_send env code v c)"
| "run_setting env (Set_send6 code v) c = g_dhcpv6_client_set_send code v c"
| "run_setting env (Clear_send code) c = g_dhcpv6_client_clear_send code c"
| "run_setting env (Set_duid d) c = fst (g_dhcpv6_client_set_duid d c)"
| "run_setting env Create_iaid c = fst (g_dhcpv6_client_create_iaid env c)"
| "run_setting env (Set_iaid i) c = g_dhcpv6_client_set_iaid i c"
| "run_setting env (Set_ia code t1 t2 add a) c = fst (g_dhcpv6_client_set_ia env code t1 t2 add a c)"
| "run_setting env (Set_ias code t1 t2 as) c = fst (g_dhcpv6_client_set_ias env code t1 t2 as c)"
| "run_setting env (Set_pd t1 t2 ps) c = fst (g_dhcpv6_client_set_pd t1 t2 ps c)"
| "run_setting env (Set_oro codes) c = fst (g_dhcpv6_client_set_oro env codes c)"
| "run_setting env Reset_request c = g_dhcpv6_client_reset_request env c"
| "run_setting env Set_retransmit c = g_dhcpv6_client_set_retransmit c"
| "run_setting env Clear_retransmit c = g_dhcpv6_client_clear_retransmit c"
| "run_setting env Ref c = g_dhcp_client_ref c"

inductive client_step :: "dhcp_client \<Rightarrow> dhcp_client \<Rightarrow> bool" where
  dispatch: "dispatch_source env bad rd n c = Some c' \<Longrightarrow> client_step c c'"
| start: "g_dhcp_client_start env last_address c = Some (c', r) \<Longrightarrow> client_step c c'"
| stop: "g_dhcp_client_stop env c = Some c' \<Longrightarrow> client_step c c'"
| setting: "client_step c (run_setting env s c)"
| unref: "g_dhcp_client_unref env c = Some (c', False) \<Longrightarrow> client_step c c'"

inductive client_reach :: "dhcp_client \<Rightarrow> bool" where
  new: "g_dhcp_client_new env al io1 io2 t i = Inr c \<Longrightarrow> client_reach c"
| step: "client_reach c \<Longrightarrow> client_step c c' \<Longrightarrow> client_reach c'"

end
