(* ===== verification/DhcpClientInvariant.thy ===== *)
theory DhcpClientInvariant
  imports DhcpClientRun
begin

text \<open>
  The invariant of the DHCP client: every source that the client has in the main loop is held in the field of the client from which it is
  removed, only the timers of the protocol and the state are armed, and a lease always has a timer that ends it. It holds for
  a new client and is kept by every handler and every call.
\<close>

section \<open>The invariant\<close>

text \<open>The field of the client that holds the identifier of a source.\<close>

definition timer_slot :: "client_callback \<Rightarrow> dhcp_client \<Rightarrow> nat" where
  "timer_slot cb c =
     (if cb = Listener_event then c_listener_watch c
      else if cb = Start_renew \<or> cb = Continue_renew then c_t1_timeout c
      else if cb = Start_rebound \<or> cb = Continue_rebound then c_t2_timeout c
      else if cb = Start_expire then c_lease_timeout c
      else c_timeout c)"

definition leased :: "client_state \<Rightarrow> bool" where
  "leased st \<longleftrightarrow> st = BOUND \<or> st = RENEWING \<or> st = REBINDING"

definition lease_timers :: "client_callback set" where
  "lease_timers = {Start_renew, Continue_renew, Start_rebound, Continue_rebound, Start_expire}"

definition allowed_timers :: "GDHCPType \<Rightarrow> client_state \<Rightarrow> client_callback set" where
  "allowed_timers type st =
     (case type of
        G_DHCP_IPV6 \<Rightarrow> {}
      | G_DHCP_IPV4LL \<Rightarrow> {Send_probe, Probe_timeout, Announce_timeout, Defend_timeout}
      | G_DHCP_IPV4 \<Rightarrow>
        if leased st then insert Restart_dhcp_timeout lease_timers
        else {Discover_timeout, Reboot_timeout, Request_timeout, Restart_dhcp_timeout})"

definition state_ok :: "GDHCPType \<Rightarrow> client_state \<Rightarrow> bool" where
  "state_ok type st \<longleftrightarrow>
     (case type of
        G_DHCP_IPV4 \<Rightarrow> st \<in> {INIT_SELECTING, REBOOTING, REQUESTING, BOUND, RENEWING, REBINDING, RELEASED}
      | G_DHCP_IPV4LL \<Rightarrow>
        st \<in> {INIT_SELECTING, RELEASED, IPV4LL_PROBE, IPV4LL_ANNOUNCE, IPV4LL_MONITOR, IPV4LL_DEFEND}
      | G_DHCP_IPV6 \<Rightarrow>
        st \<in> {INIT_SELECTING, RELEASED, INFORMATION_REQ, SOLICITATION, REQUEST, CONFIRM, RENEW, REBIND, RELEASE, DECLINE})"

definition mode_ok :: "GDHCPType \<Rightarrow> listen_mode \<Rightarrow> bool" where
  "mode_ok type m \<longleftrightarrow>
     (case type of
        G_DHCP_IPV4 \<Rightarrow> m \<noteq> L_ARP
      | G_DHCP_IPV4LL \<Rightarrow> m = L_NONE \<or> m = L_ARP
      | G_DHCP_IPV6 \<Rightarrow> m = L_NONE \<or> m = L3)"

definition client_ids :: "dhcp_client \<Rightarrow> nat list" where
  "client_ids c = [c_timeout c, c_t1_timeout c, c_t2_timeout c, c_lease_timeout c, c_listener_watch c]"

definition ids_ok :: "dhcp_client \<Rightarrow> bool" where
  "ids_ok c \<longleftrightarrow> distinct (filter (\<lambda>i. 0 < i) (client_ids c)) \<and> (\<forall>i \<in> set (client_ids c). i \<le> c_next c)"

text \<open>
  The sources outside \<open>X\<close> are held in their fields. While the handler of a timer runs, \<open>X\<close> has the source of that timer, which the
  main loop drops after the call.
\<close>

definition placed :: "nat set \<Rightarrow> dhcp_client \<Rightarrow> bool" where
  "placed X c \<longleftrightarrow>
     (\<forall>n cb d. c_sources c n = Some (cb, d) \<longrightarrow> 0 < n \<and> n \<le> c_next c \<and>
        (n \<notin> X \<longrightarrow> n = timer_slot cb c \<and> (cb = Listener_event \<longrightarrow> c_listen_mode c \<noteq> L_NONE)))"

definition timers_in :: "nat set \<Rightarrow> client_callback set \<Rightarrow> dhcp_client \<Rightarrow> bool" where
  "timers_in X S c \<longleftrightarrow>
     (\<forall>n cb d. c_sources c n = Some (cb, d) \<longrightarrow> n \<notin> X \<longrightarrow> cb = Listener_event \<or> cb \<in> S)"

definition client_base :: "nat set \<Rightarrow> dhcp_client \<Rightarrow> bool" where
  "client_base X c \<longleftrightarrow> placed X c \<and> ids_ok c \<and> mode_ok (c_type c) (c_listen_mode c)"

definition lease_armed :: "nat set \<Rightarrow> dhcp_client \<Rightarrow> bool" where
  "lease_armed X c \<longleftrightarrow>
     c_lease_timeout c \<notin> X \<and> c_sources c (c_lease_timeout c) = Some (Start_expire, Seconds (c_expire c))"

definition restart_armed :: "nat set \<Rightarrow> dhcp_client \<Rightarrow> bool" where
  "restart_armed X c \<longleftrightarrow> c_timeout c \<notin> X \<and> c_sources c (c_timeout c) = Some (Restart_dhcp_timeout, Seconds 3)"

definition lease_ok :: "nat set \<Rightarrow> dhcp_client \<Rightarrow> bool" where
  "lease_ok X c \<longleftrightarrow>
     (leased (c_state c) \<longrightarrow> c_retry_times c = 0 \<and> c_assigned_ip c \<noteq> None \<and> (lease_armed X c \<or> restart_armed X c)) \<and>
     (timers_in X (- lease_timers) c \<or> lease_armed X c)"

definition dhcp_inv :: "nat set \<Rightarrow> dhcp_client \<Rightarrow> bool" where
  "dhcp_inv X c \<longleftrightarrow>
     client_base X c \<and> state_ok (c_type c) (c_state c) \<and> timers_in X (allowed_timers (c_type c) (c_state c)) c \<and> lease_ok X c"

section \<open>Steps that leave the timers alone\<close>

definition calm :: "dhcp_client \<Rightarrow> dhcp_client \<Rightarrow> bool" where
  "calm c c' \<longleftrightarrow>
     c_type c' = c_type c \<and> c_state c' = c_state c \<and> c_listen_mode c' = c_listen_mode c \<and> client_ids c' = client_ids c \<and>
     c_retry_times c' = c_retry_times c \<and> c_assigned_ip c' = c_assigned_ip c \<and> c_sources c' = c_sources c \<and>
     (c_type c \<noteq> G_DHCP_IPV6 \<longrightarrow> c_expire c' = c_expire c \<and> c_lease_seconds c' = c_lease_seconds c) \<and> c_next c \<le> c_next c'"

lemma calm_refl [simp, intro]: "calm c c"
  by (simp add: calm_def)

lemma calm_trans: "calm a b \<Longrightarrow> calm b c \<Longrightarrow> calm a c"
  by (auto simp: calm_def)

lemma calm_fields:
  assumes "calm c c'"
  shows "c_type c' = c_type c" "c_state c' = c_state c" "c_listen_mode c' = c_listen_mode c" "c_timeout c' = c_timeout c"
    "c_t1_timeout c' = c_t1_timeout c" "c_t2_timeout c' = c_t2_timeout c" "c_lease_timeout c' = c_lease_timeout c"
    "c_listener_watch c' = c_listener_watch c" "c_retry_times c' = c_retry_times c" "c_assigned_ip c' = c_assigned_ip c"
    "c_sources c' = c_sources c" "c_next c \<le> c_next c'"
    "c_type c \<noteq> G_DHCP_IPV6 \<Longrightarrow> c_expire c' = c_expire c"
    "c_type c \<noteq> G_DHCP_IPV6 \<Longrightarrow> c_lease_seconds c' = c_lease_seconds c"
  using assms by (simp_all add: calm_def client_ids_def)

lemma calm_slot:
  assumes "calm c c'"
  shows "timer_slot cb c' = timer_slot cb c"
  by (simp add: timer_slot_def calm_fields [OF assms])

lemma calm_base:
  assumes q: "calm c c'" and b: "client_base X c"
  shows "client_base X c'"
proof -
  have "placed X c'"
    using b calm_fields(12) [OF q]
    unfolding client_base_def placed_def calm_fields(3,11) [OF q] calm_slot [OF q] by (blast intro: le_trans)
  moreover have "ids_ok c'"
    using b q unfolding client_base_def ids_ok_def calm_def by (auto intro: le_trans)
  ultimately show ?thesis
    using b by (simp add: client_base_def calm_fields [OF q])
qed

lemma calm_timers:
  assumes "calm c c'"
  shows "timers_in X S c' = timers_in X S c"
  by (simp add: timers_in_def calm_fields [OF assms])

lemma no_lease_timers6: "timers_in X {} c \<Longrightarrow> timers_in X (- lease_timers) c"
  by (auto simp: timers_in_def)

lemma calm_inv:
  assumes q: "calm c c'" and i: "dhcp_inv X c"
  shows "dhcp_inv X c'"
proof (cases "c_type c = G_DHCP_IPV6")
  case True
  then have "\<not> leased (c_state c)" "timers_in X {} c"
    using i by (auto simp: dhcp_inv_def state_ok_def leased_def allowed_timers_def)
  then show ?thesis
    using i calm_base [OF q] by (simp add: dhcp_inv_def lease_ok_def calm_fields [OF q] calm_timers [OF q] no_lease_timers6)
next
  case False
  then have "lease_armed X c' = lease_armed X c" "restart_armed X c' = restart_armed X c"
    by (simp_all add: lease_armed_def restart_armed_def calm_fields [OF q])
  then show ?thesis
    using i calm_base [OF q] by (simp add: dhcp_inv_def lease_ok_def calm_fields [OF q] calm_timers [OF q])
qed

text \<open>Events, messages and settings are calm.\<close>

lemma calm_act [simp]: "calm c (c_act a c)"
  by (simp add: calm_def client_ids_def c_act_def)

lemma calm_event [simp]: "calm c (c_event e c)"
  by (simp add: c_event_def)

lemma calm_tick: "c_tick c = (c', n) \<Longrightarrow> calm c c'"
  by (auto simp: c_tick_def calm_def client_ids_def)

lemma calm_raw: "calm c (send_raw env packet bcast c)"
  unfolding send_raw_def
  by (auto simp: Let_def split: prod.splits option.splits dest!: calm_tick intro: calm_trans [OF _ calm_act])

lemma calm_kernel: "calm c (send_kernel env packet s d c)"
  unfolding send_kernel_def
  by (auto simp: Let_def split: prod.splits option.splits dest!: calm_tick intro: calm_trans [OF _ calm_act])

lemma calm_arp: "calm c (send_arp env s t c)"
  unfolding send_arp_def
  by (auto simp: Let_def split: prod.splits option.splits dest!: calm_tick intro: calm_trans [OF _ calm_act])

lemma calm_discover: "send_discover env r c = Some c' \<Longrightarrow> calm c c'"
  by (auto simp: send_discover_def calm_raw split: bind_splits)

lemma calm_request: "send_request env c = Some c' \<Longrightarrow> calm c c'"
  by (auto simp: send_request_def calm_raw calm_kernel split: bind_splits if_splits)

lemma calm_release: "send_release env s a c = Some c' \<Longrightarrow> calm c c'"
  unfolding send_release_def
  by (auto simp: Let_def split: bind_splits prod.splits dest!: calm_tick intro: calm_trans [OF _ calm_kernel])

lemma calm_delay: "draw_delay env s c = (c', t) \<Longrightarrow> calm c c'"
  by (auto simp: draw_delay_def Let_def split: prod.splits dest!: calm_tick)

lemma calm_values [simp]: "calm c (set_values code l c)"
  by (simp add: set_values_def calm_def client_ids_def)

lemma calm_get_request: "get_request packet xs c = Some c' \<Longrightarrow> calm c c'"
proof (induction xs arbitrary: c)
  case (Cons x xs)
  then show ?case
    by (auto simp: Let_def split: bind_splits opt_ptr.splits intro: calm_trans [OF calm_values])
qed simp

text \<open>DHCPv6 messages and settings.\<close>

lemma calm_set_request [simp]: "calm c (g_dhcp_client_set_request code c)"
  by (simp add: g_dhcp_client_set_request_def calm_def client_ids_def)

lemma calm_set_send6 [simp]: "calm c (g_dhcpv6_client_set_send code v c)"
  by (simp add: g_dhcpv6_client_set_send_def calm_def client_ids_def Let_def split: option.split)

lemma calm_xid [simp]: "calm c (c\<lparr>c_xid := x, c_start_time := t\<rparr>)"
  by (simp add: calm_def client_ids_def)

lemma calm_status [simp]: "calm c (c\<lparr>c_status_code := st\<rparr>)"
  by (simp add: calm_def client_ids_def)

lemma calm_tick_fst [simp]: "calm c (c\<lparr>c_next := Suc (c_next c)\<rparr>)"
  by (simp add: calm_def client_ids_def)

lemma calm_tick_after: "calm a c \<Longrightarrow> calm a (c\<lparr>c_next := Suc (c_next c)\<rparr>)"
  by (rule calm_trans [OF _ calm_tick_fst])

lemma calm_dhcpv6_msg: "send_dhcpv6_msg env type c = Some c' \<Longrightarrow> calm c c'"
  unfolding send_dhcpv6_msg_def c_tick_def Let_def split_def fst_conv snd_conv
  by (erule bind_eq_Some_conv [THEN iffD1, elim_format], elim exE conjE bind_eq_Some_conv [THEN iffD1, elim_format])
    (auto split: option.splits if_splits
      intro!: calm_trans [OF _ calm_act] calm_tick_after calm_trans [OF _ calm_set_request]
        calm_trans [OF calm_tick_fst calm_xid])

lemma calm_suboption: "ia_suboption env m p code a c = Some (a', c') \<Longrightarrow> calm c c'"
  unfolding ia_suboption_def c_tick_def Let_def split_def fst_conv snd_conv
  by (auto simp only: bind_eq_Some_conv option.inject prod.inject calm_status calm_tick_fst calm_refl split: if_splits)

lemma calm_ia_loop:
  "c_type c = G_DHCP_IPV6 \<Longrightarrow> ia_loop env m v max_len len pos a c = Some (a', c') \<Longrightarrow> calm c c'"
proof (induction env m v max_len len pos a c rule: ia_loop.induct)
  case (1 env m v max_len len pos a c)
  show ?case
  proof (cases "dhcpv6_get_sub_option (drop (v + pos) m) max_len")
    case None
    then show ?thesis using "1.prems" by (simp add: ia_loop.simps)
  next
    case (Some r)
    show ?thesis
    proof (cases r)
      case None
      then show ?thesis using Some "1.prems" by (simp add: ia_loop.simps)
    next
      case (Some t)
      obtain off code olen where t: "t = (off, code, olen)"
        by (cases t)
      obtain a1 c1 where s: "ia_suboption env m (v + pos + off) code a c = Some (a1, c1)"
        using "1.prems"(2) Some t \<open>_ = Some r\<close> by (subst (asm) ia_loop.simps) (auto split: option.splits)
      have q: "calm c c1"
        by (rule calm_suboption [OF s])
      then have t1: "c_type c1 = G_DHCP_IPV6"
        using "1.prems"(1) by (simp add: calm_fields(1) [OF q])
      show ?thesis
        using "1.prems"(2) Some t s \<open>_ = Some r\<close> calm_trans [OF q "1.IH" [OF _ _ _ _ s _ _ t1]] q
        by (subst (asm) ia_loop.simps) (auto split: if_splits)
    qed
  qed
qed

lemma calm_times6:
  assumes "c_type c = G_DHCP_IPV6"
  shows "calm c (c\<lparr>c_T1 := t1, c_T2 := t2, c_ia_na := a, c_expire := e\<rparr>)"
    "calm c (c\<lparr>c_T1 := t1, c_T2 := t2, c_ia_ta := a, c_expire := e\<rparr>)"
    "calm c (c\<lparr>c_T1 := t1, c_T2 := t2, c_expire := e\<rparr>)"
  using assms by (simp_all add: calm_def client_ids_def)

lemma calm_ia_finish:
  assumes t: "c_type c = G_DHCP_IPV6"
  shows "calm c (fst (ia_finish code t1 t2 a c))"
proof -
  define c1 where "c1 = (if ia_addrs a > 0 \<and> ia_st a = 0
    then (if code = G_DHCPV6_IA_NA then c\<lparr>c_T1 := t1, c_T2 := t2, c_ia_na := ia_addr a, c_expire := ia_valid a\<rparr>
          else c\<lparr>c_T1 := t1, c_T2 := t2, c_ia_ta := ia_addr a, c_expire := ia_valid a\<rparr>) else c)"
  have q: "calm c c1"
    by (simp add: c1_def calm_times6 [OF t])
  then have "c_type c1 = G_DHCP_IPV6"
    using t calm_fields(1) [OF q] by simp
  then have "calm c (c1\<lparr>c_T1 := t1, c_T2 := t2, c_expire := ia_shortest a\<rparr>)"
    using calm_trans [OF q calm_times6(3)] by blast
  moreover define l where "l = (if ia_addrs a > 0 \<and> ia_st a = 0 then ia_list a @ [Addr6 (ia_addr a)] else ia_list a)"
  have "ia_finish code t1 t2 a c =
    (if ia_addrs a > 0 \<and> ia_st a = 0 \<and> ia_preferred a > ia_valid a then (c, [])
     else if ia_prefixes a > 0 \<and> l \<noteq> [] then (c1\<lparr>c_T1 := t1, c_T2 := t2, c_expire := ia_shortest a\<rparr>, rev l) else (c1, l))"
    unfolding ia_finish_def c1_def l_def Let_def by (cases "ia_addrs a > 0 \<and> ia_st a = 0") (simp_all only: simp_thms if_True if_False split)
  ultimately show ?thesis
    using q by (auto simp only: fst_conv calm_refl split: if_split)
qed

lemma calm_addresses:
  assumes "c_type c = G_DHCP_IPV6" "get_addresses env code len m v c = Some (c', l)"
  shows "calm c c'"
proof -
  have "calm c (fst (ia_finish code t1 t2 a c1))"
    if "ia_loop env m v ml len pos a0 c = Some (a, c1)" for ml pos a0 a c1 t1 t2
  proof -
    have q: "calm c c1"
      by (rule calm_ia_loop [OF assms(1) that])
    then show ?thesis
      using calm_trans [OF q calm_ia_finish] assms(1) calm_fields(1) [OF q] by simp
  qed
  from this assms(2) show ?thesis
    unfolding get_addresses_def Let_def
    by (auto simp: bind_eq_Some_conv split: if_splits) (metis fst_conv)+
qed

lemma calm_server_addresses: "server_addresses env m v n c = Some (c', l) \<Longrightarrow> calm c c'"
proof (induction n arbitrary: v c l)
  case (Suc n)
  then show ?case
    by (auto simp: c_tick_def bind_eq_Some_conv split: if_splits intro: calm_trans [OF calm_tick_fst])
qed simp

lemma calm_value_list6:
  "c_type c = G_DHCP_IPV6 \<Longrightarrow> get_dhcpv6_option_value_list env code len m v c = Some (c', l) \<Longrightarrow> calm c c'"
  unfolding get_dhcpv6_option_value_list_def
  by (auto split: if_splits dest: calm_server_addresses calm_addresses)

lemma calm_get_request6:
  "c_type c = G_DHCP_IPV6 \<Longrightarrow> get_dhcpv6_request env m pkt_len xs c = Some c' \<Longrightarrow> calm c c'"
proof (induction xs arbitrary: c)
  case (Cons x xs)
  have v: "calm c (set_values k l c2)" if "get_dhcpv6_option_value_list env code len m p c = Some (c2, l)" for k l c2 code len p
    by (rule calm_trans [OF calm_value_list6 [OF Cons.prems(1) that] calm_values])
  obtain found len count where "dhcpv6_get_option m pkt_len (uint (ucast x :: u16)) = Some (found, len, count)"
    using Cons.prems(2) by (auto simp: Let_def bind_eq_Some_conv)
  then obtain c1 where q: "calm c c1" and r: "get_dhcpv6_request env m pkt_len xs c1 = Some c'"
    using Cons.prems(2) by (cases found; cases len) (auto simp: Let_def bind_eq_Some_conv intro: v calm_values)
  then show ?case
    using Cons.IH [OF _ r] Cons.prems(1) calm_fields(1) [OF q] calm_trans [OF q] by simp
qed simp

lemma calm_send_hash [simp]: "calm c (c\<lparr>c_send_value_hash := h\<rparr>)"
  by (simp add: calm_def client_ids_def)

lemma calm_iaid [simp]: "calm c (c\<lparr>c_iaid := i\<rparr>)"
  by (simp add: calm_def client_ids_def)

lemma calm_create_iaid [simp]: "calm c (fst (g_dhcpv6_client_create_iaid env c))"
  by (simp add: g_dhcpv6_client_create_iaid_def Let_def)

lemma calm_put_iaid [simp]: "calm c (fst (put_iaid env c))"
  by (simp add: put_iaid_def Let_def)

lemma calm_ia_na [simp]: "calm c (c\<lparr>c_ia_na := a\<rparr>)"
  by (simp add: calm_def client_ids_def)

lemmas calm_after =
  calm_trans [OF _ calm_act] calm_trans [OF _ calm_event] calm_trans [OF _ calm_set_request]
  calm_trans [OF _ calm_set_send6] calm_trans [OF _ calm_put_iaid] calm_trans [OF _ calm_ia_na]
  calm_trans [OF _ calm_tick_fst] calm_trans [OF _ calm_send_hash]

lemma calm_set_ia: "calm c (fst (g_dhcpv6_client_set_ia env code t1 t2 add a c))"
  unfolding g_dhcpv6_client_set_ia_def Let_def split_def
  by (auto intro!: calm_after simp only: fst_conv calm_refl option.case Option.bind.simps split: if_split)

lemma calm_set_ias: "calm c (fst (g_dhcpv6_client_set_ias env code t1 t2 as c))"
  unfolding g_dhcpv6_client_set_ias_def Let_def split_def c_tick_def
  by (auto intro!: calm_after simp only: fst_conv snd_conv calm_refl split: if_split)

lemma calm_set_pd: "calm c (fst (g_dhcpv6_client_set_pd t1 t2 ps c))"
  unfolding g_dhcpv6_client_set_pd_def Let_def
  by (auto intro!: calm_after split: option.split)

lemma calm_updates:
  "calm c (c\<lparr>c_request_list := r\<rparr>)" "calm c (c\<lparr>c_duid := d\<rparr>)" "calm c (c\<lparr>c_last_request := l\<rparr>)"
  "calm c (c\<lparr>c_retransmit := b\<rparr>)" "calm c (c\<lparr>c_ref_count := i\<rparr>)" "calm c (c\<lparr>c_cb := f\<rparr>)"
  by (simp_all add: calm_def client_ids_def)

lemma calm_setting: "calm c (run_setting env s c)"
proof (cases s)
  case (Set_ia code t1 t2 add a)
  then show ?thesis by (simp add: calm_set_ia)
next
  case (Set_ias code t1 t2 as)
  then show ?thesis by (simp add: calm_set_ias)
next
  case (Set_pd t1 t2 ps)
  then show ?thesis by (simp add: calm_set_pd)
next
  case (Set_oro codes)
  then show ?thesis by (auto simp: g_dhcpv6_client_set_oro_def c_tick_def intro!: calm_after)
next
  case Set_id
  then show ?thesis by (auto simp: g_dhcp_client_set_id_def Let_def c_tick_def intro!: calm_after)
next
  case (Set_send code v)
  then show ?thesis by (auto simp: g_dhcp_client_set_send_def c_tick_def intro!: calm_after split: option.split)
next
  case (Set_iaid i)
  then show ?thesis by (simp add: g_dhcpv6_client_set_iaid_def)
qed (simp_all add: calm_updates g_dhcp_client_clear_requests_def g_dhcp_client_clear_values_def
    g_dhcpv6_client_clear_send_def g_dhcpv6_client_set_duid_def g_dhcpv6_client_reset_request_def
    g_dhcpv6_client_set_retransmit_def g_dhcpv6_client_clear_retransmit_def g_dhcp_client_ref_def
    g_dhcp_client_register_event_def Let_def)

section \<open>Timers and the listener\<close>

lemma remove_timeouts_fields [simp]:
  "c_type (remove_timeouts c) = c_type c" "c_state (remove_timeouts c) = c_state c"
  "c_listen_mode (remove_timeouts c) = c_listen_mode c" "c_listener_watch (remove_timeouts c) = c_listener_watch c"
  "c_retry_times (remove_timeouts c) = c_retry_times c" "c_assigned_ip (remove_timeouts c) = c_assigned_ip c"
  "c_next (remove_timeouts c) = c_next c" "c_expire (remove_timeouts c) = c_expire c"
  "c_timeout (remove_timeouts c) = 0" "c_t1_timeout (remove_timeouts c) = 0" "c_t2_timeout (remove_timeouts c) = 0"
  "c_lease_timeout (remove_timeouts c) = 0" "c_lease_seconds (remove_timeouts c) = c_lease_seconds c"
  by (simp_all add: remove_timeouts_def remove_nonzero_def c_source_remove_def Let_def)

lemma remove_timeouts_sources:
  "c_sources (remove_timeouts c) n =
     (if 0 < n \<and> n \<in> {c_timeout c, c_t1_timeout c, c_t2_timeout c, c_lease_timeout c} then None else c_sources c n)"
  by (auto simp: remove_timeouts_def remove_nonzero_def c_source_remove_def Let_def)

lemma timer_slot_timer:
  "cb \<noteq> Listener_event \<Longrightarrow> timer_slot cb c \<in> {c_timeout c, c_t1_timeout c, c_t2_timeout c, c_lease_timeout c}"
  by (simp add: timer_slot_def)

lemma placedD:
  assumes "placed X c" "c_sources c n = Some (cb, d)"
  shows "0 < n" "n \<le> c_next c" "n \<notin> X \<Longrightarrow> n = timer_slot cb c"
    "n \<notin> X \<Longrightarrow> cb = Listener_event \<Longrightarrow> c_listen_mode c \<noteq> L_NONE"
  using assms unfolding placed_def by blast+

lemma remove_timeouts_timers:
  assumes "placed X c"
  shows "timers_in X {} (remove_timeouts c)"
  unfolding timers_in_def remove_timeouts_sources
  using placedD(1,3) [OF assms] timer_slot_timer by (metis empty_iff option.distinct(1))

lemma timers_in_mono: "timers_in X S c \<Longrightarrow> S \<subseteq> T \<Longrightarrow> timers_in X T c"
  unfolding timers_in_def by blast

lemma remove_timeouts_base:
  assumes "client_base X c"
  shows "client_base X (remove_timeouts c)"
proof -
  have p: "placed X c" and i: "ids_ok c" and m: "mode_ok (c_type c) (c_listen_mode c)"
    using assms by (simp_all add: client_base_def)
  have "placed X (remove_timeouts c)"
    unfolding placed_def
  proof (intro allI impI)
    fix n cb d
    assume r: "c_sources (remove_timeouts c) n = Some (cb, d)"
    then have s: "c_sources c n = Some (cb, d)"
      by (simp add: remove_timeouts_sources split: if_splits)
    have "n \<notin> X \<Longrightarrow> cb = Listener_event"
      using remove_timeouts_timers [OF p] r unfolding timers_in_def by blast
    then show "0 < n \<and> n \<le> c_next (remove_timeouts c) \<and>
        (n \<notin> X \<longrightarrow> n = timer_slot cb (remove_timeouts c) \<and> (cb = Listener_event \<longrightarrow> c_listen_mode (remove_timeouts c) \<noteq> L_NONE))"
      using placedD [OF p s] by (auto simp: timer_slot_def)
  qed
  moreover have "ids_ok (remove_timeouts c)"
    using i by (auto simp: ids_ok_def client_ids_def)
  ultimately show ?thesis
    using m by (simp add: client_base_def)
qed

lemma set_timeout_fields [simp]:
  "c_type (set_timeout cb d c) = c_type c" "c_state (set_timeout cb d c) = c_state c"
  "c_listen_mode (set_timeout cb d c) = c_listen_mode c" "c_listener_watch (set_timeout cb d c) = c_listener_watch c"
  "c_retry_times (set_timeout cb d c) = c_retry_times c" "c_assigned_ip (set_timeout cb d c) = c_assigned_ip c"
  "c_next (set_timeout cb d c) = Suc (c_next c)" "c_expire (set_timeout cb d c) = c_expire c"
  "c_timeout (set_timeout cb d c) = Suc (c_next c)" "c_t1_timeout (set_timeout cb d c) = c_t1_timeout c"
  "c_t2_timeout (set_timeout cb d c) = c_t2_timeout c" "c_lease_timeout (set_timeout cb d c) = c_lease_timeout c"
  "c_sources (set_timeout cb d c) = (c_sources c)(Suc (c_next c) \<mapsto> (cb, d))" "c_acts (set_timeout cb d c) = c_acts c"
  by (simp_all add: set_timeout_def c_add_source_def Let_def)

lemma set_timeout_base:
  assumes b: "client_base X c" and t: "timers_in X {} c" and cb: "cb \<noteq> Listener_event" "cb \<notin> lease_timers"
  shows "client_base X (set_timeout cb d c)" "timers_in X {cb} (set_timeout cb d c)"
proof -
  have p: "placed X c" and i: "ids_ok c"
    using b by (simp_all add: client_base_def)
  show "timers_in X {cb} (set_timeout cb d c)"
    using t by (auto simp: timers_in_def)
  have s: "timer_slot cb (set_timeout cb d c) = Suc (c_next c)"
    using cb by (auto simp: timer_slot_def lease_timers_def)
  have "placed X (set_timeout cb d c)"
    unfolding placed_def
  proof (intro allI impI)
    fix n cb' d'
    assume r: "c_sources (set_timeout cb d c) n = Some (cb', d')"
    show "0 < n \<and> n \<le> c_next (set_timeout cb d c) \<and> (n \<notin> X \<longrightarrow> n = timer_slot cb' (set_timeout cb d c) \<and>
        (cb' = Listener_event \<longrightarrow> c_listen_mode (set_timeout cb d c) \<noteq> L_NONE))"
    proof (cases "n = Suc (c_next c)")
      case True
      then show ?thesis using r s cb by auto
    next
      case False
      then have o: "c_sources c n = Some (cb', d')"
        using r by simp
      have "n \<notin> X \<Longrightarrow> cb' = Listener_event"
        using t o unfolding timers_in_def by blast
      then show ?thesis
        using placedD [OF p o] by (auto simp: timer_slot_def)
    qed
  qed
  moreover have "ids_ok (set_timeout cb d c)"
    using i by (auto simp: ids_ok_def client_ids_def split: if_splits)
  ultimately show "client_base X (set_timeout cb d c)"
    using b by (simp add: client_base_def)
qed

text \<open>Switching the listener: the old watch is removed, then perhaps a new one is added.\<close>

definition unlisten :: "dhcp_client \<Rightarrow> dhcp_client" where
  "unlisten c =
     (if c_listen_mode c \<noteq> L_NONE
      then (remove_nonzero (c_listener_watch c) c)\<lparr>c_listen_mode := L_NONE, c_listener_sockfd := - 1, c_listener_watch := 0\<rparr>
      else c)"

definition listen_on :: "listen_mode \<Rightarrow> int \<Rightarrow> dhcp_client \<Rightarrow> dhcp_client" where
  "listen_on mode fd c =
     (let (c, n) = c_add_source Listener_event Watch c
      in c\<lparr>c_listen_mode := mode, c_listener_sockfd := fd, c_listener_watch := n\<rparr>)"

lemma switch_cases:
  "switch_listening_mode env mode c =
     (if c_listen_mode c = mode then (c, 0)
      else if mode = L_NONE then (unlisten c, 0)
      else if open_listener env (unlisten c) mode < 0 \<or> \<not> e_channel env then (unlisten c, - EIO)
      else (listen_on mode (open_listener env (unlisten c) mode) (unlisten c), 0))"
  unfolding switch_listening_mode_def unlisten_def [symmetric] listen_on_def Let_def split_def by (simp only: split: if_split)

lemma unlisten_fields [simp]:
  "c_type (unlisten c) = c_type c" "c_state (unlisten c) = c_state c" "c_listen_mode (unlisten c) = L_NONE"
  "c_retry_times (unlisten c) = c_retry_times c" "c_assigned_ip (unlisten c) = c_assigned_ip c" "c_next (unlisten c) = c_next c"
  "c_expire (unlisten c) = c_expire c" "c_timeout (unlisten c) = c_timeout c" "c_t1_timeout (unlisten c) = c_t1_timeout c"
  "c_t2_timeout (unlisten c) = c_t2_timeout c" "c_lease_timeout (unlisten c) = c_lease_timeout c"
  "c_lease_seconds (unlisten c) = c_lease_seconds c"
  by (simp_all add: unlisten_def remove_nonzero_def c_source_remove_def)

lemma unlisten_sources:
  "c_sources (unlisten c) n =
     (if c_listen_mode c \<noteq> L_NONE \<and> 0 < n \<and> n = c_listener_watch c then None else c_sources c n)"
  by (auto simp: unlisten_def remove_nonzero_def c_source_remove_def)

lemma unlisten_watch: "c_listener_watch (unlisten c) = (if c_listen_mode c \<noteq> L_NONE then 0 else c_listener_watch c)"
  by (simp add: unlisten_def)

lemma listen_on_fields [simp]:
  "c_type (listen_on mode fd c) = c_type c" "c_state (listen_on mode fd c) = c_state c" "c_listen_mode (listen_on mode fd c) = mode"
  "c_retry_times (listen_on mode fd c) = c_retry_times c" "c_assigned_ip (listen_on mode fd c) = c_assigned_ip c"
  "c_next (listen_on mode fd c) = Suc (c_next c)" "c_expire (listen_on mode fd c) = c_expire c"
  "c_timeout (listen_on mode fd c) = c_timeout c" "c_t1_timeout (listen_on mode fd c) = c_t1_timeout c"
  "c_t2_timeout (listen_on mode fd c) = c_t2_timeout c" "c_lease_timeout (listen_on mode fd c) = c_lease_timeout c"
  "c_lease_seconds (listen_on mode fd c) = c_lease_seconds c" "c_listener_watch (listen_on mode fd c) = Suc (c_next c)"
  "c_sources (listen_on mode fd c) = (c_sources c)(Suc (c_next c) \<mapsto> (Listener_event, Watch))"
  by (simp_all add: listen_on_def c_add_source_def Let_def)

lemma unlisten_base:
  assumes "client_base X c"
  shows "client_base X (unlisten c)" "n \<notin> X \<Longrightarrow> c_sources (unlisten c) n = Some (cb, d) \<Longrightarrow> cb \<noteq> Listener_event"
proof -
  have p: "placed X c" and i: "ids_ok c"
    using assms by (simp_all add: client_base_def)
  have no: "cb \<noteq> Listener_event" if "n \<notin> X" "c_sources (unlisten c) n = Some (cb, d)" for n cb d
    using that placedD [OF p, of n cb d] by (auto simp: unlisten_sources timer_slot_def split: if_splits)
  then show "n \<notin> X \<Longrightarrow> c_sources (unlisten c) n = Some (cb, d) \<Longrightarrow> cb \<noteq> Listener_event"
    by blast
  have "placed X (unlisten c)"
    unfolding placed_def
  proof (intro allI impI)
    fix n cb d
    assume r: "c_sources (unlisten c) n = Some (cb, d)"
    then have s: "c_sources c n = Some (cb, d)"
      by (simp add: unlisten_sources split: if_splits)
    show "0 < n \<and> n \<le> c_next (unlisten c) \<and>
        (n \<notin> X \<longrightarrow> n = timer_slot cb (unlisten c) \<and> (cb = Listener_event \<longrightarrow> c_listen_mode (unlisten c) \<noteq> L_NONE))"
      using placedD [OF p s] no [OF _ r] by (auto simp: timer_slot_def)
  qed
  moreover have "ids_ok (unlisten c)"
    using i by (auto simp: ids_ok_def client_ids_def unlisten_watch split: if_splits)
  moreover have "mode_ok (c_type c) L_NONE"
    by (simp add: mode_ok_def split: GDHCPType.split)
  ultimately show "client_base X (unlisten c)"
    by (simp add: client_base_def)
qed

lemma listen_on_base:
  assumes b: "client_base X c" and no: "\<And>n cb d. n \<notin> X \<Longrightarrow> c_sources c n = Some (cb, d) \<Longrightarrow> cb \<noteq> Listener_event"
    and m: "mode_ok (c_type c) mode" "mode \<noteq> L_NONE"
  shows "client_base X (listen_on mode fd c)"
proof -
  have p: "placed X c" and i: "ids_ok c"
    using b by (simp_all add: client_base_def)
  have "placed X (listen_on mode fd c)"
    unfolding placed_def
  proof (intro allI impI)
    fix n cb d
    assume r: "c_sources (listen_on mode fd c) n = Some (cb, d)"
    show "0 < n \<and> n \<le> c_next (listen_on mode fd c) \<and> (n \<notin> X \<longrightarrow> n = timer_slot cb (listen_on mode fd c) \<and>
        (cb = Listener_event \<longrightarrow> c_listen_mode (listen_on mode fd c) \<noteq> L_NONE))"
    proof (cases "n = Suc (c_next c)")
      case True
      then show ?thesis using r m by (auto simp: timer_slot_def)
    next
      case False
      then have o: "c_sources c n = Some (cb, d)"
        using r by simp
      then show ?thesis
        using placedD [OF p o] no [OF _ o] by (auto simp: timer_slot_def)
    qed
  qed
  moreover have "ids_ok (listen_on mode fd c)"
    using i by (auto simp: ids_ok_def client_ids_def split: if_splits)
  ultimately show ?thesis
    using m by (simp add: client_base_def)
qed

lemma mode_ok_NONE [simp]: "mode_ok t L_NONE"
  by (simp add: mode_ok_def split: GDHCPType.split)

lemma switch_base:
  assumes "client_base X c" "mode_ok (c_type c) mode"
  shows "client_base X (fst (switch_listening_mode env mode c))"
  using assms unlisten_base [OF assms(1)] listen_on_base [of X "unlisten c" mode]
  by (auto simp: switch_cases)

lemma switch_fields [simp]:
  fixes env mode c
  defines "c' \<equiv> fst (switch_listening_mode env mode c)"
  shows "c_type c' = c_type c" "c_state c' = c_state c" "c_retry_times c' = c_retry_times c"
    "c_assigned_ip c' = c_assigned_ip c" "c_expire c' = c_expire c" "c_timeout c' = c_timeout c"
    "c_t1_timeout c' = c_t1_timeout c" "c_t2_timeout c' = c_t2_timeout c" "c_lease_timeout c' = c_lease_timeout c"
    "c_lease_seconds c' = c_lease_seconds c"
  unfolding c'_def by (simp_all add: switch_cases)

lemma switch_timers:
  assumes "timers_in X S c"
  shows "timers_in X S (fst (switch_listening_mode env mode c))"
  using assms by (auto simp: switch_cases timers_in_def unlisten_sources split: if_splits)

text \<open>A timer that is held in its field keeps running.\<close>

lemma watch_distinct:
  assumes "ids_ok c" "0 < n" "n \<in> {c_timeout c, c_t1_timeout c, c_t2_timeout c, c_lease_timeout c}"
  shows "n \<noteq> c_listener_watch c"
  using assms by (cases "0 < c_listener_watch c") (auto simp: ids_ok_def client_ids_def simp del: distinct.simps(2) split: if_splits, auto)

lemma switch_keeps:
  assumes b: "client_base X c" and s: "c_sources c n = Some (cb, d)" and n: "n \<in> {c_timeout c, c_t1_timeout c, c_t2_timeout c, c_lease_timeout c}"
  shows "c_sources (fst (switch_listening_mode env mode c)) n = Some (cb, d)"
proof -
  have p: "0 < n" "n \<noteq> Suc (c_next c)"
    using b placedD(1,2) [OF _ s, of X] by (auto simp: client_base_def)
  have "n \<noteq> c_listener_watch c"
    using b p(1) n by (intro watch_distinct) (simp_all add: client_base_def)
  then show ?thesis
    using s p by (simp add: switch_cases unlisten_sources)
qed

section \<open>Steps that leave the sources alone\<close>

definition still :: "dhcp_client \<Rightarrow> dhcp_client \<Rightarrow> bool" where
  "still c c' \<longleftrightarrow>
     c_type c' = c_type c \<and> c_listen_mode c' = c_listen_mode c \<and> client_ids c' = client_ids c \<and> c_sources c' = c_sources c \<and>
     c_next c \<le> c_next c'"

lemma calm_still: "calm c c' \<Longrightarrow> still c c'"
  by (simp add: calm_def still_def)

lemma still_refl [simp]: "still c c"
  by (simp add: still_def)

lemma still_trans: "still a b \<Longrightarrow> still b c \<Longrightarrow> still a c"
  by (simp add: still_def)

lemma still_base:
  assumes q: "still c c'" and b: "client_base X c"
  shows "client_base X c'"
proof -
  have e: "c_type c' = c_type c" "c_listen_mode c' = c_listen_mode c" "c_sources c' = c_sources c" "c_next c \<le> c_next c'"
    "\<And>cb. timer_slot cb c' = timer_slot cb c"
    using q by (simp_all add: still_def client_ids_def timer_slot_def)
  have "placed X c'"
    using b e(4) unfolding client_base_def placed_def e(1-3) e(5) by (blast intro: le_trans)
  moreover have "ids_ok c'"
    using b q unfolding client_base_def ids_ok_def still_def by (auto intro: le_trans)
  ultimately show ?thesis
    using b by (simp add: client_base_def e)
qed

lemma still_timers: "still c c' \<Longrightarrow> timers_in X S c \<Longrightarrow> timers_in X S c'"
  by (simp add: timers_in_def still_def)

lemma still_updates [simp]:
  "still c (c\<lparr>c_state := st\<rparr>)" "still c (c\<lparr>c_retry_times := r\<rparr>)" "still c (c\<lparr>c_assigned_ip := a\<rparr>)"
  "still c (c\<lparr>c_requested_ip := i\<rparr>)" "still c (c\<lparr>c_xid := x\<rparr>)" "still c (c\<lparr>c_start := t\<rparr>)"
  "still c (c\<lparr>c_last_address := l\<rparr>)" "still c (c\<lparr>c_server_ip := i\<rparr>)" "still c (c\<lparr>c_request_bcast := b\<rparr>)"
  "still c (c\<lparr>c_lease_seconds := e\<rparr>)" "still c (c\<lparr>c_conflicts := k\<rparr>)" "still c (c\<lparr>c_ack_retry_times := r\<rparr>)"
  "still c (c\<lparr>c_T1 := e\<rparr>)" "still c (c\<lparr>c_T2 := e\<rparr>)" "still c (c\<lparr>c_expire := e\<rparr>)"
  by (simp_all add: still_def client_ids_def)

lemmas still_after = still_trans [OF _ still_updates(1)] still_trans [OF _ still_updates(2)] still_trans [OF _ still_updates(3)]
  still_trans [OF _ still_updates(4)] still_trans [OF _ still_updates(5)] still_trans [OF _ still_updates(6)]
  still_trans [OF _ still_updates(7)] still_trans [OF _ still_updates(8)] still_trans [OF _ still_updates(9)]
  still_trans [OF _ still_updates(10)] still_trans [OF _ still_updates(11)] still_trans [OF _ still_updates(12)]
  still_trans [OF _ still_updates(13)] still_trans [OF _ still_updates(14)] still_trans [OF _ still_updates(15)]

text \<open>With no timer of its own, a client is in order in every state that its type has, but not with a lease.\<close>

definition idle :: "nat set \<Rightarrow> dhcp_client \<Rightarrow> bool" where
  "idle X c \<longleftrightarrow> client_base X c \<and> timers_in X {} c"

lemma idle_still: "still c c' \<Longrightarrow> idle X c \<Longrightarrow> idle X c'"
  by (simp add: idle_def still_base still_timers)

lemma idle_remove_timeouts: "client_base X c \<Longrightarrow> idle X (remove_timeouts c)"
  unfolding idle_def using remove_timeouts_base [of X c] remove_timeouts_timers [of X c] by (simp add: client_base_def)

lemma idle_switch: "idle X c \<Longrightarrow> mode_ok (c_type c) mode \<Longrightarrow> idle X (fst (switch_listening_mode env mode c))"
  by (simp add: idle_def switch_base switch_timers)

lemma idle_inv:
  assumes "idle X c" "state_ok (c_type c) (c_state c)" "\<not> leased (c_state c)"
  shows "dhcp_inv X c"
  using assms by (auto simp: idle_def dhcp_inv_def lease_ok_def elim: timers_in_mono)

lemma idle_armed_inv:
  assumes "idle X c" "state_ok (c_type c) (c_state c)" "\<not> leased (c_state c)"
    and cb: "cb \<in> allowed_timers (c_type c) (c_state c)"
  shows "dhcp_inv X (set_timeout cb d c)"
proof -
  have t: "cb \<noteq> Listener_event" "cb \<notin> lease_timers"
    using cb assms(3) by (auto simp: allowed_timers_def lease_timers_def split: GDHCPType.splits)
  have b: "client_base X (set_timeout cb d c)" "timers_in X {cb} (set_timeout cb d c)"
    using assms(1) set_timeout_base [OF _ _ t, of X c d] by (auto simp: idle_def)
  have "timers_in X (allowed_timers (c_type c) (c_state c)) (set_timeout cb d c)" "timers_in X (- lease_timers) (set_timeout cb d c)"
    using cb t by (auto intro: timers_in_mono [OF b(2)])
  then show ?thesis
    using b(1) assms(2,3) by (simp add: dhcp_inv_def lease_ok_def)
qed

lemma base_drop:
  assumes "client_base {n} c"
  shows "client_base {} (c_source_remove n c)"
proof -
  have "timer_slot cb (c_source_remove n c) = timer_slot cb c" "client_ids (c_source_remove n c) = client_ids c" for cb
    by (simp_all add: timer_slot_def client_ids_def c_source_remove_def)
  then show ?thesis
    using assms by (auto simp: client_base_def placed_def ids_ok_def c_source_remove_def split: if_splits)
qed

lemma timers_drop: "timers_in {n} S c \<Longrightarrow> timers_in {} S (c_source_remove n c)"
  by (auto simp: timers_in_def c_source_remove_def)

lemma armed_drop:
  "lease_armed {n} c \<Longrightarrow> lease_armed {} (c_source_remove n c)"
  "restart_armed {n} c \<Longrightarrow> restart_armed {} (c_source_remove n c)"
  by (simp_all add: lease_armed_def restart_armed_def c_source_remove_def)

lemma source_remove_fields [simp]:
  "c_type (c_source_remove n c) = c_type c" "c_state (c_source_remove n c) = c_state c"
  "c_retry_times (c_source_remove n c) = c_retry_times c" "c_assigned_ip (c_source_remove n c) = c_assigned_ip c"
  by (simp_all add: c_source_remove_def)

lemma inv_drop:
  assumes "dhcp_inv {n} c"
  shows "dhcp_inv {} (c_source_remove n c)"
  using assms base_drop [of n c] timers_drop [of n _ c] armed_drop [of n c] unfolding dhcp_inv_def lease_ok_def by auto

section \<open>Link-local configuration\<close>

lemma linklocal_range:
  assumes "\<not> IN_CLASSB_HOST - 0x0200 < (tmp :: u32)"
  shows "0xa9fe0100 \<le> (LINKLOCAL_ADDR + 0x0100) + tmp \<and> (LINKLOCAL_ADDR + 0x0100) + tmp \<le> 0xa9fefeff"
  using assms by (simp add: word_le_nat_alt word_less_nat_alt unat_word_ariths)

lemma random_ip_result:
  assumes "ipv4ll_random_ip rand n = Some y"
  shows "n < snd y \<and> 0xa9fe0100 \<le> fst y \<and> fst y \<le> 0xa9fefeff"
proof (rule ipv4ll_random_ip.raw_induct [where P = "\<lambda>rand n y. n < snd y \<and> 0xa9fe0100 \<le> fst y \<and> fst y \<le> 0xa9fefeff", OF _ assms])
  fix f rand n y
  assume IH: "\<And>rand n y. f rand n = Some y \<Longrightarrow> n < snd y \<and> 0xa9fe0100 \<le> fst y \<and> fst y \<le> (0xa9fefeff :: u32)"
    and eq: "(let tmp = (ucast (rand n :: u64) :: u32) AND IN_CLASSB_HOST in
      if tmp > IN_CLASSB_HOST - 0x0200 then f rand (Suc n) else Some ((LINKLOCAL_ADDR + 0x0100) + tmp, Suc n)) = Some y"
  show "n < snd y \<and> 0xa9fe0100 \<le> fst y \<and> fst y \<le> 0xa9fefeff"
  proof (cases "IN_CLASSB_HOST - 0x0200 < (ucast (rand n) :: u32) AND IN_CLASSB_HOST")
    case True
    then show ?thesis using IH [of rand "Suc n" y] eq by (simp add: Let_def)
  next
    case False
    then show ?thesis using linklocal_range [OF False] eq by (auto simp: Let_def)
  qed
qed

lemma random_ip_next: "ipv4ll_random_ip rand n = Some (ip, k) \<Longrightarrow> n < k"
  using random_ip_result by fastforce

lemma still_draw_ip: "draw_ip env c = Some c' \<Longrightarrow> still c c' \<and> c_state c' = c_state c"
  by (auto simp: draw_ip_def bind_eq_Some_conv still_def client_ids_def dest!: random_ip_next)

abbreviation "LL_timers \<equiv> {Send_probe, Probe_timeout, Announce_timeout, Defend_timeout}"

lemma ll_not_leased: "state_ok G_DHCP_IPV4LL st \<Longrightarrow> \<not> leased st"
  by (auto simp: state_ok_def leased_def)

lemma ll_armed:
  assumes "idle X c" "c_type c = G_DHCP_IPV4LL" "state_ok G_DHCP_IPV4LL (c_state c)" "cb \<in> LL_timers"
  shows "dhcp_inv X (set_timeout cb d c)"
  using assms idle_armed_inv [of X c cb d] ll_not_leased by (simp add: allowed_timers_def)

lemma ll_idle:
  assumes "idle X c" "c_type c = G_DHCP_IPV4LL" "state_ok G_DHCP_IPV4LL (c_state c)"
  shows "dhcp_inv X c"
  using assms idle_inv [of X c] ll_not_leased by simp

lemma delay_fields:
  assumes "draw_delay env s c = (c', t)"
  shows "still c c'" "c_type c' = c_type c" "c_state c' = c_state c" "c_retry_times c' = c_retry_times c"
  using calm_fields [OF calm_delay [OF assms]] calm_still [OF calm_delay [OF assms]] by simp_all

lemma ipv4ll_start_inv:
  assumes b: "client_base X c" and t: "c_type c = G_DHCP_IPV4LL" and st: "state_ok G_DHCP_IPV4LL (c_state c)"
    and r: "ipv4ll_start env c = Some c'"
  shows "dhcp_inv X c'"
proof -
  define c0 where "c0 = fst (switch_listening_mode env L_NONE (remove_timeouts c))"
  obtain c1 where d1: "draw_ip env (c0\<lparr>c_retry_times := 0, c_requested_ip := 0\<rparr>) = Some c1"
    using r by (auto simp: ipv4ll_start_def c0_def bind_eq_Some_conv Let_def)
  obtain c2 t where d2: "draw_delay env PROBE_WAIT c1 = (c2, t)"
    by (cases "draw_delay env PROBE_WAIT c1")
  note d = d1 d2
  have c': "c' = set_timeout Send_probe (Millis t) (c2\<lparr>c_retry_times := c_retry_times c2 + 1\<rparr>)"
    using r d by (simp add: ipv4ll_start_def c0_def Let_def)
  have "idle X c0"
    unfolding c0_def by (intro idle_switch idle_remove_timeouts b) simp
  then have "idle X (c2\<lparr>c_retry_times := c_retry_times c2 + 1\<rparr>)"
    by (rule idle_still [rotated])
      (intro still_after(2) still_trans [OF _ delay_fields(1) [OF d(2)]] still_trans [OF _ conjunct1 [OF still_draw_ip [OF d(1)]]]
        still_after(4) still_refl)
  moreover have "c_type c2 = c_type c" "c_state c2 = c_state c"
    using still_draw_ip [OF d(1)] delay_fields [OF d(2)] by (simp_all add: still_def c0_def)
  ultimately show ?thesis
    unfolding c' using t st by (intro ll_armed) simp_all
qed

text \<open>Stopping removes the watch once more, for a listener that is not there.\<close>

lemma drop_watch_idle:
  assumes "idle X c" "c_listen_mode c = L_NONE"
  shows "idle X ((remove_nonzero (c_listener_watch c) c)\<lparr>c_listener_watch := 0\<rparr>)" (is "idle X ?c")
proof -
  have b: "client_base X c" and t: "timers_in X {} c"
    using assms by (simp_all add: idle_def)
  have s: "c_sources ?c n = Some (cb, d) \<Longrightarrow> c_sources c n = Some (cb, d)" for n cb d
    by (auto simp: remove_nonzero_def c_source_remove_def split: if_splits)
  have f: "c_next ?c = c_next c" "c_type ?c = c_type c" "c_listen_mode ?c = L_NONE" "c_timeout ?c = c_timeout c"
    "c_t1_timeout ?c = c_t1_timeout c" "c_t2_timeout ?c = c_t2_timeout c" "c_lease_timeout ?c = c_lease_timeout c"
    "c_listener_watch ?c = 0"
    using assms(2) by (simp_all add: remove_nonzero_def c_source_remove_def)
  have "n \<in> X" if "c_sources c n = Some (cb, d)" for n cb d
    using that b t assms(2) unfolding client_base_def placed_def timers_in_def by blast
  then have "placed X ?c"
    using b s unfolding client_base_def placed_def f by blast
  moreover have "ids_ok ?c"
    using b by (auto simp: client_base_def ids_ok_def client_ids_def f split: if_splits)
  moreover have "timers_in X {} ?c"
    using t s unfolding timers_in_def by blast
  ultimately show ?thesis
    by (simp add: idle_def client_base_def f)
qed

lemma switch_none: "c_listen_mode (fst (switch_listening_mode env L_NONE c)) = L_NONE"
  by (simp add: switch_cases)

lemma ipv4ll_stop_idle:
  assumes b: "client_base X c"
  shows "idle X (ipv4ll_stop env c)" "c_type (ipv4ll_stop env c) = c_type c" "c_state (ipv4ll_stop env c) = IPV4LL_PROBE"
proof -
  define c0 where "c0 = remove_timeouts (fst (switch_listening_mode env L_NONE c))"
  define c1 where "c1 = (remove_nonzero (c_listener_watch c0) c0)\<lparr>c_listener_watch := 0\<rparr>"
  have e: "ipv4ll_stop env c = c1\<lparr>c_state := IPV4LL_PROBE, c_retry_times := 0, c_requested_ip := 0, c_assigned_ip := None\<rparr>"
    by (simp only: ipv4ll_stop_def Let_def c0_def c1_def)
  have "idle X c1"
    unfolding c1_def c0_def
    by (intro drop_watch_idle idle_remove_timeouts switch_base b) (simp_all add: switch_none)
  then show "idle X (ipv4ll_stop env c)"
    unfolding e by (rule idle_still [rotated]) (intro still_after(1-4) still_refl)
  show "c_type (ipv4ll_stop env c) = c_type c" "c_state (ipv4ll_stop env c) = IPV4LL_PROBE"
    by (simp_all add: e c1_def c0_def remove_nonzero_def c_source_remove_def)
qed

lemma arp_fields:
  "still c (send_arp env s t c)" "c_type (send_arp env s t c) = c_type c" "c_state (send_arp env s t c) = c_state c"
  using calm_fields [OF calm_arp [of c env s t]] calm_still [OF calm_arp] by simp_all

lemma send_probe_inv:
  assumes i: "idle X c" and t: "c_type c = G_DHCP_IPV4LL" and st: "state_ok G_DHCP_IPV4LL (c_state c)"
    and r: "send_probe_packet env c = Some c'"
  shows "dhcp_inv X c'"
proof -
  obtain c1 where c1: "(if c_requested_ip c = 0 then draw_ip env c else Some c) = Some c1"
    using r by (auto simp: send_probe_packet_def bind_eq_Some_conv)
  have s1: "still c c1" "c_state c1 = c_state c"
    using c1 still_draw_ip [of env c c1] by (auto split: if_splits)
  define c2 where "c2 = (if c_retry_times c1 = 1 then fst (switch_listening_mode env L_ARP (c1\<lparr>c_state := IPV4LL_PROBE\<rparr>)) else c1)"
  have t1: "c_type c1 = G_DHCP_IPV4LL" and i1: "idle X c1"
    using s1 t idle_still [OF s1(1) i] by (simp_all add: still_def)
  have i2: "idle X c2"
    unfolding c2_def using i1 t1 idle_still [OF still_updates(1) i1]
    by (auto intro!: idle_switch simp: mode_ok_def)
  have f2: "c_type c2 = G_DHCP_IPV4LL" "state_ok G_DHCP_IPV4LL (c_state c2)"
    using t1 st s1 by (auto simp: c2_def state_ok_def)
  define c3 where "c3 = send_arp env 0 (c_requested_ip c2) c2"
  obtain c4 d where c4: "(if c_retry_times c3 < PROBE_NUM
      then let (c, t) = draw_delay env (PROBE_MAX - PROBE_MIN) c3 in (c, t + PROBE_MIN * 1000) else (c3, ANNOUNCE_WAIT * 1000)) = (c4, d)"
    by fastforce
  have s4: "still c3 c4" "c_type c4 = c_type c3" "c_state c4 = c_state c3"
    using c4 delay_fields [of env _ c3] by (auto split: if_splits prod.splits)
  have "c' = set_timeout Probe_timeout (Millis d) c4"
    using r c1 c4 unfolding send_probe_packet_def Let_def c3_def c2_def by simp
  moreover have "idle X c4"
    by (rule idle_still [OF still_trans [OF _ s4(1)] i2]) (simp add: c3_def arp_fields)
  ultimately show ?thesis
    using f2 s4 by (auto simp: c3_def arp_fields intro!: ll_armed)
qed

lemma send_announce_inv:
  assumes b: "client_base X c" and t: "c_type c = G_DHCP_IPV4LL" and st: "state_ok G_DHCP_IPV4LL (c_state c)"
  shows "dhcp_inv X (send_announce_packet env c)"
proof -
  have "idle X (remove_timeouts (send_arp env (c_requested_ip c) (c_requested_ip c) c))"
    by (intro idle_remove_timeouts still_base [OF arp_fields(1)] b)
  then show ?thesis
    unfolding send_announce_packet_def Let_def using t st by (auto intro!: ll_armed simp: arp_fields)
qed

lemma inv_baseD: "dhcp_inv X c \<Longrightarrow> client_base X c" "dhcp_inv X c \<Longrightarrow> state_ok (c_type c) (c_state c)"
  by (simp_all add: dhcp_inv_def)

lemma ll_state_inv:
  assumes "dhcp_inv X c" "c_type c = G_DHCP_IPV4LL" "still c c'" "state_ok G_DHCP_IPV4LL (c_state c')"
  shows "dhcp_inv X c'"
proof -
  have "timers_in X LL_timers c" "c_type c' = G_DHCP_IPV4LL"
    using assms by (auto simp: dhcp_inv_def allowed_timers_def still_def)
  moreover have "timers_in X (- lease_timers) c'"
    by (rule still_timers [OF assms(3) timers_in_mono [OF calculation(1)]]) (auto simp: lease_timers_def)
  ultimately show ?thesis
    using assms still_base [OF assms(3)] still_timers [OF assms(3)] ll_not_leased
    by (simp add: dhcp_inv_def lease_ok_def allowed_timers_def)
qed

lemma recv_arp_inv:
  assumes i: "dhcp_inv X c" and t: "c_type c = G_DHCP_IPV4LL"
  shows "dhcp_inv X (ipv4ll_recv_arp_packet env rd c)"
proof -
  have st: "state_ok G_DHCP_IPV4LL (c_state c)"
    using inv_baseD(2) [OF i] t by simp
  define c1 where "c1 = c\<lparr>c_conflicts := c_conflicts c + 1\<rparr>"
  have i1: "dhcp_inv X c1" and t1: "c_type c1 = G_DHCP_IPV4LL" and s1: "c_state c1 = c_state c"
    using t st by (auto simp: c1_def intro: ll_state_inv [OF i t])
  have announce: "dhcp_inv X (send_announce_packet env (c1\<lparr>c_state := IPV4LL_DEFEND\<rparr>))"
    using t1 still_base [OF still_updates(1) inv_baseD(1) [OF i1]] by (intro send_announce_inv) (simp_all add: state_ok_def)
  define c2 where "c2 = ipv4ll_stop env (if c_state c1 = IPV4LL_DEFEND then c_event EVENT_IPV4LL_LOST c1 else c1)"
  have "client_base X (if c_state c1 = IPV4LL_DEFEND then c_event EVENT_IPV4LL_LOST c1 else c1)"
    using inv_baseD(1) [OF i1] calm_base [OF calm_event] by simp
  then have i2: "idle X c2" and t2: "c_type c2 = G_DHCP_IPV4LL" and s2: "c_state c2 = IPV4LL_PROBE"
    using t1 by (simp_all add: c2_def ipv4ll_stop_idle calm_fields [OF calm_event])
  obtain c3 d where d: "draw_delay env PROBE_WAIT (c2\<lparr>c_retry_times := c_retry_times c2 + 1\<rparr>) = (c3, d)"
    by fastforce
  have i3: "idle X c3"
    by (rule idle_still [OF still_trans [OF still_updates(2) delay_fields(1) [OF d]] i2])
  have probe: "dhcp_inv X (set_timeout Send_probe (Millis d) c3)"
    using t2 s2 by (intro ll_armed i3) (simp_all add: delay_fields [OF d] state_ok_def)
  have lost: "dhcp_inv X (c_event EVENT_NO_LEASE c2)"
    using t2 s2 by (intro calm_inv [OF calm_event] ll_idle i2) (simp_all add: state_ok_def)
  show ?thesis
    unfolding ipv4ll_recv_arp_packet_def Let_def c1_def [symmetric] c2_def [symmetric] d split
    using i i1 announce probe lost by (simp split: sum.split)
qed

text \<open>Before the handler of a timer that is held in the first field runs, no other timer of the client runs.\<close>

lemma base_mono: "client_base {} c \<Longrightarrow> client_base X c"
  by (auto simp: client_base_def placed_def)

lemma fired_idle:
  assumes i: "dhcp_inv {} c" and s: "c_sources c n = Some (cb, d)" and cb: "cb \<noteq> Listener_event" "cb \<notin> lease_timers"
    and none: "timers_in {} (- lease_timers) c"
  shows "idle {n} c"
proof -
  have b: "client_base {} c"
    by (rule inv_baseD(1) [OF i])
  have sl: "m = c_timeout c" if "c_sources c m = Some (cb', d')" "cb' \<noteq> Listener_event" "cb' \<notin> lease_timers" for m cb' d'
    using that b placedD(3) [of "{}" c m cb' d'] by (auto simp: client_base_def timer_slot_def lease_timers_def split: if_splits)
  then have "timers_in {n} {} c"
    using none sl [OF s cb] unfolding timers_in_def by blast
  then show ?thesis
    using base_mono [OF b] by (simp add: idle_def)
qed

lemma allowed_not_lease:
  assumes "dhcp_inv X c" "\<not> leased (c_state c)"
  shows "timers_in X (- lease_timers) c"
proof -
  have "timers_in X (allowed_timers (c_type c) (c_state c)) c"
    using assms by (simp add: dhcp_inv_def)
  then show ?thesis
    by (rule timers_in_mono) (use assms in \<open>auto simp: allowed_timers_def lease_timers_def split: GDHCPType.splits\<close>)
qed

lemma idle_no_timeout:
  assumes "idle X c"
  shows "idle X (c\<lparr>c_timeout := 0\<rparr>)"
proof -
  have b: "client_base X c" and t: "timers_in X {} c"
    using assms by (simp_all add: idle_def)
  have sl: "n = timer_slot cb (c\<lparr>c_timeout := 0\<rparr>)" if "c_sources c n = Some (cb, d)" "n \<notin> X" for n cb d
    using that t placedD(3) [of X c n cb d] b by (auto simp: client_base_def timers_in_def timer_slot_def)
  have "placed X (c\<lparr>c_timeout := 0\<rparr>)"
    unfolding placed_def
  proof (intro allI impI)
    fix n cb d
    assume "c_sources (c\<lparr>c_timeout := 0\<rparr>) n = Some (cb, d)"
    then show "0 < n \<and> n \<le> c_next (c\<lparr>c_timeout := 0\<rparr>) \<and> (n \<notin> X \<longrightarrow> n = timer_slot cb (c\<lparr>c_timeout := 0\<rparr>) \<and>
        (cb = Listener_event \<longrightarrow> c_listen_mode (c\<lparr>c_timeout := 0\<rparr>) \<noteq> L_NONE))"
      using placedD [of X c n cb d] sl [of n cb d] b by (simp add: client_base_def)
  qed
  moreover have "ids_ok (c\<lparr>c_timeout := 0\<rparr>)"
    using b by (auto simp: client_base_def ids_ok_def client_ids_def split: if_splits)
  ultimately show ?thesis
    using b t by (simp add: idle_def client_base_def timers_in_def)
qed

lemma announce_timeout_inv:
  assumes i: "idle X c" and t: "c_type c = G_DHCP_IPV4LL" and st: "state_ok G_DHCP_IPV4LL (c_state c)"
  shows "dhcp_inv X (ipv4ll_announce_timeout env c)"
proof -
  define c1 where "c1 = c\<lparr>c_state := IPV4LL_MONITOR, c_assigned_ip := Some (inet_ntoa (htonl (c_requested_ip c)))\<rparr>"
  have "idle X (c_event EVENT_IPV4LL_AVAILABLE c1)"
    unfolding c1_def by (rule idle_still [OF _ i]) (intro still_trans [OF _ calm_still [OF calm_event]] still_after(3,1) still_refl)
  then have "idle X ((c_event EVENT_IPV4LL_AVAILABLE c1)\<lparr>c_conflicts := 0, c_timeout := 0\<rparr>)"
    by (intro idle_no_timeout idle_still [OF still_updates(11)])
  moreover have "c_type (c_event EVENT_IPV4LL_AVAILABLE c1) = G_DHCP_IPV4LL" "c_state (c_event EVENT_IPV4LL_AVAILABLE c1) = IPV4LL_MONITOR"
    using t by (simp_all add: calm_fields [OF calm_event] c1_def)
  ultimately have "dhcp_inv X ((c_event EVENT_IPV4LL_AVAILABLE c1)\<lparr>c_conflicts := 0, c_timeout := 0\<rparr>)"
    by (intro ll_idle) (simp_all add: state_ok_def)
  moreover have "dhcp_inv X (send_announce_packet env (c\<lparr>c_retry_times := c_retry_times c + 1\<rparr>))"
    using i t st by (intro send_announce_inv still_base [OF still_updates(2)]) (simp_all add: idle_def)
  ultimately show ?thesis
    unfolding ipv4ll_announce_timeout_def Let_def c1_def by simp
qed

lemma ll_timer_inv:
  assumes i: "dhcp_inv {} c" and s: "c_sources c n = Some (cb, d)" and cb: "cb \<in> LL_timers"
    and r: "run_timer env cb c = Some c'"
  shows "dhcp_inv {n} c'"
proof -
  have "cb \<in> allowed_timers (c_type c) (c_state c)"
    using i s cb unfolding dhcp_inv_def timers_in_def by (metis client_callback.distinct(17,19,21,23,25) insertE empty_iff)
  then have t: "c_type c = G_DHCP_IPV4LL"
    using cb by (auto simp: allowed_timers_def lease_timers_def split: GDHCPType.splits if_splits)
  have st: "state_ok G_DHCP_IPV4LL (c_state c)"
    using inv_baseD(2) [OF i] t by simp
  have f: "idle {n} c"
    using cb by (intro fired_idle [OF i s _ _ allowed_not_lease [OF i ll_not_leased [OF st]]]) (auto simp: lease_timers_def)
  then have b: "client_base {n} c"
    by (simp add: idle_def)
  have upd: "idle {n} (c\<lparr>c_retry_times := k\<rparr>)" for k
    by (rule idle_still [OF still_updates(2) f])
  consider "cb = Send_probe" | "cb = Probe_timeout" | "cb = Announce_timeout" | "cb = Defend_timeout"
    using cb by blast
  then show ?thesis
  proof cases
    case 1
    then show ?thesis using r send_probe_inv [OF f t st] by (simp add: run_timer_def)
  next
    case 2
    have "dhcp_inv {n} (send_announce_packet env (c\<lparr>c_state := IPV4LL_ANNOUNCE, c_retry_times := 1\<rparr>))"
      using t by (intro send_announce_inv still_base [OF still_trans [OF still_updates(1,2)] b]) (simp_all add: state_ok_def)
    then show ?thesis
      using 2 r send_probe_inv [OF upd, of "c_retry_times c + 1" env c'] t st
      by (auto simp: run_timer_def ipv4ll_probe_timeout_def split: if_splits)
  next
    case 3
    show ?thesis using 3 r announce_timeout_inv [OF f t st, of env] by (simp add: run_timer_def)
  next
    case 4
    have "dhcp_inv {n} (ipv4ll_defend_timeout c)"
      unfolding ipv4ll_defend_timeout_def using t
      by (intro ll_idle idle_still [OF still_trans [OF still_updates(11,1)] f]) (simp_all add: state_ok_def)
    then show ?thesis using 4 r by (simp add: run_timer_def)
  qed
qed

section \<open>Starting\<close>

text \<open>What a call that starts the client again leaves: a client that is in order and holds no lease.\<close>

abbreviation "DHCP_timers \<equiv> {Discover_timeout, Reboot_timeout, Request_timeout, Restart_dhcp_timeout}"

definition fresh :: "client_state \<Rightarrow> bool" where
  "fresh st \<longleftrightarrow> st \<in> {INIT_SELECTING, REBOOTING, REQUESTING, RELEASED}"

lemma dhcp_armed:
  assumes "idle X c" "c_type c = G_DHCP_IPV4" "fresh (c_state c)" "cb \<in> DHCP_timers"
  shows "dhcp_inv X (set_timeout cb d c)"
  using assms by (intro idle_armed_inv) (auto simp: allowed_timers_def state_ok_def leased_def fresh_def)

lemma dhcp_idle:
  assumes "idle X c" "c_type c = G_DHCP_IPV4" "fresh (c_state c)"
  shows "dhcp_inv X c"
  using assms by (intro idle_inv) (auto simp: state_ok_def leased_def fresh_def)

lemma request_fields:
  assumes "send_request env c = Some c'"
  shows "still c c'" "c_type c' = c_type c" "c_state c' = c_state c"
  using calm_fields [OF calm_request [OF assms]] calm_still [OF calm_request [OF assms]] by simp_all

lemma discover_fields:
  assumes "send_discover env a c = Some c'"
  shows "still c c'" "c_type c' = c_type c" "c_state c' = c_state c"
  using calm_fields [OF calm_discover [OF assms]] calm_still [OF calm_discover [OF assms]] by simp_all

lemma start_request_inv:
  assumes i: "idle X c" and t: "c_type c = G_DHCP_IPV4" and f: "fresh (c_state c)" and r: "start_request env c = Some c'"
  shows "dhcp_inv X c'"
proof (cases "c_retry_times c = REQUEST_RETRIES")
  case True
  then have "c' = c_event EVENT_NO_LEASE c"
    using r by (simp add: start_request_def)
  then show ?thesis
    using dhcp_idle [OF i t f] calm_inv [OF calm_event] by simp
next
  case False
  define c1 where "c1 = (if c_retry_times c = 0 then fst (switch_listening_mode env L2 (c\<lparr>c_state := REQUESTING\<rparr>)) else c)"
  have i1: "idle X c1" "c_type c1 = G_DHCP_IPV4" "fresh (c_state c1)"
    using i t f idle_still [OF still_updates(1) i]
    by (auto simp: c1_def fresh_def mode_ok_def intro!: idle_switch)
  obtain c2 where c2: "send_request env c1 = Some c2" "c' = set_timeout Request_timeout (Seconds REQUEST_TIMEOUT) c2"
    using r False by (auto simp: start_request_def c1_def [symmetric] Let_def bind_eq_Some_conv)
  show ?thesis
    unfolding c2(2) using i1 idle_still [OF request_fields(1) [OF c2(1)]] by (intro dhcp_armed) (simp_all add: request_fields [OF c2(1)])
qed

lemma first_attempt_idle:
  assumes i: "idle X c" and t: "c_type c = G_DHCP_IPV4" and f: "c_retry_times c \<noteq> 0 \<Longrightarrow> fresh (c_state c)"
    and r: "first_attempt env c = (c', re)"
  shows "idle X c'" "c_type c' = G_DHCP_IPV4" "fresh (c_state c')"
proof -
  define c0 where "c0 = c\<lparr>c_assigned_ip := None, c_state := INIT_SELECTING\<rparr>"
  obtain c1 re1 where sw: "switch_listening_mode env L2 c0 = (c1, re1)"
    by fastforce
  have "idle X c0"
    unfolding c0_def by (rule idle_still [OF still_trans [OF still_updates(3,1)] i])
  then have i1: "idle X c1"
    using idle_switch [of X c0 L2 env] t sw by (simp add: mode_ok_def c0_def)
  have t1: "c_type c1 = G_DHCP_IPV4" "c_state c1 = INIT_SELECTING"
    using t sw switch_fields(1,2) [of env L2 c0] by (simp_all add: c0_def)
  have i2: "idle X (c1\<lparr>c_next := Suc (c_next c1), c_xid := x, c_start := y\<rparr>)" for x y
    by (rule idle_still [OF _ i1]) (intro still_after(5,6) calm_still [OF calm_tick_fst])
  have "c' = c \<and> c_retry_times c \<noteq> 0 \<or> c' = c1 \<or>
      c' = c1\<lparr>c_next := Suc (c_next c1), c_xid := ucast (e_rand env (c_next c1)), c_start := e_time env\<rparr>"
    using r unfolding first_attempt_def c0_def [symmetric] sw by (auto simp: c_tick_def split: if_splits)
  then show "idle X c'" "c_type c' = G_DHCP_IPV4" "fresh (c_state c')"
    using i t f i1 t1 i2 by (auto simp: fresh_def)
qed

lemma start4_inv:
  assumes i: "idle X c" and t: "c_type c = G_DHCP_IPV4" and f: "fresh (c_state c)" and r: "start4 env l c = Some (c', re)"
  shows "dhcp_inv X c'"
proof (cases "start_address l = 0")
  case False
  define c1 where "c1 = c\<lparr>c_last_address := l, c_requested_ip := start_address l, c_state := REBOOTING\<rparr>"
  obtain c2 where c2: "send_request env c1 = Some c2" "c' = set_timeout Reboot_timeout (Seconds REQUEST_TIMEOUT) c2"
    using r False by (auto simp: start4_def c1_def Let_def bind_eq_Some_conv)
  have "idle X c2"
    by (rule idle_still [OF still_trans [OF _ request_fields(1) [OF c2(1)]] i]) (unfold c1_def, intro still_after(1,4,7) still_refl)
  then show ?thesis
    unfolding c2(2) using t by (intro dhcp_armed) (simp_all add: request_fields [OF c2(1)] c1_def fresh_def)
next
  case True
  define c1 where "c1 = (case l of None \<Rightarrow> c
    | Some s \<Rightarrow> if ntohl (inet_addr s) = 0 then c\<lparr>c_last_address := l\<rparr> else c)"
  have s1: "still c c1" "c_type c1 = c_type c" "c_state c1 = c_state c"
    by (auto simp: c1_def split: option.split)
  obtain c2 where c2: "send_discover env 0 c1 = Some c2" "c' = set_timeout Discover_timeout (Seconds DISCOVER_TIMEOUT) c2"
    using r True by (auto simp: start4_def c1_def Let_def bind_eq_Some_conv)
  have "idle X c2"
    by (rule idle_still [OF still_trans [OF s1(1) discover_fields(1) [OF c2(1)]] i])
  then show ?thesis
    unfolding c2(2) using t f s1 by (intro dhcp_armed) (simp_all add: discover_fields [OF c2(1)])
qed

text \<open>A DHCPv6 client has no timers of its own.\<close>

lemma v6_not_leased: "state_ok G_DHCP_IPV6 st \<Longrightarrow> \<not> leased st"
  by (auto simp: state_ok_def leased_def)

lemma v6_idle:
  assumes "idle X c" "c_type c = G_DHCP_IPV6" "state_ok G_DHCP_IPV6 (c_state c)"
  shows "dhcp_inv X c"
  using assms v6_not_leased by (intro idle_inv) simp_all

lemma start6_with_inv:
  assumes i: "idle X c" and t: "c_type c = G_DHCP_IPV6" and st: "state_ok G_DHCP_IPV6 st"
    and r: "start6_with env st type c = Some (c', re)"
  shows "dhcp_inv X c'"
proof -
  define c0 where "c0 = c\<lparr>c_state := st\<rparr>"
  obtain c1 re1 where sw: "switch_listening_mode env L3 c0 = (c1, re1)"
    by fastforce
  have i1: "idle X c1" "c_type c1 = G_DHCP_IPV6" "c_state c1 = st"
    using idle_switch [of X c0 L3 env] idle_still [OF still_updates(1) i] t sw switch_fields(1,2) [of env L3 c0]
    by (simp_all add: mode_ok_def c0_def)
  show ?thesis
  proof (cases "re1 = 0")
    case True
    then obtain c2 where c2: "send_dhcpv6_msg env type c1 = Some c2" "c' = c2"
      using r by (auto simp: start6_with_def c0_def [symmetric] sw)
    note q = calm_dhcpv6_msg [OF c2(1)]
    have "dhcp_inv X c1"
      using i1 st by (intro v6_idle) simp_all
    then show ?thesis
      unfolding c2(2) by (rule calm_inv [OF q])
  next
    case False
    then have e: "c' = (fst (switch_listening_mode env L_NONE c1))\<lparr>c_state := INIT_SELECTING\<rparr>"
      using r by (simp add: start6_with_def c0_def [symmetric] sw)
    show ?thesis
      unfolding e using i1 by (intro v6_idle idle_still [OF still_updates(1)] idle_switch) (simp_all add: state_ok_def)
  qed
qed

lemma start6_inv:
  assumes "idle X c" "c_type c = G_DHCP_IPV6" "state_ok G_DHCP_IPV6 (c_state c)" "start6 env c = Some (c', re)"
  shows "dhcp_inv X c'"
proof -
  have "state_ok G_DHCP_IPV6 INFORMATION_REQ" "state_ok G_DHCP_IPV6 SOLICITATION" "state_ok G_DHCP_IPV6 REQUEST"
    "state_ok G_DHCP_IPV6 CONFIRM" "state_ok G_DHCP_IPV6 RENEW" "state_ok G_DHCP_IPV6 REBIND" "state_ok G_DHCP_IPV6 DECLINE"
    by (simp_all add: state_ok_def)
  then show ?thesis
    using assms(4) v6_idle [OF assms(1-3)] unfolding start6_def
    by (auto split: if_splits intro: start6_with_inv [OF assms(1,2)])
qed

lemma g_dhcp_client_start_inv:
  assumes b: "client_base X c" and st: "state_ok (c_type c) (c_state c)" and l: "leased (c_state c) \<Longrightarrow> c_retry_times c = 0"
    and r: "g_dhcp_client_start env a c = Some (c', re)"
  shows "dhcp_inv X c'"
proof -
  have i: "idle X (remove_timeouts c)"
    by (rule idle_remove_timeouts [OF b])
  show ?thesis
  proof (cases "c_type c")
    case G_DHCP_IPV6
    then show ?thesis
      using r st start6_inv [OF i] by (simp add: g_dhcp_client_start_def)
  next
    case G_DHCP_IPV4LL
    then show ?thesis
      using r ipv4ll_start_inv [of X "(remove_timeouts c)\<lparr>c_state := INIT_SELECTING\<rparr>" env c'] i
      by (auto simp: g_dhcp_client_start_def idle_def state_ok_def intro: still_base [OF still_updates(1)])
  next
    case G_DHCP_IPV4
    have f: "fresh (c_state c)" if "c_retry_times c \<noteq> 0"
      using that st l G_DHCP_IPV4 by (auto simp: state_ok_def leased_def fresh_def)
    obtain c1 re1 where fa: "first_attempt env (remove_timeouts c) = (c1, re1)"
      by fastforce
    have f1: "idle X c1" "c_type c1 = G_DHCP_IPV4" "fresh (c_state c1)"
      by (rule first_attempt_idle [OF i _ _ fa]; use G_DHCP_IPV4 f in simp)+
    have "idle X ((c_event EVENT_NO_LEASE (remove_timeouts c))\<lparr>c_retry_times := 0\<rparr>)"
      by (rule idle_still [OF still_trans [OF calm_still [OF calm_event] still_updates(2)] i])
    then have "dhcp_inv X ((c_event EVENT_NO_LEASE (remove_timeouts c))\<lparr>c_retry_times := 0\<rparr>)" if "c_retry_times c = DISCOVER_RETRIES"
      using that G_DHCP_IPV4 f by (intro dhcp_idle) (simp_all add: calm_fields [OF calm_event])
    then show ?thesis
      using r G_DHCP_IPV4 fa start4_inv [OF f1] dhcp_idle [OF f1]
      by (auto simp: g_dhcp_client_start_def Let_def split: if_splits)
  qed
qed

section \<open>The lease\<close>

definition held_inv :: "nat set \<Rightarrow> dhcp_client \<Rightarrow> bool" where
  "held_inv X c \<longleftrightarrow>
     client_base X c \<and> c_type c = G_DHCP_IPV4 \<and> leased (c_state c) \<and> timers_in X (insert Restart_dhcp_timeout lease_timers) c \<and>
     c_retry_times c = 0 \<and> c_assigned_ip c \<noteq> None \<and> lease_armed X c"

lemma held_inv_inv: "held_inv X c \<Longrightarrow> dhcp_inv X c"
  by (auto simp: held_inv_def dhcp_inv_def allowed_timers_def lease_ok_def leased_def state_ok_def)

lemma lease_still:
  assumes "still c c'" "leased (c_state c')" "c_retry_times c' = c_retry_times c" "c_assigned_ip c' = c_assigned_ip c" "c_expire c' = c_expire c"
    "held_inv X c"
  shows "held_inv X c'"
proof -
  have "lease_armed X c'"
    using assms by (simp add: held_inv_def lease_armed_def still_def client_ids_def)
  then show ?thesis
    using assms still_base [OF assms(1), of X] still_timers [OF assms(1), of X] by (simp add: held_inv_def) (simp add: still_def)
qed

lemma lease_quiet:
  assumes "calm c c'" "held_inv X c"
  shows "held_inv X c'"
  using assms(2) calm_fields [OF assms(1)]
  by (intro lease_still [OF calm_still [OF assms(1)] _ _ _ _ assms(2)]) (simp_all add: held_inv_def)

lemma lease_switch:
  assumes "held_inv X c" "mode_ok G_DHCP_IPV4 mode"
  shows "held_inv X (fst (switch_listening_mode env mode c))"
proof -
  have b: "client_base X c"
    using assms by (simp add: held_inv_def)
  have "lease_armed X (fst (switch_listening_mode env mode c))"
    using assms switch_keeps [OF b, of "c_lease_timeout c" Start_expire "Seconds (c_expire c)" env mode]
    by (simp add: held_inv_def lease_armed_def)
  then show ?thesis
    using assms switch_base [OF b, of mode env] switch_timers [of X _ c] by (simp add: held_inv_def)
qed

lemma lease_distinct:
  assumes "ids_ok c" "0 < c_lease_timeout c"
  shows "c_lease_timeout c \<notin> {c_timeout c, c_t1_timeout c, c_t2_timeout c}"
  using assms by (auto simp: ids_ok_def client_ids_def split: if_splits)

text \<open>The timers of the two times: one is removed, and perhaps a new one is added.\<close>

lemma lease_remove:
  assumes i: "held_inv X c" and m: "m \<in> {c_t1_timeout c, c_t2_timeout c}"
  shows "held_inv X (remove_nonzero m c)"
proof -
  let ?c = "remove_nonzero m c"
  have f: "c_type ?c = c_type c" "c_state ?c = c_state c" "c_listen_mode ?c = c_listen_mode c" "client_ids ?c = client_ids c"
    "c_next ?c = c_next c" "c_retry_times ?c = c_retry_times c" "c_assigned_ip ?c = c_assigned_ip c" "c_expire ?c = c_expire c"
    "c_lease_timeout ?c = c_lease_timeout c" "\<And>cb. timer_slot cb ?c = timer_slot cb c"
    by (simp_all add: remove_nonzero_def c_source_remove_def client_ids_def timer_slot_def)
  have s: "c_sources ?c n = (if 0 < n \<and> n = m then None else c_sources c n)" for n
    by (auto simp: remove_nonzero_def c_source_remove_def)
  have b: "client_base X c" and a: "lease_armed X c"
    using i by (simp_all add: held_inv_def)
  have p: "0 < c_lease_timeout c"
    using a b placedD(1) [of X c "c_lease_timeout c"] by (auto simp: lease_armed_def client_base_def)
  then have "m \<noteq> c_lease_timeout c"
    using b m lease_distinct [of c] by (auto simp: client_base_def)
  then have "lease_armed X ?c"
    using a by (simp add: lease_armed_def f s)
  moreover have "client_base X ?c"
    using b unfolding client_base_def placed_def ids_ok_def f s by (simp split: if_split)
  moreover have "timers_in X (insert Restart_dhcp_timeout lease_timers) ?c"
    using i by (simp add: held_inv_def timers_in_def s)
  ultimately show ?thesis
    using i by (simp add: held_inv_def f)
qed

lemma placed_add:
  assumes p: "placed X c" and s: "c_sources c' = (c_sources c)(Suc (c_next c) \<mapsto> (cb, d))" "c_next c' = Suc (c_next c)"
    and cb: "timer_slot cb c' = Suc (c_next c)" "cb \<noteq> Listener_event" and m: "c_listen_mode c' = c_listen_mode c"
    and o: "\<And>n cb' d'. c_sources c n = Some (cb', d') \<Longrightarrow> n \<notin> X \<Longrightarrow> timer_slot cb' c' = timer_slot cb' c"
  shows "placed X c'"
  unfolding placed_def
proof (intro allI impI)
  fix n cb' d'
  assume r: "c_sources c' n = Some (cb', d')"
  show "0 < n \<and> n \<le> c_next c' \<and> (n \<notin> X \<longrightarrow> n = timer_slot cb' c' \<and> (cb' = Listener_event \<longrightarrow> c_listen_mode c' \<noteq> L_NONE))"
  proof (cases "n = Suc (c_next c)")
    case True
    then show ?thesis using r s cb by auto
  next
    case False
    then have k: "c_sources c n = Some (cb', d')"
      using r s by simp
    show ?thesis
      using placedD [OF p k] o [OF k] s m by auto
  qed
qed

lemma distinct_filter_update: "distinct (filter P xs) \<Longrightarrow> x \<notin> set xs \<Longrightarrow> distinct (filter P (xs[k := x]))"
proof (induction xs arbitrary: k)
  case (Cons y ys)
  show ?case
  proof (cases k)
    case 0
    then show ?thesis using Cons.prems by (auto split: if_splits)
  next
    case (Suc j)
    have "y \<notin> set (filter P (ys[j := x]))" if "P y"
      using that Cons.prems set_update_subset_insert [of ys j x] by auto
    then show ?thesis
      using Suc Cons by (auto split: if_splits)
  qed
qed simp

lemma ids_add:
  assumes "ids_ok c" "client_ids c' = (client_ids c)[k := Suc (c_next c)]" "c_next c' = Suc (c_next c)"
  shows "ids_ok c'"
proof -
  have "\<forall>i \<in> set (client_ids c'). i \<le> c_next c'"
    using assms set_update_subset_insert [of "client_ids c" k "Suc (c_next c)"] by (fastforce simp: ids_ok_def)
  moreover have "Suc (c_next c) \<notin> set (client_ids c)"
    using assms(1) by (auto simp: ids_ok_def)
  ultimately show ?thesis
    using assms distinct_filter_update [of _ "client_ids c" "Suc (c_next c)" k] by (simp add: ids_ok_def)
qed

lemma lease_add:
  assumes i: "held_inv X c" and r: "c_add_source cb d c = (c1, n1)"
    and c': "c' = c1\<lparr>c_t1_timeout := n1\<rparr> \<and> cb = Continue_renew \<or> c' = c1\<lparr>c_t2_timeout := n1\<rparr> \<and> cb = Continue_rebound"
    and no: "\<And>n cb' d'. c_sources c n = Some (cb', d') \<Longrightarrow> n \<notin> X \<Longrightarrow> timer_slot cb' c' = timer_slot cb' c"
  shows "held_inv X c'"
proof -
  have c1: "c1 = c\<lparr>c_next := Suc (c_next c), c_sources := (c_sources c)(Suc (c_next c) \<mapsto> (cb, d))\<rparr>" "n1 = Suc (c_next c)"
    using r by (auto simp: c_add_source_def)
  have f: "c_sources c' = (c_sources c)(Suc (c_next c) \<mapsto> (cb, d))" "c_next c' = Suc (c_next c)" "c_listen_mode c' = c_listen_mode c"
    "c_type c' = c_type c" "c_state c' = c_state c" "c_retry_times c' = c_retry_times c" "c_assigned_ip c' = c_assigned_ip c"
    "c_expire c' = c_expire c" "c_lease_timeout c' = c_lease_timeout c" "timer_slot cb c' = Suc (c_next c)"
    using c' by (auto simp: c1 timer_slot_def)
  have b: "placed X c" "ids_ok c"
    using i by (simp_all add: held_inv_def client_base_def)
  have "placed X c'"
    using c' by (intro placed_add [OF b(1) f(1,2,10) _ f(3) no]) auto
  moreover have "ids_ok c'"
    using c' ids_add [OF b(2) _ f(2), of 1] ids_add [OF b(2) _ f(2), of 2] by (auto simp: client_ids_def c1)
  moreover have "lease_armed X c'"
    using i placedD(2) [OF b(1), of "c_lease_timeout c"] by (auto simp: held_inv_def lease_armed_def f)
  moreover have "timers_in X (insert Restart_dhcp_timeout lease_timers) c'"
    using i c' by (auto simp: held_inv_def timers_in_def f lease_timers_def)
  ultimately show ?thesis
    using i by (auto simp: held_inv_def client_base_def f)
qed

lemma placed_same:
  assumes "placed X c" "c_sources c' = c_sources c" "c_next c' = c_next c" "c_listen_mode c' = c_listen_mode c"
    and "\<And>n cb d. c_sources c n = Some (cb, d) \<Longrightarrow> n \<notin> X \<Longrightarrow> timer_slot cb c' = timer_slot cb c"
  shows "placed X c'"
  using assms unfolding placed_def by simp

lemma lease_zero_t1:
  assumes i: "held_inv X c" and no: "\<And>n cb d. c_sources c n = Some (cb, d) \<Longrightarrow> n \<notin> X \<Longrightarrow> cb \<noteq> Start_renew \<and> cb \<noteq> Continue_renew"
  shows "held_inv X (c\<lparr>c_t1_timeout := 0\<rparr>)"
proof -
  have b: "client_base X c"
    using i by (simp add: held_inv_def)
  have "placed X (c\<lparr>c_t1_timeout := 0\<rparr>)"
    by (rule placed_same [of X c]) (use b no in \<open>auto simp: client_base_def timer_slot_def\<close>)
  moreover have "ids_ok (c\<lparr>c_t1_timeout := 0\<rparr>)"
    using b by (auto simp: client_base_def ids_ok_def client_ids_def split: if_splits)
  ultimately show ?thesis
    using i by (auto simp: held_inv_def client_base_def lease_armed_def timers_in_def)
qed

lemma removed_slot:
  assumes "placed X c" "c_sources (remove_nonzero m c) n = Some (cb, d)" "n \<notin> X"
  shows "timer_slot cb c \<noteq> m"
  using assms placedD [OF assms(1), of n cb d] by (auto simp: remove_nonzero_def c_source_remove_def split: if_splits)

lemma continue_renew_inv:
  assumes i: "held_inv X c" and r: "continue_renew env c = Some c'"
  shows "held_inv X c'"
proof -
  obtain c1 where c1: "send_request env (fst (switch_listening_mode env L3 c)) = Some c1"
    using r by (auto simp: continue_renew_def bind_eq_Some_conv)
  define c2 where "c2 = remove_nonzero (c_t1_timeout c1) c1"
  define c3 where "c3 = c2\<lparr>c_t1_timeout := 0, c_T1 := drop_bit 1 (c_T1 c2)\<rparr>"
  have i1: "held_inv X c1"
    by (intro lease_quiet [OF calm_request [OF c1]] lease_switch i) (simp add: mode_ok_def)
  then have p1: "placed X c1"
    by (simp add: held_inv_def client_base_def)
  have no: "cb \<noteq> Start_renew \<and> cb \<noteq> Continue_renew" if "c_sources c2 n = Some (cb, d)" "n \<notin> X" for n cb d
    using removed_slot [OF p1 that [unfolded c2_def]] by (auto simp: timer_slot_def)
  have i2: "held_inv X (c2\<lparr>c_t1_timeout := 0\<rparr>)"
    by (rule lease_zero_t1 [OF _ no]) (simp_all add: c2_def lease_remove i1)
  then have i3: "held_inv X c3"
    unfolding c3_def by (rule lease_still [OF still_updates(13), rotated -1]) (use i2 in \<open>simp_all add: held_inv_def\<close>)
  obtain c4 k where c4: "c_tick c3 = (c4, k)"
    by fastforce
  note q = calm_tick [OF c4]
  have i4: "held_inv X c4"
    by (rule lease_quiet [OF q i3])
  obtain c5 n5 where c5: "c_add_source Continue_renew (retry_delay env k (c_T1 c4)) c4 = (c5, n5)"
    by fastforce
  have s: "c_sources c4 = c_sources c2"
    by (simp add: calm_fields [OF q] c3_def)
  have i5: "held_inv X (c5\<lparr>c_t1_timeout := n5\<rparr>)"
    by (rule lease_add [OF i4 c5 disjI1]) (use no c5 in \<open>auto simp: s timer_slot_def c_add_source_def\<close>)
  have "c' = (if c_T1 c3 > 60 then c5\<lparr>c_t1_timeout := n5\<rparr> else c3)"
    using r unfolding continue_renew_def Let_def c1 Option.bind.simps c2_def [symmetric] c3_def [symmetric] c4 split c5
    by (simp only: option.inject)
  then show ?thesis
    using i3 i5 by simp
qed

lemma continue_rebound_inv:
  assumes i: "held_inv X c" and r: "continue_rebound env c = Some c'"
  shows "held_inv X c'"
proof -
  obtain c1 where c1: "send_request env (fst (switch_listening_mode env L2 c)) = Some c1"
    using r by (auto simp: continue_rebound_def bind_eq_Some_conv)
  define c2 where "c2 = remove_nonzero (c_t2_timeout c1) c1"
  define c3 where "c3 = c2\<lparr>c_T2 := drop_bit 1 (c_T2 c2)\<rparr>"
  have i1: "held_inv X c1"
    by (intro lease_quiet [OF calm_request [OF c1]] lease_switch i) (simp add: mode_ok_def)
  then have p1: "placed X c1"
    by (simp add: held_inv_def client_base_def)
  have no: "cb \<noteq> Start_rebound \<and> cb \<noteq> Continue_rebound" if "c_sources c2 n = Some (cb, d)" "n \<notin> X" for n cb d
    using removed_slot [OF p1 that [unfolded c2_def]] by (auto simp: timer_slot_def)
  have i2: "held_inv X c2"
    by (simp add: c2_def lease_remove i1)
  then have i3: "held_inv X c3"
    unfolding c3_def by (rule lease_still [OF still_updates(14), rotated -1]) (use i2 in \<open>simp_all add: held_inv_def\<close>)
  obtain c4 k where c4: "c_tick c3 = (c4, k)"
    by fastforce
  note q = calm_tick [OF c4]
  have i4: "held_inv X c4"
    by (rule lease_quiet [OF q i3])
  obtain c5 n5 where c5: "c_add_source Continue_rebound (retry_delay env k (c_T2 c4)) c4 = (c5, n5)"
    by fastforce
  have s: "c_sources c4 = c_sources c2"
    by (simp add: calm_fields [OF q] c3_def)
  have i5: "held_inv X (c5\<lparr>c_t2_timeout := n5\<rparr>)"
    by (rule lease_add [OF i4 c5 disjI2]) (use no c5 in \<open>auto simp: s timer_slot_def c_add_source_def\<close>)
  have "c' = (if c_T2 c3 > 60 then c5\<lparr>c_t2_timeout := n5\<rparr> else c3)"
    using r unfolding continue_rebound_def Let_def c1 Option.bind.simps c2_def [symmetric] c3_def [symmetric] c4 split c5
    by (simp only: option.inject)
  then show ?thesis
    using i3 i5 by simp
qed

text \<open>The three timers of a new lease.\<close>

lemma start_bound_fields:
  "c_type (start_bound c) = c_type c" "c_state (start_bound c) = BOUND" "c_retry_times (start_bound c) = c_retry_times c"
  "c_assigned_ip (start_bound c) = c_assigned_ip c" "c_expire (start_bound c) = c_lease_seconds c"
  "c_T1 (start_bound c) = drop_bit 1 (c_lease_seconds c)" "c_T2 (start_bound c) = of_nat (unat (c_lease_seconds c) * 7 div 8)"
  "c_listen_mode (start_bound c) = c_listen_mode c" "c_listener_watch (start_bound c) = c_listener_watch c"
  "c_next (start_bound c) = c_next c + 3" "c_timeout (start_bound c) = 0" "c_t1_timeout (start_bound c) = c_next c + 1"
  "c_t2_timeout (start_bound c) = c_next c + 2" "c_lease_timeout (start_bound c) = c_next c + 3"
  by (simp_all add: start_bound_def Let_def c_add_source_def)

lemma remove_timeouts_state: "c_sources (remove_timeouts (c\<lparr>c_state := st\<rparr>)) = c_sources (remove_timeouts c)"
  by (rule ext) (simp add: remove_timeouts_sources)

lemma start_bound_sources:
  "c_sources (start_bound c) = (c_sources (remove_timeouts c))
     (c_next c + 1 \<mapsto> (Start_renew, Seconds (drop_bit 1 (c_lease_seconds c))),
      c_next c + 2 \<mapsto> (Start_rebound, Seconds (of_nat (unat (c_lease_seconds c) * 7 div 8))),
      c_next c + 3 \<mapsto> (Start_expire, Seconds (c_lease_seconds c)))"
  by (simp add: numeral_3_eq_3 start_bound_def Let_def c_add_source_def remove_timeouts_state)

lemma start_bound_inv:
  assumes b: "client_base X c" and t: "c_type c = G_DHCP_IPV4" and r: "c_retry_times c = 0" "c_assigned_ip c \<noteq> None"
    and x: "\<And>n. n \<in> X \<Longrightarrow> n \<le> c_next c"
  shows "held_inv X (start_bound c)"
proof -
  define c0 where "c0 = remove_timeouts c"
  have i: "idle X c0" "c_next c0 = c_next c" "c_listen_mode c0 = c_listen_mode c" "c_listener_watch c0 = c_listener_watch c"
    using idle_remove_timeouts [OF b] by (simp_all add: c0_def)
  have only: "cb = Listener_event" if "c_sources c0 n = Some (cb, d)" "n \<notin> X" for n cb d
    using i(1) that unfolding idle_def timers_in_def by blast
  have p: "placed X c0" "ids_ok c0"
    using i(1) by (simp_all add: idle_def client_base_def)
  have "placed X (start_bound c)"
    unfolding placed_def
  proof (intro allI impI)
    fix n cb d
    assume s: "c_sources (start_bound c) n = Some (cb, d)"
    show "0 < n \<and> n \<le> c_next (start_bound c) \<and> (n \<notin> X \<longrightarrow> n = timer_slot cb (start_bound c) \<and>
        (cb = Listener_event \<longrightarrow> c_listen_mode (start_bound c) \<noteq> L_NONE))"
    proof (cases "n \<in> {c_next c + 1, c_next c + 2, c_next c + 3}")
      case True
      then show ?thesis
        using s by (auto simp: start_bound_sources start_bound_fields timer_slot_def)
    next
      case False
      then have k: "c_sources c0 n = Some (cb, d)"
        using s by (simp add: start_bound_sources c0_def)
      show ?thesis
        using placedD [OF p(1) k] only [OF k] i by (auto simp: start_bound_fields timer_slot_def)
    qed
  qed
  moreover have "ids_ok (start_bound c)"
    using p(2) i by (auto simp: ids_ok_def client_ids_def start_bound_fields c0_def split: if_splits)
  moreover have "lease_armed X (start_bound c)"
    using x [of "c_next c + 3"] by (auto simp: lease_armed_def start_bound_sources start_bound_fields)
  moreover have "timers_in X (insert Restart_dhcp_timeout lease_timers) (start_bound c)"
    using only by (auto simp: timers_in_def start_bound_sources lease_timers_def c0_def split: if_splits)
  ultimately show ?thesis
    using b t r by (auto simp: held_inv_def client_base_def start_bound_fields leased_def)
qed

end
