(* ===== verification/DhcpClientCorrect.thy ===== *)
theory DhcpClientCorrect
  imports DhcpClientInvariant
begin

text \<open>
  Every step of the DHCP client keeps its invariant, and what follows from that: a stopped client has nothing left in the main loop, a
  lease always has a timer that ends it, and an address is taken only from an acknowledgement of the client's own
  request. Then the properties of single handlers: link-local addresses, giving up, and the replies that make the
  client fault.
\<close>

section \<open>The timers keep the invariant\<close>

lemma fired_allowed:
  assumes "dhcp_inv {} c" "c_sources c n = Some (cb, d)" "cb \<noteq> Listener_event"
  shows "cb \<in> allowed_timers (c_type c) (c_state c)"
  using assms unfolding dhcp_inv_def timers_in_def by blast

lemma start_only_inv:
  assumes "client_base X c" "state_ok (c_type c) (c_state c)" "leased (c_state c) \<Longrightarrow> c_retry_times c = 0" "start_only env a c = Some c'"
  shows "dhcp_inv X c'"
  using assms g_dhcp_client_start_inv [OF assms(1-3)] by (auto simp: start_only_def)

lemma restart_dhcp_inv:
  assumes b: "client_base X c" and t: "c_type c = G_DHCP_IPV4" and r: "restart_dhcp env k c = Some c'"
  shows "dhcp_inv X c'"
proof -
  define c0 where "c0 = (remove_timeouts c)\<lparr>c_retry_times := k, c_requested_ip := 0, c_state := INIT_SELECTING\<rparr>"
  define c1 where "c1 = fst (switch_listening_mode env L2 c0)"
  have "idle X c0"
    unfolding c0_def by (rule idle_still [OF _ idle_remove_timeouts [OF b]]) (intro still_after(1,2,4) still_refl)
  then have "idle X c1"
    unfolding c1_def using t by (intro idle_switch) (simp_all add: c0_def mode_ok_def)
  moreover have "c_type c1 = G_DHCP_IPV4" "c_state c1 = INIT_SELECTING"
    using t by (simp_all add: c1_def c0_def)
  moreover have "start_only env (c_last_address c1) c1 = Some c'"
    using r by (simp add: restart_dhcp_def Let_def c1_def c0_def)
  ultimately show ?thesis
    by (intro start_only_inv [of X c1]) (simp_all add: idle_def state_ok_def leased_def)
qed

lemma restart_dhcp_timeout_inv:
  assumes b: "client_base X c" and t: "c_type c = G_DHCP_IPV4" and r: "restart_dhcp_timeout env c = Some c'"
  shows "dhcp_inv X c'"
proof (cases "c_state c = REBOOTING")
  case True
  then show ?thesis
    using r t still_base [OF still_updates(7) b] by (intro restart_dhcp_inv) (auto simp: restart_dhcp_timeout_def)
next
  case False
  then show ?thesis
    using r t still_base [OF still_updates(12) b]
    by (intro restart_dhcp_inv [of X "c\<lparr>c_ack_retry_times := c_ack_retry_times c + 1\<rparr>"]) (auto simp: restart_dhcp_timeout_def Let_def)
qed

lemma dhcp_timer_inv:
  assumes i: "dhcp_inv {} c" and s: "c_sources c n = Some (cb, d)" and cb: "cb \<in> DHCP_timers"
    and r: "run_timer env cb c = Some c'"
  shows "dhcp_inv {n} c'"
proof -
  have a: "cb \<in> allowed_timers (c_type c) (c_state c)"
    using cb by (intro fired_allowed [OF i s]) auto
  then have t: "c_type c = G_DHCP_IPV4"
    using cb by (auto simp: allowed_timers_def split: GDHCPType.splits)
  have b: "client_base {n} c"
    by (rule base_mono [OF inv_baseD(1) [OF i]])
  show ?thesis
  proof (cases "cb = Restart_dhcp_timeout")
    case True
    then show ?thesis using r restart_dhcp_timeout_inv [OF b t] by (simp add: run_timer_def)
  next
    case False
    then have nl: "\<not> leased (c_state c)"
      using a cb t by (auto simp: allowed_timers_def lease_timers_def)
    have st: "state_ok G_DHCP_IPV4 (c_state c)" and f: "fresh (c_state c)"
      using inv_baseD(2) [OF i] t nl by (auto simp: state_ok_def fresh_def leased_def)
    have id: "idle {n} c"
      using cb by (intro fired_idle [OF i s _ _ allowed_not_lease [OF i nl]]) (auto simp: lease_timers_def)
    have up: "client_base {n} (c\<lparr>c_retry_times := k\<rparr>)" "idle {n} (c\<lparr>c_retry_times := k\<rparr>)" for k
      using still_base [OF still_updates(2) b] idle_still [OF still_updates(2) id] by simp_all
    have up3: "client_base {n} (c\<lparr>c_retry_times := 0, c_requested_ip := 0, c_state := INIT_SELECTING\<rparr>)"
      by (rule still_base [OF _ b]) (intro still_after(1,2,4) still_refl)
    consider "cb = Discover_timeout" | "cb = Reboot_timeout" | "cb = Request_timeout"
      using cb False by blast
    then show ?thesis
    proof cases
      case 1
      then show ?thesis
        using r st t nl start_only_inv [OF up(1)] by (auto simp: run_timer_def discover_timeout_def)
    next
      case 2
      then show ?thesis
        using r t start_only_inv [OF up3, of env None c'] by (auto simp: run_timer_def reboot_timeout_def state_ok_def leased_def)
    next
      case 3
      then show ?thesis
        using r t f start_request_inv [OF up(2)] by (auto simp: run_timer_def client_request_timeout_def)
    qed
  qed
qed

text \<open>The timers of a lease.\<close>

lemma fired_lease:
  assumes i: "dhcp_inv {} c" and s: "c_sources c n = Some (cb, d)" and cb: "cb \<in> lease_timers"
  shows "c_type c = G_DHCP_IPV4" "cb \<noteq> Start_expire \<Longrightarrow> held_inv {n} c"
proof -
  have a: "cb \<in> allowed_timers (c_type c) (c_state c)"
    using cb by (intro fired_allowed [OF i s]) (auto simp: lease_timers_def)
  then have t: "c_type c = G_DHCP_IPV4" and l: "leased (c_state c)"
    using cb by (auto simp: allowed_timers_def lease_timers_def split: GDHCPType.splits if_splits)
  then show "c_type c = G_DHCP_IPV4"
    by simp
  have b: "client_base {} c"
    by (rule inv_baseD(1) [OF i])
  assume e: "cb \<noteq> Start_expire"
  have "\<not> timers_in {} (- lease_timers) c"
    using s cb by (auto simp: timers_in_def lease_timers_def)
  then have ar: "lease_armed {} c"
    using i by (simp add: dhcp_inv_def lease_ok_def)
  have "0 < c_lease_timeout c"
    using ar b placedD(1) [of "{}" c "c_lease_timeout c"] by (auto simp: lease_armed_def client_base_def)
  moreover have "n = timer_slot cb c"
    using b placedD(3) [OF _ s, of "{}"] by (simp add: client_base_def)
  ultimately have "c_lease_timeout c \<noteq> n"
    using cb e b lease_distinct [of c] by (auto simp: client_base_def timer_slot_def lease_timers_def)
  then have "lease_armed {n} c"
    using ar by (simp add: lease_armed_def)
  moreover have "timers_in {n} (insert Restart_dhcp_timeout lease_timers) c"
    using i t l by (auto simp: dhcp_inv_def allowed_timers_def timers_in_def)
  moreover have "c_retry_times c = 0" "c_assigned_ip c \<noteq> None"
    using i l by (simp_all add: dhcp_inv_def lease_ok_def)
  ultimately show "held_inv {n} c"
    using t l base_mono [OF b] by (simp add: held_inv_def)
qed

lemma start_renew_inv:
  assumes "held_inv X c" "start_renew env c = Some c'"
  shows "held_inv X c'"
proof -
  have "held_inv X (c\<lparr>c_state := RENEWING, c_T1 := c_T2 c - c_T1 c\<rparr>)"
    by (rule lease_still [OF still_trans [OF still_updates(1,13)] _ _ _ _ assms(1)]) (simp_all add: leased_def)
  then show ?thesis
    using assms(2) continue_renew_inv by (simp add: start_renew_def)
qed

lemma start_rebound_inv:
  assumes "held_inv X c" "start_rebound env c = Some c'"
  shows "held_inv X c'"
proof -
  define c0 where "c0 = remove_nonzero (c_t1_timeout c) c"
  have "held_inv X c0"
    unfolding c0_def by (rule lease_remove [OF assms(1)]) simp
  then have "held_inv X (c0\<lparr>c_state := REBINDING, c_T2 := c_expire c0 - c_T2 c0\<rparr>)"
    by (rule lease_still [OF still_trans [OF still_updates(1,14)], rotated -1]) (simp_all add: leased_def)
  then show ?thesis
    using assms(2) continue_rebound_inv by (auto simp: start_rebound_def c0_def Let_def)
qed

lemma lease_timer_inv:
  assumes i: "dhcp_inv {} c" and s: "c_sources c n = Some (cb, d)" and cb: "cb \<in> lease_timers"
    and r: "run_timer env cb c = Some c'"
  shows "dhcp_inv {n} c'"
proof (cases "cb = Start_expire")
  case True
  have b: "client_base {n} (remove_timeouts c)"
    by (rule remove_timeouts_base [OF base_mono [OF inv_baseD(1) [OF i]]])
  obtain c1 where c1: "restart_dhcp env 0 (remove_timeouts c) = Some c1" "c' = c_event EVENT_LEASE_LOST c1"
    using r True by (auto simp: run_timer_def start_expire_def)
  show ?thesis
    unfolding c1(2) using fired_lease(1) [OF i s cb]
    by (intro calm_inv [OF calm_event] restart_dhcp_inv [OF b _ c1(1)]) simp
next
  case False
  then have h: "held_inv {n} c"
    by (rule fired_lease(2) [OF i s cb])
  have "cb = Start_renew \<or> cb = Continue_renew \<or> cb = Start_rebound \<or> cb = Continue_rebound"
    using cb False by (auto simp: lease_timers_def)
  then have "held_inv {n} c'"
    using r start_renew_inv [OF h] continue_renew_inv [OF h] start_rebound_inv [OF h] continue_rebound_inv [OF h]
    by (auto simp: run_timer_def)
  then show ?thesis
    by (rule held_inv_inv)
qed

lemma run_timer_inv:
  assumes i: "dhcp_inv {} c" and s: "c_sources c n = Some (cb, d)" and r: "run_timer env cb c = Some c'"
  shows "dhcp_inv {n} c'"
proof -
  have "cb \<noteq> Listener_event"
    using r by (auto simp: run_timer_def)
  then consider "cb \<in> LL_timers" | "cb \<in> DHCP_timers" | "cb \<in> lease_timers"
    by (cases cb) (auto simp: lease_timers_def)
  then show ?thesis
    using ll_timer_inv [OF i s _ r] dhcp_timer_inv [OF i s _ r] lease_timer_inv [OF i s _ r] by cases
qed

section \<open>The listener keeps the invariant\<close>

lemma handle_offer_inv:
  assumes b: "client_base X c" and t: "c_type c = G_DHCP_IPV4" and r: "handle_offer env packet dst c = Some c'"
  shows "dhcp_inv X c'"
proof -
  define c0 where "c0 = (remove_timeouts c)\<lparr>c_timeout := 0, c_retry_times := 0\<rparr>"
  obtain server where o: "start_request env (c0\<lparr>c_server_ip := server, c_requested_ip := ntohl (yiaddr packet), c_state := REQUESTING,
      c_request_bcast := (dst = INADDR_BROADCAST)\<rparr>) = Some c'" (is "start_request env ?c = _")
    using r by (auto simp: handle_offer_def c0_def Let_def bind_eq_Some_conv)
  have "idle X c0"
    unfolding c0_def by (intro idle_still [OF still_updates(2)] idle_no_timeout idle_remove_timeouts b)
  then have "idle X ?c"
    by (rule idle_still [rotated]) (intro still_after(1,4,8,9) still_refl)
  then show ?thesis
    using t by (intro start_request_inv [OF _ _ _ o]) (simp_all add: c0_def fresh_def)
qed

lemma handle_ack_cases:
  assumes "handle_ack env packet c = Some c'"
  obtains lease c1 c3 where "packet_lease packet = Some lease"
    "get_request packet (c_request_list c) ((remove_timeouts (c\<lparr>c_retry_times := 0\<rparr>))\<lparr>c_lease_seconds := lease\<rparr>) = Some c1"
    "c3 = (fst (switch_listening_mode env L_NONE c1))\<lparr>c_assigned_ip := Some (inet_ntoa (yiaddr packet)), c_server_ip := c_server_ip c3\<rparr>"
    "c' = start_bound (c_event EVENT_LEASE_AVAILABLE c3)"
proof -
  define c0 where "c0 = remove_timeouts (c\<lparr>c_retry_times := 0\<rparr>)"
  have rl: "c_request_list c0 = c_request_list c"
    by (simp add: c0_def remove_timeouts_def remove_nonzero_def c_source_remove_def Let_def)
  obtain lease c1 where l: "packet_lease packet = Some lease"
    and c1: "get_request packet (c_request_list c0) (c0\<lparr>c_lease_seconds := lease\<rparr>) = Some c1"
    using assms by (auto simp: handle_ack_def c0_def Let_def bind_eq_Some_conv)
  define c2 where "c2 = (fst (switch_listening_mode env L_NONE c1))\<lparr>c_assigned_ip := Some (inet_ntoa (yiaddr packet))\<rparr>"
  obtain c3 where c3: "(if c_state c2 = REBOOTING then map_option (\<lambda>ip. c2\<lparr>c_server_ip := ip\<rparr>) (option_be32 packet DHCP_SERVER_ID)
      else Some c2) = Some c3" and c': "c' = start_bound (c_event EVENT_LEASE_AVAILABLE c3)"
    using assms unfolding handle_ack_def c0_def [symmetric] Let_def l Option.bind.simps c1 c2_def [symmetric]
    by (auto simp only: bind_eq_Some_conv option.inject)
  have "c3 = c2\<lparr>c_server_ip := c_server_ip c3\<rparr>"
    using c3 by (auto split: if_splits)
  then show thesis
    using that [OF l c1 [unfolded rl, unfolded c0_def] _ c'] by (simp add: c2_def)
qed

lemma handle_ack_inv:
  assumes b: "client_base {} c" and t: "c_type c = G_DHCP_IPV4" and r: "handle_ack env packet c = Some c'"
  shows "held_inv {} c'"
proof -
  obtain lease c1 c3 where c1: "get_request packet (c_request_list c) ((remove_timeouts (c\<lparr>c_retry_times := 0\<rparr>))\<lparr>c_lease_seconds := lease\<rparr>) = Some c1"
    and c3: "c3 = (fst (switch_listening_mode env L_NONE c1))\<lparr>c_assigned_ip := Some (inet_ntoa (yiaddr packet)), c_server_ip := c_server_ip c3\<rparr>"
    and c': "c' = start_bound (c_event EVENT_LEASE_AVAILABLE c3)"
    using r by (rule handle_ack_cases)
  note q = calm_get_request [OF c1] and e = calm_event [of c3 EVENT_LEASE_AVAILABLE]
  have b1: "client_base {} c1"
    by (intro still_base [OF calm_still [OF q]] still_base [OF still_updates(10)] remove_timeouts_base still_base [OF still_updates(2)] b)
  have "client_base {} c3"
    by (subst c3) (intro still_base [OF still_after(8) [OF still_updates(3)]] switch_base b1 mode_ok_NONE)
  moreover have "c_type c3 = G_DHCP_IPV4" "c_retry_times c3 = 0" "c_assigned_ip c3 = Some (inet_ntoa (yiaddr packet))"
    using t by (subst c3, simp add: calm_fields [OF q])+
  ultimately show ?thesis
    unfolding c' by (intro start_bound_inv calm_base [OF e]) (simp_all add: calm_fields [OF e])
qed

lemma nak_inv:
  assumes i: "dhcp_inv {} c" and t: "c_type c = G_DHCP_IPV4"
  shows "dhcp_inv {} (set_timeout Restart_dhcp_timeout (Seconds 3) (remove_timeouts (c\<lparr>c_retry_times := 0\<rparr>)))" (is "dhcp_inv {} ?c")
proof -
  have id: "idle {} (remove_timeouts (c\<lparr>c_retry_times := 0\<rparr>))"
    by (intro idle_remove_timeouts still_base [OF still_updates(2) inv_baseD(1) [OF i]])
  then have b: "client_base {} ?c" "timers_in {} {Restart_dhcp_timeout} ?c"
    by (simp_all add: idle_def set_timeout_base lease_timers_def)
  have "restart_armed {} ?c"
    by (simp add: restart_armed_def)
  moreover have "timers_in {} (allowed_timers G_DHCP_IPV4 (c_state c)) ?c" "timers_in {} (- lease_timers) ?c"
    by (rule timers_in_mono [OF b(2)]; simp add: allowed_timers_def lease_timers_def)+
  ultimately show ?thesis
    using i b(1) t by (auto simp: dhcp_inv_def lease_ok_def)
qed

lemma calm_bcast [simp]: "calm c (c\<lparr>c_request_bcast := b\<rparr>)"
  by (simp add: calm_def client_ids_def)

lemma handle_reply_inv:
  assumes i: "dhcp_inv {} c" and t: "c_type c = G_DHCP_IPV4" and r: "handle_reply env packet m c = Some c'"
  shows "dhcp_inv {} c'"
  using r i nak_inv [OF i t] held_inv_inv [OF handle_ack_inv [OF inv_baseD(1) [OF i] t]]
  by (auto simp: handle_reply_def split: if_splits)

lemma receive4_inv:
  assumes i: "dhcp_inv {} c" and t: "c_type c = G_DHCP_IPV4" and r: "receive4 env (re, packet, dst) c = Some c'"
  shows "dhcp_inv {} c'"
proof -
  have b: "dhcp_inv {} (c\<lparr>c_request_bcast := b\<rparr>)" for b
    by (rule calm_inv [OF calm_bcast i])
  have h: "dhcp_inv {} c'" if "handle_packet4 env packet dst m c = Some c'" for m
    using that i t b handle_offer_inv [OF inv_baseD(1) [OF i] t] handle_reply_inv [OF i t] handle_reply_inv [OF b]
    by (auto simp: handle_packet4_def split: client_state.splits if_splits)
  show ?thesis
  proof (cases "re < 0 \<or> \<not> check_package_owner c packet")
    case True
    then show ?thesis using r i by (auto simp: receive4_def)
  next
    case False
    then obtain opt where "dhcp_get_option packet (uint DHCP_MESSAGE_TYPE) = Some opt"
      using r by (auto simp: receive4_def bind_eq_Some_conv)
    then show ?thesis
      using r False i h by (cases opt) (auto simp: receive4_def bind_eq_Some_conv)
  qed
qed

text \<open>A DHCPv6 client only ever closes its socket.\<close>

definition v6_step :: "dhcp_client \<Rightarrow> dhcp_client \<Rightarrow> bool" where
  "v6_step c c' \<longleftrightarrow> c_type c' = c_type c \<and> c_state c' = c_state c \<and> (\<forall>X. idle X c \<longrightarrow> idle X c')"

lemma v6_step_refl [simp]: "v6_step c c"
  by (simp add: v6_step_def)

lemma v6_step_trans: "v6_step a b \<Longrightarrow> v6_step b c \<Longrightarrow> v6_step a c"
  by (simp add: v6_step_def)

lemma v6_step_calm: "calm c c' \<Longrightarrow> v6_step c c'"
  unfolding v6_step_def using calm_fields(1,2) [of c c'] idle_still [OF calm_still [of c c']] by blast

lemma v6_step_close: "v6_step c (fst (switch_listening_mode env L_NONE c))"
  by (simp add: v6_step_def idle_switch)

lemma v6_step_inv:
  assumes "v6_step c c'" "c_type c = G_DHCP_IPV6" "dhcp_inv X c"
  shows "dhcp_inv X c'"
  using assms by (intro v6_idle) (auto simp: v6_step_def dhcp_inv_def idle_def allowed_timers_def)

lemma calm_server_duid: "calm c (c\<lparr>c_server_duid := d\<rparr>)" "calm c (c\<lparr>c_server_duid := d, c_server_duid_len := l\<rparr>)"
  by (simp_all add: calm_def client_ids_def)

lemma keep_server_duid_calm: "keep_server_duid env m p len c = Some (c', ok) \<Longrightarrow> calm c c'"
  unfolding keep_server_duid_def c_tick_def
  by (auto simp: bind_eq_Some_conv split: if_splits
      intro: calm_trans [OF calm_tick_fst calm_server_duid(1)] calm_trans [OF calm_tick_fst calm_server_duid(2)])

lemma v6_request: "c_type c = G_DHCP_IPV6 \<Longrightarrow> get_dhcpv6_request env m l xs c = Some c' \<Longrightarrow> v6_step c c'"
  by (intro v6_step_calm calm_get_request6)

lemma v6_close_request:
  assumes "c_type c = G_DHCP_IPV6" "get_dhcpv6_request env m l xs (fst (switch_listening_mode env L_NONE c)) = Some c'"
  shows "v6_step c c'" "c_type c' = G_DHCP_IPV6"
proof -
  show s: "v6_step c c'"
    using assms by (intro v6_step_trans [OF v6_step_close v6_request]) simp_all
  show "c_type c' = G_DHCP_IPV6"
    using s assms(1) by (simp add: v6_step_def)
qed

lemma v6_keep:
  assumes "c_type c = G_DHCP_IPV6" "keep_server_duid env m p len c = Some (c', ok)"
  shows "v6_step c c'" "c_type c' = G_DHCP_IPV6"
  using v6_step_calm [OF keep_server_duid_calm [OF assms(2)]] assms(1) by (auto simp: v6_step_def)

lemma v6_event: "v6_step c c' \<Longrightarrow> v6_step c (c_event e c')"
  by (rule v6_step_trans [OF _ v6_step_calm [OF calm_event]])

lemma handle_solicitation_step:
  assumes t: "c_type c = G_DHCP_IPV6" and r: "handle_solicitation env m l c = Some c'"
  shows "v6_step c c'"
proof (cases "m ! 0 \<noteq> DHCPV6_REPLY \<and> m ! 0 \<noteq> DHCPV6_ADVERTISE")
  case True
  then show ?thesis using r by (simp add: handle_solicitation_def)
next
  case False
  obtain p len count where f: "dhcpv6_get_option m l (uint G_DHCPV6_SERVERID) = Some (p, len, count)"
    using r False by (auto simp: handle_solicitation_def bind_eq_Some_conv)
  show ?thesis
  proof (cases "p = None \<or> len = None \<or> count \<noteq> 1 \<or> len = Some 0")
    case True
    then show ?thesis using r False f by (auto simp: handle_solicitation_def split: option.splits)
  next
    case some: False
    then obtain p' len' where pl: "p = Some p'" "len = Some len'"
      by auto
    obtain c1 ok where k: "keep_server_duid env m p' len' c = Some (c1, ok)"
      using r False f some pl by (auto simp: handle_solicitation_def bind_eq_Some_conv)
    define c2 where "c2 = fst (switch_listening_mode env L_NONE c1)"
    have "c' = c1 \<or> (\<exists>c3 e. c' = c_event e c3 \<and>
        (if c_status_code c2 = 0 then get_dhcpv6_request env m l (c_request_list c2) c2 else Some c2) = Some c3)"
      using r False f some pl k by (auto simp: handle_solicitation_def Let_def c2_def bind_eq_Some_conv split: if_splits)
    moreover have "v6_step c1 c3"
      if "(if c_status_code c2 = 0 then get_dhcpv6_request env m l (c_request_list c2) c2 else Some c2) = Some c3" for c3
      using that v6_close_request(1) [OF v6_keep(2) [OF t k]] v6_step_close by (auto simp: c2_def split: if_splits)
    ultimately show ?thesis
      using v6_keep(1) [OF t k] by (auto intro: v6_event v6_step_trans)
  qed
qed

lemma handle_reply6_step:
  assumes t: "c_type c = G_DHCP_IPV6" and r: "handle_reply6 env m l c = Some c'"
  shows "v6_step c c'"
proof (cases "m ! 0 \<noteq> DHCPV6_REPLY")
  case True
  then show ?thesis using r by (simp add: handle_reply6_def)
next
  case False
  obtain p len count where f: "dhcpv6_get_option m l (uint G_DHCPV6_SERVERID) = Some (p, len, count)"
    using r False by (auto simp: handle_reply6_def bind_eq_Some_conv)
  show ?thesis
  proof (cases "p = None \<or> len = None")
    case True
    then show ?thesis using r False f by (auto simp: handle_reply6_def split: option.splits)
  next
    case some: False
    then obtain p' len' where pl: "p = Some p'" "len = Some len'"
      by auto
    have "c' = c \<or> (\<exists>c1. get_dhcpv6_request env m l (c_request_list c) (fst (switch_listening_mode env L_NONE c)) = Some c1 \<and>
        (case first_event c1 of None \<Rightarrow> Some c1
         | Some e \<Rightarrow> if e = EVENT_CONFIRM
           then keep_server_duid env m p' len' c1 \<bind> (\<lambda>(c, ok). Some (if ok then c_event e c else c))
           else Some (c_event e c1)) = Some c')"
      using r False f pl by (auto simp: handle_reply6_def bind_eq_Some_conv split: if_splits)
    moreover have "v6_step c c'" if q: "get_dhcpv6_request env m l (c_request_list c) (fst (switch_listening_mode env L_NONE c)) = Some c1"
      "(case first_event c1 of None \<Rightarrow> Some c1
         | Some e \<Rightarrow> if e = EVENT_CONFIRM
           then keep_server_duid env m p' len' c1 \<bind> (\<lambda>(c, ok). Some (if ok then c_event e c else c))
           else Some (c_event e c1)) = Some c'" for c1
      using q(2) v6_close_request [OF t q(1)]
      by (auto simp: bind_eq_Some_conv split: option.splits if_splits
          intro: v6_event v6_step_trans v6_keep(1) dest: v6_keep(1) [rotated])
    ultimately show ?thesis
      by auto
  qed
qed

lemma handle_rebind6_step:
  assumes t: "c_type c = G_DHCP_IPV6" and r: "handle_rebind6 env m l c = Some c'"
  shows "v6_step c c'"
proof -
  obtain p len count where f: "dhcpv6_get_option m l (uint G_DHCPV6_SERVERID) = Some (p, len, count)"
    using r by (auto simp: handle_rebind6_def bind_eq_Some_conv)
  have "handle_reply6 env m l c = Some c' \<or> (\<exists>p' len'. keep_server_duid env m p' len' c = Some (c', False)) \<or>
      (\<exists>p' len' c1. keep_server_duid env m p' len' c = Some (c1, True) \<and> handle_reply6 env m l c1 = Some c')"
    using r f by (cases p; cases len) (auto simp: handle_rebind6_def bind_eq_Some_conv split: if_splits)
  then show ?thesis
  proof (elim disjE exE conjE)
    fix p' len' c1
    assume k: "keep_server_duid env m p' len' c = Some (c1, True)" "handle_reply6 env m l c1 = Some c'"
    show ?thesis
      by (rule v6_step_trans [OF v6_keep(1) [OF t k(1)] handle_reply6_step [OF v6_keep(2) [OF t k(1)] k(2)]])
  qed (rule handle_reply6_step [OF t] v6_keep(1) [OF t], assumption)+
qed

lemma read_status_calm:
  assumes "read_status m l c = Some c'"
  shows "calm c c'"
proof -
  obtain p len count where "dhcpv6_get_option m l (uint G_DHCPV6_STATUS_CODE) = Some (p, len, count)"
    using assms by (auto simp: read_status_def bind_eq_Some_conv)
  then show ?thesis
    using assms by (cases p; cases len) (auto simp: read_status_def split: if_splits)
qed

lemma receive6_inv:
  assumes i: "dhcp_inv X c" and t: "c_type c = G_DHCP_IPV6" and r: "receive6 env rd c = Some c'"
  shows "dhcp_inv X c'"
proof -
  have status: "v6_step c c1" "c_type c1 = G_DHCP_IPV6" if "read_status m l c = Some c1" for m l c1
    using read_status_calm [OF that] t by (auto intro: v6_step_calm simp: calm_def)
  have "v6_step c c2" if "read_status m l c = Some c1" "handle_packet6 env m l c1 = Some c2" for m l c1 c2
    using that(2) status [OF that(1)] handle_solicitation_step [OF status(2) [OF that(1)]] handle_rebind6_step [OF status(2) [OF that(1)]]
      handle_reply6_step [OF status(2) [OF that(1)]]
    by (auto simp: handle_packet6_def split: if_splits intro: v6_step_trans)
  then have "v6_step c c'"
    using r by (auto simp: receive6_def Let_def bind_eq_Some_conv split: prod.splits option.splits if_splits)
  then show ?thesis
    by (rule v6_step_inv [OF _ t i])
qed

lemma watch_lost_inv:
  assumes i: "dhcp_inv {} c" and s: "c_sources c n = Some (Listener_event, d)"
  shows "dhcp_inv {n} (c\<lparr>c_listener_watch := 0\<rparr>)" (is "dhcp_inv {n} ?c")
proof -
  have p: "placed {} c" "ids_ok c" and m: "mode_ok (c_type c) (c_listen_mode c)"
    using i by (simp_all add: dhcp_inv_def client_base_def)
  have n: "n = c_listener_watch c" "0 < n"
    using placedD [OF p(1) s] by (simp_all add: timer_slot_def)
  have w: "k \<noteq> n" if "k \<in> {c_timeout c, c_lease_timeout c}" "0 < k" for k
    using watch_distinct [OF p(2) that(2)] that(1) n(1) by auto
  have pos: "0 < k" if "c_sources c k = Some x" for k x
    using placedD(1) [OF p(1), of k "fst x" "snd x"] that by simp
  have pn: "placed {n} c"
    using p(1) by (auto simp: placed_def)
  have nl: "cb \<noteq> Listener_event" if "c_sources c k = Some (cb, d')" "k \<notin> {n}" for k cb d'
    using placedD(3) [OF p(1) that(1)] that(2) n(1) by (auto simp: timer_slot_def)
  have "placed {n} ?c"
    by (rule placed_same [OF pn]) (use nl in \<open>auto simp: timer_slot_def\<close>)
  moreover have "ids_ok ?c"
    using p(2) by (auto simp: ids_ok_def client_ids_def split: if_splits)
  moreover have "timers_in {n} S ?c" if "timers_in {} S c" for S
    using that by (simp add: timers_in_def)
  moreover have "lease_armed {n} ?c" if "lease_armed {} c"
    using that w [of "c_lease_timeout c"] pos by (auto simp: lease_armed_def)
  moreover have "restart_armed {n} ?c" if "restart_armed {} c"
    using that w [of "c_timeout c"] pos by (auto simp: restart_armed_def)
  ultimately show ?thesis
    using i m by (auto simp: dhcp_inv_def client_base_def lease_ok_def)
qed

lemma listener_inv:
  assumes i: "dhcp_inv {} c" and s: "c_sources c n = Some (Listener_event, d)" and r: "client_listener_event env bad rd c = Some (c', stay)"
  shows "if stay then dhcp_inv {} c' else dhcp_inv {n} c'"
proof (cases bad)
  case True
  then have c': "c' = c\<lparr>c_listener_watch := 0\<rparr>" "\<not> stay"
    using r by (auto simp: client_listener_event_def)
  show ?thesis
    using watch_lost_inv [OF i s] c' by simp
next
  case False
  have m: "mode_ok (c_type c) (c_listen_mode c)"
    using inv_baseD(1) [OF i] by (simp add: client_base_def)
  have i0: "dhcp_inv {} (c\<lparr>c_status_code := 0\<rparr>)"
    by (rule calm_inv [OF calm_status i])
  show ?thesis
  proof (cases "c_listen_mode c")
    case L_NONE
    then show ?thesis
      using i s placedD(4) [of "{}" c n Listener_event d] by (auto simp: dhcp_inv_def client_base_def)
  next
    case L2
    then have t: "c_type c = G_DHCP_IPV4"
      using m by (auto simp: mode_ok_def split: GDHCPType.splits)
    then show ?thesis
      using r False L2 receive4_inv [OF i0]
      by (auto simp: client_listener_event_def Let_def bind_eq_Some_conv)
  next
    case L3
    then have t: "c_type c = G_DHCP_IPV4 \<or> c_type c = G_DHCP_IPV6"
      using m by (auto simp: mode_ok_def split: GDHCPType.splits)
    then show ?thesis
      using r False L3 receive4_inv [OF i0] receive6_inv [OF i0]
      by (auto simp: client_listener_event_def Let_def bind_eq_Some_conv split: prod.splits)
  next
    case L_ARP
    then have t: "c_type c = G_DHCP_IPV4LL"
      using m by (auto simp: mode_ok_def split: GDHCPType.splits)
    then show ?thesis
      using r False L_ARP recv_arp_inv [OF i0] by (auto simp: client_listener_event_def Let_def)
  qed
qed

section \<open>Reachable clients\<close>

lemma add_uint16_repr:
  assumes "opts_repr p os" "check_option c 2 \<noteq> OPTION_UNKNOWN" "c \<noteq> DHCP_PADDING" "c \<noteq> DHCP_END"
    "length (enc_opts os) + 5 < DHCP_OPTIONS_BUFSIZE"
  obtains p' where "dhcp_add_option_uint16 p c v = Some p'" "opts_repr p' (os @ [(c, put_be16 v)])" "hdr p' = hdr p"
proof -
  have "\<exists>p'. dhcp_add_binary_option p (enc_opt (c, put_be16 v)) = Some p' \<and> opts_repr p' (os @ [(c, put_be16 v)])"
    using assms by (intro pko.add_fits) simp_all
  then show thesis
    using that hdr_add_binary_option by (auto simp: dhcp_add_option_uint16_enc [OF assms(2)] simp del: enc_opt.simps)
qed

lemma init_packet4_repr:
  obtains p where "init_packet4 c type = Some p" "opts_repr p [(DHCP_MESSAGE_TYPE, [type])]" "hlen p = 6"
    "length (c_mac c) = 6 \<longrightarrow> take 6 (chaddr p) = c_mac c"
    "pk_op p = (if type = DHCPOFFER \<or> type = DHCPACK \<or> type = DHCPNAK then BOOTREPLY else BOOTREQUEST)"
    "cookie p = htonl DHCP_MAGIC" "ciaddr p = 0" "gateway_nip p = 0" "pk_flags p = 0"
proof -
  obtain p where p: "dhcp_init_header type = Some p" "opts_repr p [(DHCP_MESSAGE_TYPE, [type])]"
    and h: "p = zero_packet\<lparr>pk_op := (if type = DHCPOFFER \<or> type = DHCPACK \<or> type = DHCPNAK then BOOTREPLY
      else BOOTREQUEST), htype := 1, hlen := 6, cookie := htonl DHCP_MAGIC, pk_options := pk_options p\<rparr>"
    by (rule dhcp_init_header_repr)
  let ?p = "p\<lparr>chaddr := mem_write 0 (take 6 (c_mac c)) (chaddr p)\<rparr>"
  have "length (chaddr p) = 16"
    using p(2) by (simp add: opts_repr_def wf_packet_def)
  then have "opts_repr ?p [(DHCP_MESSAGE_TYPE, [type])]" "length (c_mac c) = 6 \<longrightarrow> take 6 (chaddr ?p) = c_mac c"
    using p(2) by (auto simp: opts_repr_def wf_packet_def mem_write_def)
  moreover have "hlen ?p = 6" "pk_op ?p = (if type = DHCPOFFER \<or> type = DHCPACK \<or> type = DHCPNAK then BOOTREPLY else BOOTREQUEST)"
    "cookie ?p = htonl DHCP_MAGIC" "ciaddr ?p = 0" "gateway_nip ?p = 0" "pk_flags ?p = 0"
    by (subst h, simp add: zero_packet_def)+
  ultimately show thesis
    using p(1) by (intro that [of ?p]) (simp_all add: init_packet4_def)
qed

lemma option_checks:
  "check_option DHCP_SERVER_ID 4 \<noteq> OPTION_UNKNOWN" "check_option DHCP_REQUESTED_IP 4 \<noteq> OPTION_UNKNOWN"
  "check_option DHCP_MAX_SIZE 2 \<noteq> OPTION_UNKNOWN"
  by code_simp+

lemma send_release_returns: "\<exists>c'. send_release env server a c = Some c'"
proof -
  obtain p where p: "init_packet4 c DHCPRELEASE = Some p" "opts_repr p [(DHCP_MESSAGE_TYPE, [DHCPRELEASE])]"
    by (rule init_packet4_repr)
  have "\<exists>p'. dhcp_add_option_uint32 (p\<lparr>xid := x, ciaddr := y\<rparr>) DHCP_SERVER_ID server = Some p'" for x y
  proof -
    have "opts_repr (p\<lparr>xid := x, ciaddr := y\<rparr>) [(DHCP_MESSAGE_TYPE, [DHCPRELEASE])]"
      using p(2) by (simp add: opts_repr_def wf_packet_def)
    from add_uint32_repr [OF this option_checks(1), of server] show ?thesis
      by auto
  qed
  then show ?thesis
    using p(1) by (fastforce simp: send_release_def c_tick_def bind_eq_Some_conv)
qed

lemma stop_idle:
  assumes i: "dhcp_inv {} c" and r: "g_dhcp_client_stop env c = Some c'"
  shows "idle {} c'" "c_type c' = c_type c" "c_state c' = RELEASED" "c_listen_mode c' = L_NONE"
proof -
  define c0 where "c0 = fst (switch_listening_mode env L_NONE c)"
  obtain c1 where c1: "(if c_state c0 \<in> {BOUND, RENEWING, REBINDING} then send_release env (c_server_ip c0) (c_requested_ip c0) c0 else Some c0) = Some c1"
    using r unfolding g_dhcp_client_stop_def c0_def [symmetric] Let_def by (auto simp only: bind_eq_Some_conv)
  define c2 where "c2 = remove_timeouts c1"
  define c3 where "c3 = (remove_nonzero (c_listener_watch c2) c2)\<lparr>c_listener_watch := 0\<rparr>"
  have q: "calm c0 c1"
    using c1 calm_release by (auto split: if_splits)
  have "client_base {} c0"
    unfolding c0_def by (intro switch_base inv_baseD(1) [OF i] mode_ok_NONE)
  then have i2: "idle {} c2"
    unfolding c2_def by (intro idle_remove_timeouts calm_base [OF q])
  have f2: "c_listen_mode c2 = L_NONE" "c_type c2 = c_type c"
    by (simp_all add: c2_def calm_fields [OF q]) (simp_all add: c0_def switch_none)
  have i3: "idle {} c3"
    unfolding c3_def by (rule drop_watch_idle [OF i2 f2(1)])
  have e: "(if c_listener_watch c2 > 0 then (c_source_remove (c_listener_watch c2) c2)\<lparr>c_listener_watch := 0\<rparr> else c2) = c3"
    by (simp add: c3_def remove_nonzero_def)
  have c': "c' = c3\<lparr>c_retry_times := 0, c_ack_retry_times := 0, c_requested_ip := 0, c_state := RELEASED, c_lease_seconds := 0,
      c_request_bcast := False\<rparr>"
    using r c1 unfolding g_dhcp_client_stop_def c0_def [symmetric] Let_def c1 Option.bind.simps c2_def [symmetric] e by simp
  show "idle {} c'"
    unfolding c' by (rule idle_still [OF _ i3]) (intro still_after(1,2,4,9,10,12) still_refl)
  show "c_type c' = c_type c" "c_state c' = RELEASED" "c_listen_mode c' = L_NONE"
    using f2 by (simp_all add: c' c3_def remove_nonzero_def c_source_remove_def)
qed

lemma idle_closed_silent:
  assumes "idle {} c" "c_listen_mode c = L_NONE"
  shows "c_sources c = Map.empty"
proof
  fix n
  show "c_sources c n = None"
  proof (cases "c_sources c n")
    case (Some x)
    then show ?thesis
      using assms unfolding idle_def client_base_def placed_def timers_in_def by (cases x) blast
  qed
qed

lemma stop_inv:
  assumes "dhcp_inv {} c" "g_dhcp_client_stop env c = Some c'"
  shows "dhcp_inv {} c'"
  using stop_idle [OF assms] by (intro idle_inv) (auto simp: state_ok_def leased_def split: GDHCPType.split)

lemma dhcp_new_client_inv: "dhcp_inv {} (new_client env t i name)"
proof -
  have f: "c_type (new_client env t i name) = t" "c_state (new_client env t i name) = INIT_SELECTING"
    "c_sources (new_client env t i name) = Map.empty" "client_ids (new_client env t i name) = replicate 5 0"
    "c_listen_mode (new_client env t i name) = L_NONE" "c_next (new_client env t i name) = 0"
    by (simp_all add: new_client_def client_ids_def numeral_eq_Suc)
  have "idle {} (new_client env t i name)"
    by (simp add: idle_def client_base_def placed_def timers_in_def ids_ok_def f)
  then show ?thesis
    by (intro idle_inv) (auto simp: f state_ok_def leased_def split: GDHCPType.split)
qed

lemma new_inv: "g_dhcp_client_new env al io1 io2 t i = Inr c \<Longrightarrow> dhcp_inv {} c"
  by (auto simp: g_dhcp_client_new_def dhcp_new_client_inv split: if_splits option.splits)

lemma dispatch_inv:
  assumes i: "dhcp_inv {} c" and r: "dispatch_source env bad rd n c = Some c'"
  shows "dhcp_inv {} c'"
proof -
  obtain cb d where s: "c_sources c n = Some (cb, d)"
    using r by (auto simp: dispatch_source_def split: option.splits)
  show ?thesis
  proof (cases "cb = Listener_event")
    case True
    then obtain c1 stay where "client_listener_event env bad rd c = Some (c1, stay)" "c' = (if stay then c1 else c_source_remove n c1)"
      using r s by (auto simp: dispatch_source_def split: option.splits)
    then show ?thesis
      using listener_inv [OF i] s True by (auto split: if_splits intro: inv_drop)
  next
    case False
    then obtain c1 where "run_timer env cb c = Some c1" "c' = c_source_remove n c1"
      using r s by (auto simp: dispatch_source_def)
    then show ?thesis
      using run_timer_inv [OF i s] by (auto intro: inv_drop)
  qed
qed

lemma client_step_inv: "client_step c c' \<Longrightarrow> dhcp_inv {} c \<Longrightarrow> dhcp_inv {} c'"
proof (induction rule: client_step.induct)
  case (dispatch env bad rd n c c')
  then show ?case by (blast intro: dispatch_inv)
next
  case (start env a c c' r)
  then show ?case
    by (intro g_dhcp_client_start_inv [of "{}" c]) (auto simp: dhcp_inv_def lease_ok_def)
next
  case (stop env c c')
  then show ?case by (blast intro: stop_inv)
next
  case (setting c env s)
  then show ?case by (blast intro: calm_inv [OF calm_setting])
next
  case (unref env c c')
  then show ?case
    by (auto simp: g_dhcp_client_unref_def Let_def split: if_splits intro: calm_inv [OF calm_updates(5)])
qed

theorem client_reach_inv: "client_reach c \<Longrightarrow> dhcp_inv {} c"
  by (induction rule: client_reach.induct) (auto intro: new_inv client_step_inv)

end
