(* ===== verification/IpPool.thy ===== *)
theory IpPool
  imports ConnBase "HOL-Library.Monad_Syntax"
begin

text \<open>
  The pools of private addresses (\<^verbatim>\<open>src/ippool.c\<close>) from which tethering takes the block it serves.
  The static variables of the file are the fields of \<open>ippool_state\<close>; \<^verbatim>\<open>struct address_info\<close> and
  \<^verbatim>\<open>struct connman_ippool\<close> point to each other and are freed by hand, so both live in heaps and
  are referred to by address. \<open>None\<close> is an access to a freed object, undefined behaviour, or a loop
  that does not end; a NULL result is the inner \<open>None\<close>. The collision callback is an action.
\<close>

unbundle bit_operations_syntax

section \<open>State\<close>

record address_info =
  ai_index :: int
  ai_start :: u32
  ai_end :: u32
  use_count :: u32
  ai_pool :: "nat option"

record connman_ippool =
  refcount :: u32
  pl_info :: "nat option"
  gateway :: string
  broadcast :: string
  pl_start_ip :: string
  pl_end_ip :: string
  subnet_mask :: string
  collision_cb :: bool

record ippool_state =
  allocated_blocks :: "nat list"
  last_block :: u32
  block_16_bits :: u32
  block_20_bits :: u32
  block_24_bits :: u32
  subnet_mask_24 :: u32
  infos :: "nat \<rightharpoonup> address_info"
  pools :: "nat \<rightharpoonup> connman_ippool"

section \<open>Operations\<close>

definition ippool_ref :: "ippool_state \<Rightarrow> nat \<Rightarrow> ippool_state option" where
  "ippool_ref st p =
     do {
       pool \<leftarrow> pools st p;
       Some (st\<lparr>pools := (pools st)(p \<mapsto> pool\<lparr>refcount := refcount pool + 1\<rparr>)\<rparr>)
     }"

definition ippool_unref :: "ippool_state \<Rightarrow> nat option \<Rightarrow> ippool_state option" where
  "ippool_unref st pp =
     (case pp of
        None \<Rightarrow> Some st
      | Some p \<Rightarrow>
        do {
          pool \<leftarrow> pools st p;
          if refcount pool \<noteq> 1 then Some (st\<lparr>pools := (pools st)(p \<mapsto> pool\<lparr>refcount := refcount pool - 1\<rparr>)\<rparr>)
          else
            let st = (case pl_info pool of
                        None \<Rightarrow> st
                      | Some i \<Rightarrow> st\<lparr>allocated_blocks := g_list_remove i (allocated_blocks st),
                                     infos := (infos st)(i := None)\<rparr>)
            in Some (st\<lparr>pools := (pools st)(p := None)\<rparr>)
        })"

definition get_ip :: "u32 \<Rightarrow> string" where
  "get_ip ip = inet_ntoa (htonl ip)"

definition next_block :: "ippool_state \<Rightarrow> u32 \<Rightarrow> u32" where
  "next_block st block =
     (let nxt = drop_bit 8 (block AND 0x0000ff00) + 1 in
      if nxt = 255 then
        if block AND 0xffff0000 = block_16_bits st then block_20_bits st
        else if block AND 0xffff0000 \<ge> block_20_bits st then
          let nxt = drop_bit 16 (block AND 0x00ff0000);
              nxt = (if nxt \<ge> 16 \<and> nxt < 32 then nxt + 1 else nxt)
          in if nxt = 32 then block_24_bits st
             else (block AND 0xff000000) OR (push_bit 16 nxt AND 0x00ff0000)
        else if block AND 0xff000000 = block_24_bits st then
          let nxt = drop_bit 16 (block AND 0x00ff0000);
              nxt = (if nxt < 255 then nxt + 1 else nxt)
          in if nxt = 255 then block_16_bits st
             else (block AND 0xff000000) OR (push_bit 16 nxt AND 0x00ff0000)
        else (block AND 0xffff0000) OR (push_bit 8 nxt AND 0x0000ff00)
      else (block AND 0xffff0000) OR (push_bit 8 nxt AND 0x0000ff00))"

fun collides :: "(nat \<rightharpoonup> address_info) \<Rightarrow> nat list \<Rightarrow> u32 \<Rightarrow> bool option" where
  "collides h [] block = Some False"
| "collides h (i # is) block =
     do {
       info \<leftarrow> h i;
       if ai_start info \<le> block \<and> block \<le> ai_end info then Some True else collides h is block
     }"

partial_function (option) free_block_from :: "ippool_state \<Rightarrow> u32 \<Rightarrow> u32 option" where
  "free_block_from st block =
     do {
       collision \<leftarrow> collides (infos st) (allocated_blocks st) block;
       if \<not> collision then Some block
       else let block = next_block st block in
         if block \<noteq> last_block st then free_block_from st block else Some 0
     }"

definition get_free_block :: "ippool_state \<Rightarrow> u32 option" where
  "get_free_block st =
     free_block_from st (if last_block st \<noteq> 0 then last_block st else block_16_bits st)"

fun lookup_info_from :: "(nat \<rightharpoonup> address_info) \<Rightarrow> nat list \<Rightarrow> int \<Rightarrow> u32 \<Rightarrow> nat option option" where
  "lookup_info_from h [] index start = Some None"
| "lookup_info_from h (i # is) index start =
     do {
       info \<leftarrow> h i;
       if ai_index info = index \<and> ai_start info = start then Some (Some i)
       else lookup_info_from h is index start
     }"

definition lookup_info :: "ippool_state \<Rightarrow> int \<Rightarrow> u32 \<Rightarrow> nat option option" where
  "lookup_info st index start = lookup_info_from (infos st) (allocated_blocks st) index start"

definition is_private_address :: "u32 \<Rightarrow> bool" where
  "is_private_address address =
     (let a = drop_bit 24 (address AND 0xff000000);
          b = drop_bit 16 (address AND 0x00ff0000)
      in a = 10 \<or> (a = 192 \<and> b = 168) \<or> (a = 172 \<and> b \<ge> 16 \<and> b \<le> 31))"

text \<open>The loop of \<^verbatim>\<open>newaddr\<close> over the blocks: the pool whose callback runs, if any.\<close>

fun find_collision ::
    "ippool_state \<Rightarrow> nat list \<Rightarrow> nat \<Rightarrow> address_info \<Rightarrow> nat list option" where
  "find_collision st [] i info = Some []"
| "find_collision st (k # ks) i info =
     do {
       it \<leftarrow> infos st k;
       if k = i then find_collision st ks i info
       else if \<not> (ai_start it \<le> ai_start info \<and> ai_start info \<le> ai_end it) then find_collision st ks i info
       else case ai_pool it of
           None \<Rightarrow> Some []
         | Some p \<Rightarrow> do { pool \<leftarrow> pools st p; Some (if collision_cb pool then [p] else []) }
     }"

definition mask_of :: "u8 \<Rightarrow> u32" where
  "mask_of prefixlen = NOT (drop_bit (unat prefixlen) 0xffffffff)"

text \<open>\<open>alloc\<close> is the address \<^verbatim>\<open>g_try_new0\<close> returns, or \<open>None\<close>.\<close>

definition ippool_newaddr ::
    "nat option \<Rightarrow> ippool_state \<Rightarrow> int \<Rightarrow> string \<Rightarrow> u8 \<Rightarrow> (ippool_state \<times> nat list) option" where
  "ippool_newaddr alloc st index address prefixlen =
     (case inet_aton address of
        None \<Rightarrow> Some (st, [])
      | Some inp \<Rightarrow>
        let start = ntohl inp in
        if \<not> is_private_address start then Some (st, [])
        else
          let mask = (if prefixlen \<ge> 32 then 0xffffffff else mask_of prefixlen);
              start = start AND mask;
              end' = start OR NOT mask
          in do {
            r \<leftarrow> lookup_info st index start;
            case (case r of Some i \<Rightarrow> Some i | None \<Rightarrow> alloc) of
              None \<Rightarrow> Some (st, [])
            | Some i \<Rightarrow>
              let st = (if r = None
                        then st\<lparr>infos := (infos st)(i \<mapsto> \<lparr>ai_index = index, ai_start = start, ai_end = end',
                                                            use_count = 0, ai_pool = None\<rparr>),
                               allocated_blocks := i # allocated_blocks st\<rparr>
                        else st)
              in do {
                info \<leftarrow> infos st i;
                let info = info\<lparr>use_count := use_count info + 1\<rparr>;
                let st = st\<lparr>infos := (infos st)(i \<mapsto> info)\<rparr>;
                if use_count info > 1 \<or> ai_pool info \<noteq> None then Some (st, [])
                else do {
                  cbs \<leftarrow> find_collision st (allocated_blocks st) i info;
                  Some (st, cbs)
                }
              }
          })"

text \<open>In \<^verbatim>\<open>deladdr\<close> the shift is not guarded: a prefix length of 32 or more is undefined.\<close>

definition ippool_deladdr :: "ippool_state \<Rightarrow> int \<Rightarrow> string \<Rightarrow> u8 \<Rightarrow> ippool_state option" where
  "ippool_deladdr st index address prefixlen =
     (case inet_aton address of
        None \<Rightarrow> Some st
      | Some inp \<Rightarrow>
        let start = ntohl inp in
        if \<not> is_private_address start then Some st
        else if prefixlen \<ge> 32 then None
        else do {
          r \<leftarrow> lookup_info st index (start AND mask_of prefixlen);
          case r of
            None \<Rightarrow> Some st
          | Some i \<Rightarrow>
            do {
              info \<leftarrow> infos st i;
              let info = info\<lparr>use_count := use_count info - 1\<rparr>;
              let st = st\<lparr>infos := (infos st)(i \<mapsto> info)\<rparr>;
              if ai_pool info \<noteq> None then Some st
              else if use_count info > 0 then Some st
              else Some (st\<lparr>allocated_blocks := g_list_remove i (allocated_blocks st),
                            infos := (infos st)(i := None)\<rparr>)
            }
        })"

definition ippool_create ::
    "nat option \<Rightarrow> nat option \<Rightarrow> ippool_state \<Rightarrow> int \<Rightarrow> u32 \<Rightarrow> u32 \<Rightarrow> bool \<Rightarrow> (ippool_state \<times> nat option) option" where
  "ippool_create alloc_pool alloc_info st index start rng cb =
     (if start + rng > 254 then Some (st, None)
      else do {
        block \<leftarrow> get_free_block st;
        if block = 0 then Some (st, None)
        else case alloc_pool of
            None \<Rightarrow> Some (st, None)
          | Some p \<Rightarrow>
            (case alloc_info of
               None \<Rightarrow> Some (st, None)
             | Some i \<Rightarrow>
               let info = \<lparr>ai_index = index, ai_start = block, ai_end = block + rng, use_count = 0,
                           ai_pool = Some p\<rparr>;
                   rng = (if rng = 0 then 1 else rng);
                   pool = \<lparr>refcount = 1, pl_info = Some i, gateway = get_ip (ai_start info + 1),
                           broadcast = get_ip (ai_start info + 255),
                           pl_start_ip = get_ip (block + start), pl_end_ip = get_ip (block + start + rng),
                           subnet_mask = get_ip (subnet_mask_24 st), collision_cb = cb\<rparr>
               in Some (st\<lparr>last_block := block, infos := (infos st)(i \<mapsto> info), pools := (pools st)(p \<mapsto> pool),
                          allocated_blocks := i # allocated_blocks st\<rparr>, Some p))
      })"

definition ippool_get_gateway :: "ippool_state \<Rightarrow> nat \<Rightarrow> string option" where
  "ippool_get_gateway st p = map_option gateway (pools st p)"

definition ippool_get_broadcast :: "ippool_state \<Rightarrow> nat \<Rightarrow> string option" where
  "ippool_get_broadcast st p = map_option broadcast (pools st p)"

definition ippool_get_start_ip :: "ippool_state \<Rightarrow> nat \<Rightarrow> string option" where
  "ippool_get_start_ip st p = map_option pl_start_ip (pools st p)"

definition ippool_get_end_ip :: "ippool_state \<Rightarrow> nat \<Rightarrow> string option" where
  "ippool_get_end_ip st p = map_option pl_end_ip (pools st p)"

definition ippool_get_subnet_mask :: "ippool_state \<Rightarrow> nat \<Rightarrow> string option" where
  "ippool_get_subnet_mask st p = map_option subnet_mask (pools st p)"

definition ippool_init :: "ippool_state \<Rightarrow> ippool_state" where
  "ippool_init st = st\<lparr>block_16_bits := ntohl (inet_addr ''192.168.0.0''),
     block_20_bits := ntohl (inet_addr ''172.16.0.0''), block_24_bits := ntohl (inet_addr ''10.0.0.0''),
     subnet_mask_24 := ntohl (inet_addr ''255.255.255.0'')\<rparr>"

definition ippool_cleanup :: "ippool_state \<Rightarrow> ippool_state option" where
  "ippool_cleanup st =
     (if distinct (allocated_blocks st) \<and> list_all (\<lambda>i. infos st i \<noteq> None) (allocated_blocks st)
      then Some (st\<lparr>infos := infos st |` (- set (allocated_blocks st)), last_block := 0, allocated_blocks := []\<rparr>)
      else None)"

section \<open>The cycle of blocks\<close>

text \<open>
  A block is an address \<open>h.k.0\<close> given by its upper half \<open>h\<close> and its third byte \<open>k\<close>. The blocks the
  daemon uses are the ones of the three private ranges with a third byte below 255 (and, in
  the 24-bit range, a second byte below 255); \<^verbatim>\<open>next_block\<close> walks through all of them in a cycle.
\<close>

definition B :: "nat \<Rightarrow> nat \<Rightarrow> u32" where
  "B h k = of_nat (h * 65536 + k * 256)"

lemma unat_ucast_u16: "unat (ucast (h :: u16) :: u32) = unat h" "unat (ucast (k :: u8) :: u32) = unat k"
  by (simp_all add: unsigned_ucast_eq take_bit_nat_eq_self unsigned_less [where 'a = nat] order.strict_trans [OF unsigned_less [where 'a = nat]])

lemma unat_B: "h < 65536 \<Longrightarrow> k < 256 \<Longrightarrow> unat (B h k) = h * 65536 + k * 256"
  unfolding B_def by (rule unat_of_nat_u32) simp

lemma u32_masks:
  "(w :: u32) AND 0xffff0000 = push_bit 16 (drop_bit 16 w)" "drop_bit 8 (w AND 0x0000ff00) = take_bit 8 (drop_bit 8 w)"
  "drop_bit 16 (w AND 0x00ff0000) = take_bit 8 (drop_bit 16 w)" "w AND 0xff000000 = push_bit 24 (drop_bit 24 w)"
  "push_bit 8 w AND 0x0000ff00 = push_bit 8 (take_bit 8 w)" "push_bit 16 w AND 0x00ff0000 = push_bit 16 (take_bit 8 w)"
  "drop_bit 24 (w AND 0xff000000) = drop_bit 24 w"
proof -
  have m: "(0xffff0000 :: u32) = push_bit 16 (mask 16)" "(0x0000ff00 :: u32) = push_bit 8 (mask 8)"
    "(0x00ff0000 :: u32) = push_bit 16 (mask 8)" "(0xff000000 :: u32) = push_bit 24 (mask 8)"
    by (simp_all add: mask_eq_exp_minus_1)
  show "w AND 0xffff0000 = push_bit 16 (drop_bit 16 w)" "drop_bit 8 (w AND 0x0000ff00) = take_bit 8 (drop_bit 8 w)"
    "drop_bit 16 (w AND 0x00ff0000) = take_bit 8 (drop_bit 16 w)" "w AND 0xff000000 = push_bit 24 (drop_bit 24 w)"
    "push_bit 8 w AND 0x0000ff00 = push_bit 8 (take_bit 8 w)" "push_bit 16 w AND 0x00ff0000 = push_bit 16 (take_bit 8 w)"
    "drop_bit 24 (w AND 0xff000000) = drop_bit 24 w"
    unfolding m by (rule bit_word_eqI; auto simp: bit_simps dest: bit_imp_le_length)+
qed

lemma word_eq_of_nat: "unat (w :: u32) = n \<Longrightarrow> w = of_nat n"
  by auto

lemma unat_shift: "unat (drop_bit n (w :: u32)) = unat w div 2 ^ n" "unat (take_bit 8 (w :: u32)) = unat w mod 256"
proof -
  have "take_bit 32 (unat w) = unat w" using unsigned_less [where 'a = nat, of w] by (simp add: take_bit_nat_eq_self)
  then show "unat (drop_bit n w) = unat w div 2 ^ n"
    unfolding unsigned_drop_bit_eq by (simp add: drop_bit_eq_div [where 'a = nat])
  show "unat (take_bit 8 w) = unat w mod 256"
    unfolding unsigned_take_bit_eq by (simp add: take_bit_eq_mod [where 'a = nat])
qed

lemma push_of_nat: "push_bit n (of_nat m :: u32) = of_nat (m * 2 ^ n)"
  by (simp add: push_bit_eq_mult)

lemma B_parts:
  assumes "h < 65536" "k < 256"
  shows "B h k AND 0xffff0000 = of_nat (h * 65536)" "drop_bit 8 (B h k AND 0x0000ff00) = of_nat k"
    "drop_bit 16 (B h k AND 0x00ff0000) = of_nat (h mod 256)" "B h k AND 0xff000000 = of_nat (h div 256 * 16777216)"
proof -
  have n: "unat (B h k) = h * 65536 + k * 256" using assms by (rule unat_B)
  have "drop_bit 16 (B h k) = of_nat h" "take_bit 8 (drop_bit 8 (B h k)) = of_nat k"
    "take_bit 8 (drop_bit 16 (B h k)) = of_nat (h mod 256)" "drop_bit 24 (B h k) = of_nat (h div 256)"
    using assms by (intro word_eq_of_nat; simp add: unat_shift n)+
  then show "B h k AND 0xffff0000 = of_nat (h * 65536)" "drop_bit 8 (B h k AND 0x0000ff00) = of_nat k"
    "drop_bit 16 (B h k AND 0x00ff0000) = of_nat (h mod 256)" "B h k AND 0xff000000 = of_nat (h div 256 * 16777216)"
    unfolding u32_masks by (simp_all add: push_of_nat)
qed

text \<open>
  The constants \<^verbatim>\<open>__connman_ippool_init\<close> sets, and the blocks in the order in which they are tried:
  192.168.0.0 to 192.168.254.0, 172.16.0.0 to 172.31.254.0, 10.0.0.0 to 10.254.254.0.
\<close>

definition consts_ok :: "ippool_state \<Rightarrow> bool" where
  "consts_ok st \<longleftrightarrow> block_16_bits st = 0xc0a80000 \<and> block_20_bits st = 0xac100000 \<and>
     block_24_bits st = 0x0a000000 \<and> subnet_mask_24 st = 0xffffff00"

abbreviation "N_BLOCKS \<equiv> (69360 :: nat)"

definition upper :: "nat \<Rightarrow> nat" where
  "upper q = (if q = 0 then 49320 else if q \<le> 16 then 44047 + q else 2543 + q)"

definition nth_block :: "nat \<Rightarrow> u32" where
  "nth_block r = B (upper (r div 255)) (r mod 255)"

lemma of_nat_u32_eq: "a < 4294967296 \<Longrightarrow> b < 4294967296 \<Longrightarrow> (of_nat a :: u32) = of_nat b \<longleftrightarrow> a = b"
  by (metis unat_of_nat_u32)

lemma of_nat_u32_le: "a < 4294967296 \<Longrightarrow> b < 4294967296 \<Longrightarrow> (of_nat a :: u32) \<le> of_nat b \<longleftrightarrow> a \<le> b"
  by (simp add: word_le_nat_alt unat_of_nat_u32)

lemma of_nat_u32_less: "a < 4294967296 \<Longrightarrow> b < 4294967296 \<Longrightarrow> (of_nat a :: u32) < of_nat b \<longleftrightarrow> a < b"
  by (simp add: word_less_nat_alt unat_of_nat_u32)

lemma or_plus:
  "push_bit 16 (x :: u32) OR push_bit 8 (take_bit 8 y) = push_bit 16 x + push_bit 8 (take_bit 8 y)"
  "push_bit 24 (x :: u32) OR push_bit 16 (take_bit 8 y) = push_bit 24 x + push_bit 16 (take_bit 8 y)"
  by (rule disjunctive_add [symmetric]; auto simp: bit_simps)+

lemma take8_of_nat: "j < 256 \<Longrightarrow> take_bit 8 (of_nat j :: u32) = of_nat j"
  by (intro word_eq_of_nat) (simp only: unat_shift unat_of_nat_u32 mod_less)

lemma B_join:
  assumes "j < 256"
  shows "(of_nat (h * 65536) :: u32) OR (push_bit 8 (of_nat j) AND 0x0000ff00) = B h j"
    "(of_nat (g * 16777216) :: u32) OR (push_bit 16 (of_nat j) AND 0x00ff0000) = B (g * 256 + j) 0"
proof -
  have p: "push_bit 8 (of_nat j) AND 0x0000ff00 = (of_nat (j * 256) :: u32)"
    "push_bit 16 (of_nat j) AND 0x00ff0000 = (of_nat (j * 65536) :: u32)"
    unfolding u32_masks unfolding take8_of_nat [OF assms] unfolding push_of_nat by simp_all
  show "(of_nat (h * 65536) :: u32) OR (push_bit 8 (of_nat j) AND 0x0000ff00) = B h j"
    unfolding p B_def using or_plus(1) [of "of_nat h" "of_nat j"] unfolding take8_of_nat [OF assms] push_of_nat by simp
  show "(of_nat (g * 16777216) :: u32) OR (push_bit 16 (of_nat j) AND 0x00ff0000) = B (g * 256 + j) 0"
    unfolding p B_def using or_plus(2) [of "of_nat g" "of_nat j"] unfolding take8_of_nat [OF assms] push_of_nat
    by (simp add: algebra_simps)
qed

lemma next_block_inner:
  assumes "h < 65536" "k < 254"
  shows "next_block st (B h k) = B h (k + 1)"
proof -
  have k: "drop_bit 8 (B h k AND 0x0000ff00) + 1 = of_nat (k + 1)" using assms by (subst B_parts) simp_all
  have "(of_nat (k + 1) :: u32) \<noteq> 255" using assms(2) of_nat_u32_eq [of "k + 1" 255] by simp
  then show ?thesis
    using assms unfolding next_block_def Let_def k by (simp only: B_parts B_join if_False)
qed

lemma next_block_outer:
  assumes "consts_ok st" "q < 272"
  shows "next_block st (B (upper q) 254) = B (upper ((q + 1) mod 272)) 0"
proof -
  note c = assms(1) [unfolded consts_ok_def]
  have k: "drop_bit 8 (B h 254 AND 0x0000ff00) + 1 = 255" if "h < 65536" for h using that by (subst B_parts) simp_all
  have n: "(0xc0a80000 :: u32) = of_nat (49320 * 65536)" "(0xac100000 :: u32) = of_nat (44048 * 65536)"
    "(0x0a000000 :: u32) = of_nat (10 * 16777216)" by simp_all
  consider "q = 0" | "1 \<le> q" "q \<le> 16" | "17 \<le> q" using assms(2) by linarith
  then show ?thesis
  proof cases
    case 1
    have "B 49320 254 AND 0xffff0000 = 0xc0a80000" by (simp add: B_def)
    then show ?thesis using c 1 unfolding next_block_def Let_def by (simp add: upper_def k [of 49320]) (simp add: B_def)
  next
    case 2
    have e: "44047 + q = 172 * 256 + (15 + q)" by simp
    have h: "44047 + q < 65536" "(44047 + q) mod 256 = 15 + q" "(44047 + q) div 256 = 172"
      using 2 unfolding e mod_mult_self3 by (simp_all only: div_mult_self3) simp_all
    note parts = B_parts [OF h(1), of 254, unfolded h(2,3)]
    note join = B_join(2) [of "15 + q + 1" 172]
    have c1: "(of_nat ((44047 + q) * 65536) :: u32) \<noteq> of_nat (49320 * 65536)"
      "(of_nat (44048 * 65536) :: u32) \<le> of_nat ((44047 + q) * 65536)"
      using 2 by (subst of_nat_u32_eq of_nat_u32_le; simp)+
    have c2: "(16 :: u32) \<le> of_nat (15 + q)" "(of_nat (15 + q) :: u32) < 32" "(of_nat (15 + q) :: u32) + 1 = of_nat (15 + q + 1)"
      "(of_nat (15 + q + 1) :: u32) = 32 \<longleftrightarrow> q = 16"
      using 2 of_nat_u32_le [of 16 "15 + q"] of_nat_u32_less [of "15 + q" 32] of_nat_u32_eq [of "15 + q + 1" 32] by simp_all
    have u: "upper q = 44047 + q" using 2 by (simp add: upper_def)
    have "next_block st (B (44047 + q) 254) = (if q = 16 then 0x0a000000 else B (172 * 256 + (15 + q + 1)) 0)"
      using c 2 c1 c2 join h(1) unfolding next_block_def Let_def k [OF h(1)] n by (simp only: parts) simp
    also have "\<dots> = B (upper ((q + 1) mod 272)) 0" using 2 by (auto simp: upper_def B_def)
    finally show ?thesis by (simp only: u)
  next
    case 3
    define j where "j = q - 17"
    have j: "q = 17 + j" "j < 255" using 3 assms(2) by (simp_all add: j_def)
    have e: "2560 + j = 10 * 256 + j" by simp
    have h: "2560 + j < 65536" "(2560 + j) mod 256 = j" "(2560 + j) div 256 = 10"
      using j(2) unfolding e mod_mult_self3 by (simp_all only: div_mult_self3) simp_all
    note parts = B_parts [OF h(1), of 254, unfolded h(2,3)]
    note join = B_join(2) [of "j + 1" 10]
    have c1: "(of_nat ((2560 + j) * 65536) :: u32) \<noteq> of_nat (49320 * 65536)"
      "\<not> (of_nat (44048 * 65536) :: u32) \<le> of_nat ((2560 + j) * 65536)"
      using j(2) by (subst of_nat_u32_eq of_nat_u32_le; simp)+
    have c2: "(of_nat j :: u32) < 255" "(of_nat j :: u32) + 1 = of_nat (j + 1)"
      "(of_nat (j + 1) :: u32) = 255 \<longleftrightarrow> j = 254"
      using j(2) of_nat_u32_less [of j 255] of_nat_u32_eq [of "j + 1" 255] by simp_all
    have u: "upper q = 2560 + j" by (simp add: upper_def j(1))
    have "next_block st (B (2560 + j) 254) = (if j = 254 then 0xc0a80000 else B (10 * 256 + (j + 1)) 0)"
      using c j(2) c1 c2 join h(1) unfolding next_block_def Let_def k [OF h(1)] n by (simp only: parts) simp
    also have "\<dots> = B (upper ((q + 1) mod 272)) 0" using j by (auto simp: upper_def B_def)
    finally show ?thesis by (simp only: u)
  qed
qed

lemma next_block_nth:
  assumes "consts_ok st" "r < N_BLOCKS"
  shows "next_block st (nth_block r) = nth_block ((r + 1) mod N_BLOCKS)"
proof -
  define q k where "q = r div 255" and "k = r mod 255"
  have r: "r = q * 255 + k" "k < 255" "q < 272" using assms(2) by (simp_all add: q_def k_def)
  have up: "upper q < 65536" using r(3) by (auto simp: upper_def)
  show ?thesis
  proof (cases "k = 254")
    case True
    have "(r + 1) mod N_BLOCKS = (q + 1) mod 272 * 255"
      using mult_mod_right [of 255 "q + 1" 272] by (simp add: r(1) True algebra_simps)
    then have "nth_block ((r + 1) mod N_BLOCKS) = B (upper ((q + 1) mod 272)) 0" by (simp add: nth_block_def)
    then show ?thesis
      using next_block_outer [OF assms(1) r(3)] True by (simp add: nth_block_def flip: q_def k_def)
  next
    case False
    then have k: "k < 254" using r(2) by simp
    have lt: "r + 1 < N_BLOCKS" using r k by linarith
    have "(r + 1) div 255 = q" "(r + 1) mod 255 = k + 1" using r k by (simp_all add: div_nat_eqI mod_nat_eqI)
    then have "nth_block ((r + 1) mod N_BLOCKS) = B (upper q) (k + 1)" using lt by (simp add: nth_block_def)
    then show ?thesis using next_block_inner [OF up k, of st] by (simp add: nth_block_def flip: q_def k_def)
  qed
qed

lemma upper_bounds: "q < 272 \<Longrightarrow> 2560 \<le> upper q \<and> upper q < 65536"
  by (auto simp: upper_def)

lemma nth_block_inj:
  assumes "nth_block r = nth_block r'" "r < N_BLOCKS" "r' < N_BLOCKS"
  shows "r = r'"
proof -
  have q: "r div 255 < 272" "r' div 255 < 272" using assms(2,3) by simp_all
  have "upper (r div 255) * 65536 + r mod 255 * 256 = upper (r' div 255) * 65536 + r' mod 255 * 256"
    using arg_cong [OF assms(1), of unat] upper_bounds [OF q(1)] upper_bounds [OF q(2)]
    by (simp add: nth_block_def unat_B)
  then have "(upper (r div 255) * 256 + r mod 255) * 256 = (upper (r' div 255) * 256 + r' mod 255) * 256"
    by (simp add: algebra_simps)
  then have e: "upper (r div 255) * 256 + r mod 255 = upper (r' div 255) * 256 + r' mod 255" by simp
  have m: "r mod 255 < 256" "r' mod 255 < 256" by (rule less_trans [of _ 255]; simp)+
  have "upper (r div 255) = upper (r' div 255)" "r mod 255 = r' mod 255"
    using arg_cong [OF e, of "\<lambda>x. x div 256"] arg_cong [OF e, of "\<lambda>x. x mod 256"] m by simp_all
  moreover from this(1) have "r div 255 = r' div 255"
    using q by (auto simp: upper_def split: if_splits)
  ultimately show ?thesis by (metis div_mult_mod_eq)
qed

lemma nth_block_pos:
  assumes "r < N_BLOCKS"
  shows "nth_block r \<noteq> 0"
proof -
  have u: "2560 \<le> upper (r div 255)" "upper (r div 255) < 65536" using upper_bounds [of "r div 255"] assms by simp_all
  have "r mod 255 < 256" by (rule less_trans [of _ 255]) simp_all
  from unat_B [OF u(2) this] u(1) show ?thesis by (auto simp: nth_block_def)
qed

lemma nth_block_0: "nth_block 0 = 0xc0a80000"
  by (simp add: nth_block_def upper_def B_def)

section \<open>Finding a free block\<close>

definition taken :: "ippool_state \<Rightarrow> u32 \<Rightarrow> bool" where
  "taken st b \<longleftrightarrow> (\<exists>i \<in> set (allocated_blocks st). \<exists>info. infos st i = Some info \<and> ai_start info \<le> b \<and> b \<le> ai_end info)"

definition heap_ok :: "ippool_state \<Rightarrow> bool" where
  "heap_ok st \<longleftrightarrow> set (allocated_blocks st) \<subseteq> dom (infos st)"

lemma collides_taken:
  assumes "heap_ok st"
  shows "collides (infos st) (allocated_blocks st) b = Some (taken st b)"
proof -
  have "set is \<subseteq> dom h \<Longrightarrow> collides h is b =
      Some (\<exists>i \<in> set is. \<exists>info. h i = Some info \<and> ai_start info \<le> b \<and> b \<le> ai_end info)" for h "is"
    by (induction "is") auto
  then show ?thesis using assms by (simp add: heap_ok_def taken_def)
qed

lemma free_block_from_step:
  "heap_ok st \<Longrightarrow> free_block_from st b =
     (if \<not> taken st b then Some b
      else if next_block st b \<noteq> last_block st then free_block_from st (next_block st b) else Some 0)"
  by (subst free_block_from.simps) (simp add: collides_taken Let_def)

lemma free_block_cycle:
  assumes "heap_ok st" "consts_ok st" "r0 < N_BLOCKS" "last_block st = nth_block r0" "i < N_BLOCKS"
  shows "(\<exists>r < N_BLOCKS. free_block_from st (nth_block ((r0 + i) mod N_BLOCKS)) = Some (nth_block r) \<and> \<not> taken st (nth_block r)) \<or>
     free_block_from st (nth_block ((r0 + i) mod N_BLOCKS)) = Some 0 \<and>
     (\<forall>j. i \<le> j \<and> j < N_BLOCKS \<longrightarrow> taken st (nth_block ((r0 + j) mod N_BLOCKS)))"
  using assms(5)
proof (induction "N_BLOCKS - i" arbitrary: i)
  case 0
  then show ?case by simp
next
  case (Suc d)
  let ?b = "nth_block ((r0 + i) mod N_BLOCKS)"
  have nxt: "next_block st ?b = nth_block ((r0 + (i + 1)) mod N_BLOCKS)"
    using next_block_nth [OF assms(2), of "(r0 + i) mod N_BLOCKS"] by (simp add: mod_simps)
  have eq: "next_block st ?b = last_block st \<longleftrightarrow> i + 1 = N_BLOCKS"
  proof
    assume "next_block st ?b = last_block st"
    then have "(r0 + (i + 1)) mod N_BLOCKS = r0"
      unfolding nxt assms(4) using assms(3) by (intro nth_block_inj) simp_all
    then have "(i + 1) mod N_BLOCKS = 0"
      using assms(3) mod_eq_dvd_iff_nat [of r0 "r0 + (i + 1)" N_BLOCKS] by (simp add: mod_eq_0_iff_dvd)
    then show "i + 1 = N_BLOCKS" using Suc.prems by (metis Suc_eq_plus1 Suc_lessI mod_less nat.distinct(1))
  next
    assume "i + 1 = N_BLOCKS"
    then show "next_block st ?b = last_block st" unfolding nxt assms(4) using assms(3) by simp
  qed
  show ?case
  proof (cases "taken st ?b")
    case False
    then have "free_block_from st ?b = Some ?b" using free_block_from_step [OF assms(1)] by simp
    then show ?thesis using False by (intro disjI1 exI [of _ "(r0 + i) mod N_BLOCKS"]) simp
  next
    case True
    have upd: "(\<forall>j. i \<le> j \<and> j < N_BLOCKS \<longrightarrow> taken st (nth_block ((r0 + j) mod N_BLOCKS))) \<longleftrightarrow>
        (\<forall>j. i + 1 \<le> j \<and> j < N_BLOCKS \<longrightarrow> taken st (nth_block ((r0 + j) mod N_BLOCKS)))"
      using True by (metis Suc_eq_plus1 Suc_leD Suc_leI le_eq_less_or_eq)
    show ?thesis
    proof (cases "i + 1 = N_BLOCKS")
      case end': True
      then have "free_block_from st ?b = Some 0" using True eq free_block_from_step [OF assms(1), of ?b] by simp
      then show ?thesis using upd end' by auto
    next
      case False
      then have "i + 1 < N_BLOCKS" "d = N_BLOCKS - (i + 1)" using Suc.prems Suc.hyps(2) by simp_all
      from Suc.hyps(1) [OF this(2,1)] show ?thesis
        using True False eq free_block_from_step [OF assms(1), of ?b] unfolding upd nxt by simp
    qed
  qed
qed

lemma get_free_block_cycle:
  assumes "heap_ok st" "consts_ok st" "r0 < N_BLOCKS" "last_block st = nth_block r0"
  obtains (free) r where "r < N_BLOCKS" "get_free_block st = Some (nth_block r)" "\<not> taken st (nth_block r)"
  | (full) "get_free_block st = Some 0" "\<And>r. r < N_BLOCKS \<Longrightarrow> taken st (nth_block r)"
proof -
  have g: "get_free_block st = free_block_from st (nth_block ((r0 + 0) mod N_BLOCKS))"
    using assms(3,4) nth_block_pos [OF assms(3)] by (simp add: get_free_block_def)
  have all: "taken st (nth_block r)"
    if h: "\<forall>j. 0 \<le> j \<and> j < N_BLOCKS \<longrightarrow> taken st (nth_block ((r0 + j) mod N_BLOCKS))" "r < N_BLOCKS" for r
  proof -
    define j where "j = (r + (N_BLOCKS - r0)) mod N_BLOCKS"
    have "(r0 + j) mod N_BLOCKS = (r + N_BLOCKS) mod N_BLOCKS"
      using assms(3) unfolding j_def by (simp add: mod_simps)
    then have "(r0 + j) mod N_BLOCKS = r" using h(2) by simp
    moreover have "j < N_BLOCKS" by (simp add: j_def)
    ultimately show ?thesis using h(1) by (metis le0)
  qed
  show thesis
    using free_block_cycle [OF assms, of 0] free full all unfolding g by auto
qed

lemma free_block_first:
  assumes "heap_ok st" "consts_ok st" "last_block st = 0" "i \<le> r" "r < N_BLOCKS" "\<not> taken st (nth_block r)"
  shows "\<exists>r' < N_BLOCKS. free_block_from st (nth_block i) = Some (nth_block r') \<and> \<not> taken st (nth_block r')"
  using assms(4)
proof (induction "r - i" arbitrary: i)
  case 0
  then show ?case using assms(5,6) free_block_from_step [OF assms(1)] by auto
next
  case (Suc d)
  have i: "i < N_BLOCKS" "i + 1 < N_BLOCKS" "i + 1 \<le> r" "d = r - (i + 1)" using Suc assms(5) by simp_all
  note nxt = next_block_nth [OF assms(2) i(1)]
  show ?case
  proof (cases "taken st (nth_block i)")
    case False
    then show ?thesis using i(1) free_block_from_step [OF assms(1)] by auto
  next
    case True
    have "next_block st (nth_block i) \<noteq> 0" unfolding nxt by (rule nth_block_pos) simp
    then have "free_block_from st (nth_block i) = free_block_from st (nth_block (i + 1))"
      using True nxt i(2) assms(3) free_block_from_step [OF assms(1), of "nth_block i"] by simp
    then show ?thesis using Suc.hyps(1) [OF i(4,3)] by simp
  qed
qed

lemma free_block_diverges:
  assumes "heap_ok st" "consts_ok st" "last_block st = 0" "\<And>r. r < N_BLOCKS \<Longrightarrow> taken st (nth_block r)" "r < N_BLOCKS"
  shows "free_block_from st (nth_block r) = None"
proof (rule ccontr)
  assume "free_block_from st (nth_block r) \<noteq> None"
  then obtain v where v: "free_block_from st (nth_block r) = Some v" by blast
  have "st = st \<longrightarrow> (\<exists>r' < N_BLOCKS. nth_block r = nth_block r') \<longrightarrow> False"
  proof (rule free_block_from.raw_induct [where P = "\<lambda>s b x. s = st \<longrightarrow> (\<exists>r < N_BLOCKS. b = nth_block r) \<longrightarrow> False",
        OF _ v], intro impI)
    fix f s b x
    assume IH: "\<And>s b x. f s b = Some x \<Longrightarrow> s = st \<longrightarrow> (\<exists>r < N_BLOCKS. b = nth_block r) \<longrightarrow> False"
      and eq: "(collides (infos s) (allocated_blocks s) b \<bind>
        (\<lambda>collision. if \<not> collision then Some b else let block = next_block s b in
           if block \<noteq> last_block s then f s block else Some 0)) = Some x"
      and s: "s = st" and "\<exists>r < N_BLOCKS. b = nth_block r"
    then obtain r where r: "r < N_BLOCKS" "b = nth_block r" by blast
    note nxt = next_block_nth [OF assms(2) r(1)]
    have "next_block st b \<noteq> 0" unfolding r(2) nxt by (rule nth_block_pos) simp
    then have "f st (next_block st b) = Some x"
      using eq assms(3,4) r by (simp add: s collides_taken [OF assms(1)] Let_def)
    moreover have "\<exists>r' < N_BLOCKS. next_block st b = nth_block r'" unfolding r(2) nxt by (rule exI [of _ "(r + 1) mod N_BLOCKS"]) simp
    ultimately show False using IH by blast
  qed
  then show False using assms(5) by auto
qed

section \<open>The invariant of the pools\<close>

text \<open>
  The list holds the allocated infos once each; infos and pools point to each other; ranges are not
  empty; an interface has at most one info per start address; and the last block is one of the
  cycle.
\<close>

definition links_ok :: "(nat \<rightharpoonup> address_info) \<Rightarrow> (nat \<rightharpoonup> connman_ippool) \<Rightarrow> bool" where
  "links_ok h ps \<longleftrightarrow>
     (\<forall>i info p. h i = Some info \<longrightarrow> ai_pool info = Some p \<longrightarrow> (\<exists>pool. ps p = Some pool \<and> pl_info pool = Some i)) \<and>
     (\<forall>p pool. ps p = Some pool \<longrightarrow> (\<exists>i info. pl_info pool = Some i \<and> h i = Some info \<and> ai_pool info = Some p))"

definition infos_ok :: "(nat \<rightharpoonup> address_info) \<Rightarrow> bool" where
  "infos_ok h \<longleftrightarrow>
     (\<forall>i info. h i = Some info \<longrightarrow> ai_start info \<le> ai_end info) \<and>
     (\<forall>i j a b. h i = Some a \<longrightarrow> h j = Some b \<longrightarrow> ai_index a = ai_index b \<longrightarrow> ai_start a = ai_start b \<longrightarrow> i = j)"

lemma links_okI:
  assumes "\<And>i info p. h i = Some info \<Longrightarrow> ai_pool info = Some p \<Longrightarrow> \<exists>pool. ps p = Some pool \<and> pl_info pool = Some i"
    "\<And>p pool. ps p = Some pool \<Longrightarrow> \<exists>i info. pl_info pool = Some i \<and> h i = Some info \<and> ai_pool info = Some p"
  shows "links_ok h ps"
  using assms unfolding links_ok_def by blast

lemma links_okD:
  assumes "links_ok h ps"
  shows "h i = Some info \<Longrightarrow> ai_pool info = Some p \<Longrightarrow> \<exists>pool. ps p = Some pool \<and> pl_info pool = Some i"
    "ps p = Some pool \<Longrightarrow> \<exists>i info. pl_info pool = Some i \<and> h i = Some info \<and> ai_pool info = Some p"
  using assms unfolding links_ok_def by blast+

lemma links_insert_pool:
  assumes l: "links_ok h ps" and "ps p = None" "h i = None" "ai_pool info = Some p" "pl_info pool = Some i"
  shows "links_ok (h(i \<mapsto> info)) (ps(p \<mapsto> pool))"
proof (rule links_okI)
  fix k x q assume "(h(i \<mapsto> info)) k = Some x" "ai_pool x = Some q"
  then show "\<exists>pool'. (ps(p \<mapsto> pool)) q = Some pool' \<and> pl_info pool' = Some k"
    using links_okD(1) [OF l, of k x q] assms by (auto split: if_splits)
next
  fix q pl assume "(ps(p \<mapsto> pool)) q = Some pl"
  then show "\<exists>k x. pl_info pl = Some k \<and> (h(i \<mapsto> info)) k = Some x \<and> ai_pool x = Some q"
    using links_okD(2) [OF l, of q pl] assms by (force split: if_splits)
qed

lemma links_remove_pool:
  assumes l: "links_ok h ps" and "ps p = Some pool" "pl_info pool = Some i"
  shows "links_ok (h(i := None)) (ps(p := None))"
proof (rule links_okI)
  fix k x q assume "(h(i := None)) k = Some x" "ai_pool x = Some q"
  then show "\<exists>pool'. (ps(p := None)) q = Some pool' \<and> pl_info pool' = Some k"
    using links_okD(1) [OF l, of k x q] assms by (auto split: if_splits)
next
  fix q pl assume "(ps(p := None)) q = Some pl"
  then show "\<exists>k x. pl_info pl = Some k \<and> (h(i := None)) k = Some x \<and> ai_pool x = Some q"
    using links_okD(2) [OF l, of q pl] links_okD(2) [OF l assms(2)] assms by (force split: if_splits)
qed

lemma links_update_pool:
  assumes l: "links_ok h ps" and "ps p = Some pool" "pl_info pool' = pl_info pool"
  shows "links_ok h (ps(p \<mapsto> pool'))"
proof (rule links_okI)
  fix k x q assume "h k = Some x" "ai_pool x = Some q"
  then show "\<exists>pl. (ps(p \<mapsto> pool')) q = Some pl \<and> pl_info pl = Some k"
    using links_okD(1) [OF l, of k x q] assms by auto
next
  fix q pl assume "(ps(p \<mapsto> pool')) q = Some pl"
  then show "\<exists>k x. pl_info pl = Some k \<and> h k = Some x \<and> ai_pool x = Some q"
    using links_okD(2) [OF l, of q pl] links_okD(2) [OF l assms(2)] assms by (auto split: if_splits)
qed

lemma links_update_info:
  assumes l: "links_ok h ps" and "case h i of None \<Rightarrow> ai_pool info' = None | Some info \<Rightarrow> ai_pool info' = ai_pool info"
  shows "links_ok (h(i \<mapsto> info')) ps"
proof (rule links_okI)
  fix k x q assume "(h(i \<mapsto> info')) k = Some x" "ai_pool x = Some q"
  then show "\<exists>pl. ps q = Some pl \<and> pl_info pl = Some k"
    using links_okD(1) [OF l, of k _ q] assms by (auto split: if_splits option.splits)
next
  fix q pl assume "ps q = Some pl"
  then show "\<exists>k x. pl_info pl = Some k \<and> (h(i \<mapsto> info')) k = Some x \<and> ai_pool x = Some q"
    using links_okD(2) [OF l, of q pl] assms by (force split: option.splits)
qed

lemma links_remove_info:
  assumes l: "links_ok h ps" and "h i = Some info" "ai_pool info = None"
  shows "links_ok (h(i := None)) ps"
proof (rule links_okI)
  fix k x q assume "(h(i := None)) k = Some x" "ai_pool x = Some q"
  then show "\<exists>pl. ps q = Some pl \<and> pl_info pl = Some k"
    using links_okD(1) [OF l, of k x q] by (auto split: if_splits)
next
  fix q pl assume "ps q = Some pl"
  then show "\<exists>k x. pl_info pl = Some k \<and> (h(i := None)) k = Some x \<and> ai_pool x = Some q"
    using links_okD(2) [OF l, of q pl] assms by force
qed

lemma infos_insert:
  assumes "infos_ok h" "ai_start info \<le> ai_end info"
    "\<And>j a. h j = Some a \<Longrightarrow> ai_index a = ai_index info \<Longrightarrow> ai_start a = ai_start info \<Longrightarrow> j = i"
  shows "infos_ok (h(i \<mapsto> info))"
proof -
  have "k = k'" if k: "(h(i \<mapsto> info)) k = Some a" "(h(i \<mapsto> info)) k' = Some b" "ai_index a = ai_index b" "ai_start a = ai_start b"
    for k k' a b
  proof (cases "k = i \<or> k' = i")
    case True
    then show ?thesis using assms(3) [of k a] assms(3) [of k' b] k by (auto split: if_splits)
  next
    case False
    then show ?thesis using assms(1) k unfolding infos_ok_def by simp
  qed
  moreover have "\<forall>k a. (h(i \<mapsto> info)) k = Some a \<longrightarrow> ai_start a \<le> ai_end a"
    using assms(1,2) by (simp add: infos_ok_def)
  ultimately show ?thesis unfolding infos_ok_def by blast
qed

lemma infos_remove: "infos_ok h \<Longrightarrow> infos_ok (h(i := None))"
  unfolding infos_ok_def by (simp only: fun_upd_apply split: if_splits) blast

definition pool_inv :: "ippool_state \<Rightarrow> bool" where
  "pool_inv st \<longleftrightarrow> consts_ok st \<and> distinct (allocated_blocks st) \<and> set (allocated_blocks st) = dom (infos st) \<and>
     (last_block st = 0 \<or> (\<exists>r < N_BLOCKS. last_block st = nth_block r)) \<and> links_ok (infos st) (pools st) \<and> infos_ok (infos st)"

lemma pool_inv_heap: "pool_inv st \<Longrightarrow> heap_ok st"
  by (simp add: pool_inv_def heap_ok_def)

lemma get_free_block_result:
  assumes "pool_inv st" "get_free_block st = Some b" "b \<noteq> 0"
  shows "(\<exists>r < N_BLOCKS. b = nth_block r) \<and> \<not> taken st b"
proof (cases "last_block st = 0")
  case True
  have c: "heap_ok st" "consts_ok st" using assms(1) pool_inv_heap by (auto simp: pool_inv_def)
  have g: "get_free_block st = free_block_from st (nth_block 0)"
    using True c(2) by (simp add: get_free_block_def nth_block_0 consts_ok_def)
  show ?thesis
  proof (cases "\<exists>r < N_BLOCKS. \<not> taken st (nth_block r)")
    case True
    then show ?thesis using free_block_first [OF c \<open>last_block st = 0\<close>, of 0] assms(2) g by fastforce
  next
    case False
    then show ?thesis using free_block_diverges [OF c True, of 0] assms(2) g by auto
  qed
next
  case False
  then obtain r0 where r0: "r0 < N_BLOCKS" "last_block st = nth_block r0" "consts_ok st"
    using assms(1) by (auto simp: pool_inv_def)
  show ?thesis
    by (rule get_free_block_cycle [OF pool_inv_heap [OF assms(1)] r0(3,1,2)]) (use assms(2,3) in auto)
qed

lemma nth_block_add:
  assumes "r < N_BLOCKS" "unat n < 256"
  shows "nth_block r \<le> nth_block r + n" "unat (nth_block r + n) = unat (nth_block r) + unat n"
proof -
  have u: "upper (r div 255) < 65536" using upper_bounds [of "r div 255"] assms by simp
  have m: "r mod 255 < 255" by simp
  then have "r mod 255 < 256" by linarith
  then have "unat (nth_block r) = upper (r div 255) * 65536 + r mod 255 * 256"
    using unat_B [OF u] by (simp add: nth_block_def)
  then have lt: "unat (nth_block r) + unat n < 4294967296" using u m assms(2) by linarith
  then show "unat (nth_block r + n) = unat (nth_block r) + unat n" by (simp add: unat_word_ariths)
  then show "nth_block r \<le> nth_block r + n" by (simp add: word_le_nat_alt)
qed

lemma fresh_info:
  assumes "pool_inv st" "\<not> taken st b" "infos st i = Some info"
  shows "ai_start info \<noteq> b"
proof
  assume b: "ai_start info = b"
  have "i \<in> set (allocated_blocks st)" "b \<le> ai_end info"
    using assms(1,3) b by (auto simp: pool_inv_def infos_ok_def)
  then show False using assms(2,3) b unfolding taken_def by blast
qed

lemma create_ok:
  assumes inv: "pool_inv st" and fr: "pools st p = None" "infos st i = None" and rng: "rng \<le> 254"
    and cr: "ippool_create (Some p) (Some i) st index start rng cb = Some (st', Some q)"
  obtains b r where "b = nth_block r" "r < N_BLOCKS" "\<not> taken st b" "q = p" "start + rng \<le> 254"
    "st' = st\<lparr>last_block := b,
       infos := (infos st)(i \<mapsto> \<lparr>ai_index = index, ai_start = b, ai_end = b + rng, use_count = 0, ai_pool = Some p\<rparr>),
       pools := (pools st)(p \<mapsto> \<lparr>refcount = 1, pl_info = Some i, gateway = get_ip (b + 1), broadcast = get_ip (b + 255),
         pl_start_ip = get_ip (b + start), pl_end_ip = get_ip (b + start + (if rng = 0 then 1 else rng)),
         subnet_mask = get_ip 0xffffff00, collision_cb = cb\<rparr>),
       allocated_blocks := i # allocated_blocks st\<rparr>"
    "pool_inv st'"
proof -
  obtain b where b: "get_free_block st = Some b" "b \<noteq> 0" "start + rng \<le> 254"
    using cr by (auto simp: ippool_create_def not_less split: if_splits bind_splits)
  obtain r where r: "r < N_BLOCKS" "b = nth_block r" "\<not> taken st b" using get_free_block_result [OF inv b(1,2)] by blast
  let ?info = "\<lparr>ai_index = index, ai_start = b, ai_end = b + rng, use_count = 0, ai_pool = Some p\<rparr>"
  have st': "st' = st\<lparr>last_block := b, infos := (infos st)(i \<mapsto> ?info),
       pools := (pools st)(p \<mapsto> \<lparr>refcount = 1, pl_info = Some i, gateway = get_ip (b + 1), broadcast = get_ip (b + 255),
         pl_start_ip = get_ip (b + start), pl_end_ip = get_ip (b + start + (if rng = 0 then 1 else rng)),
         subnet_mask = get_ip 0xffffff00, collision_cb = cb\<rparr>),
       allocated_blocks := i # allocated_blocks st\<rparr>" and q: "q = p"
    using cr b inv by (auto simp: ippool_create_def Let_def pool_inv_def consts_ok_def split: if_splits)
  have "unat rng < 256" using rng by (simp add: word_le_nat_alt)
  then have le: "b \<le> b + rng" using nth_block_add(1) [OF r(1)] r(2) by simp
  have "links_ok (infos st') (pools st')" using inv fr by (simp add: pool_inv_def st' links_insert_pool)
  moreover have "infos_ok (infos st')"
    using inv le fresh_info [OF inv r(3)] by (simp add: pool_inv_def st') (rule infos_insert, auto)
  moreover have "i \<notin> set (allocated_blocks st)" using inv fr(2) by (auto simp: pool_inv_def)
  ultimately have "pool_inv st'" using inv r by (auto simp: pool_inv_def st' consts_ok_def)
  then show thesis using that [of b r] r q b(3) st' by simp
qed

lemma lookup_info_cases:
  assumes "pool_inv st"
  obtains (none) "lookup_info st index start = Some None"
    "\<And>i info. infos st i = Some info \<Longrightarrow> ai_index info = index \<Longrightarrow> ai_start info \<noteq> start"
  | (found) i info where "lookup_info st index start = Some (Some i)" "infos st i = Some info"
    "ai_index info = index" "ai_start info = start"
proof -
  have dom: "set (allocated_blocks st) = dom (infos st)" using assms by (simp add: pool_inv_def)
  have some: "lookup_info_from h is index start = Some (Some i) \<Longrightarrow>
      \<exists>info. h i = Some info \<and> ai_index info = index \<and> ai_start info = start" for h "is" i
    by (induction "is") (auto split: bind_splits if_splits)
  have none': "lookup_info_from h is index start = Some None \<Longrightarrow> i \<in> set is \<Longrightarrow> h i = Some info \<Longrightarrow>
      ai_index info = index \<Longrightarrow> ai_start info \<noteq> start" for h "is" i info
    by (induction "is") (auto split: bind_splits if_splits)
  have total: "set is \<subseteq> dom h \<Longrightarrow> \<exists>r. lookup_info_from h is index start = Some r" for h "is"
    by (induction "is") auto
  obtain r where r: "lookup_info st index start = Some r" using total dom unfolding lookup_info_def by blast
  show thesis
  proof (cases r)
    case None
    have "ai_start info \<noteq> start" if "infos st i = Some info" "ai_index info = index" for i info
      using none' [of "infos st" "allocated_blocks st" i info] that r None dom by (auto simp: lookup_info_def)
    then show thesis using r None none by simp
  next
    case (Some i)
    then show thesis using some [of "infos st" "allocated_blocks st" i] r found [of i] by (auto simp: lookup_info_def)
  qed
qed

text \<open>The change one address makes: the use count of the info of its subnet.\<close>

lemma pool_inv_update_info:
  assumes "pool_inv st" "infos st i = Some info" "ai_index info' = ai_index info" "ai_start info' = ai_start info"
    "ai_end info' = ai_end info" "ai_pool info' = ai_pool info"
  shows "pool_inv (st\<lparr>infos := (infos st)(i \<mapsto> info')\<rparr>)"
proof -
  have "infos_ok ((infos st)(i \<mapsto> info'))"
  proof (rule infos_insert)
    show "ai_start info' \<le> ai_end info'" using assms by (auto simp: pool_inv_def infos_ok_def)
    show "\<And>j a. infos st j = Some a \<Longrightarrow> ai_index a = ai_index info' \<Longrightarrow> ai_start a = ai_start info' \<Longrightarrow> j = i"
      using assms unfolding pool_inv_def infos_ok_def by metis
  qed (use assms in \<open>simp add: pool_inv_def\<close>)
  then show ?thesis
    using assms by (auto simp: pool_inv_def consts_ok_def intro!: links_update_info)
qed

lemma pool_inv_insert_info:
  assumes "pool_inv st" "infos st i = None" "ai_pool info = None" "ai_start info \<le> ai_end info"
    "\<And>j a. infos st j = Some a \<Longrightarrow> ai_index a = ai_index info \<Longrightarrow> ai_start a \<noteq> ai_start info"
  shows "pool_inv (st\<lparr>infos := (infos st)(i \<mapsto> info), allocated_blocks := i # allocated_blocks st\<rparr>)"
proof -
  have "infos_ok ((infos st)(i \<mapsto> info))"
    using assms by (intro infos_insert) (auto simp: pool_inv_def)
  moreover have "links_ok ((infos st)(i \<mapsto> info)) (pools st)"
    using assms by (intro links_update_info) (auto simp: pool_inv_def)
  moreover have "i \<notin> set (allocated_blocks st)" using assms(1,2) by (auto simp: pool_inv_def)
  ultimately show ?thesis using assms(1) by (simp add: pool_inv_def consts_ok_def)
qed

lemma pool_inv_remove_info:
  assumes "pool_inv st" "infos st i = Some info" "ai_pool info = None"
  shows "pool_inv (st\<lparr>allocated_blocks := g_list_remove i (allocated_blocks st), infos := (infos st)(i := None)\<rparr>)"
  using assms links_remove_info infos_remove by (auto simp: pool_inv_def consts_ok_def distinct_remove1)

lemma find_collision_total:
  assumes "links_ok (infos st) (pools st)" "set ks \<subseteq> dom (infos st)"
  shows "\<exists>cbs. find_collision st ks i info = Some cbs"
  using assms(2)
proof (induction ks)
  case (Cons k ks)
  then obtain it where it: "infos st k = Some it" by auto
  show ?case
  proof (cases "ai_pool it")
    case (Some p)
    then show ?thesis using links_okD(1) [OF assms(1) it] Cons it by auto
  qed (use Cons it in auto)
qed simp

definition prefix_start :: "u32 \<Rightarrow> u8 \<Rightarrow> u32" where
  "prefix_start a prefixlen = a AND (if prefixlen \<ge> 32 then 0xffffffff else mask_of prefixlen)"

definition prefix_end :: "u32 \<Rightarrow> u8 \<Rightarrow> u32" where
  "prefix_end a prefixlen = prefix_start a prefixlen OR NOT (if prefixlen \<ge> 32 then 0xffffffff else mask_of prefixlen)"

lemma newaddr_ok:
  assumes inv: "pool_inv st" and fr: "case alloc of None \<Rightarrow> True | Some i \<Rightarrow> infos st i = None"
  obtains st' cbs where "ippool_newaddr alloc st index address prefixlen = Some (st', cbs)" "pool_inv st'"
    "pools st' = pools st" "last_block st' = last_block st"
proof -
  consider (skip) "inet_aton address = None \<or> (\<exists>a. inet_aton address = Some a \<and> \<not> is_private_address (ntohl a))"
    | (addr) a where "inet_aton address = Some a" "is_private_address (ntohl a)" by fastforce
  then show thesis
  proof cases
    case skip
    then show thesis using that [of st "[]"] inv by (auto simp: ippool_newaddr_def)
  next
    case (addr a)
    let ?s = "prefix_start (ntohl a) prefixlen" and ?e = "prefix_end (ntohl a) prefixlen"
    note def = ippool_newaddr_def [of _ st index address prefixlen, unfolded addr option.case Let_def,
        folded prefix_start_def, folded prefix_end_def]
    have upd: "\<exists>cbs. find_collision (t\<lparr>infos := (infos t)(i \<mapsto> x)\<rparr>) (allocated_blocks t) i x = Some cbs"
      if "pool_inv t" "infos t i = Some y" "ai_index x = ai_index y" "ai_start x = ai_start y" "ai_end x = ai_end y"
        "ai_pool x = ai_pool y" for t i x y
      using pool_inv_update_info [OF that] by (intro find_collision_total) (auto simp: pool_inv_def)
    from inv show thesis
    proof (cases rule: lookup_info_cases [where index = index and start = ?s])
      case (found i info)
      let ?x = "info\<lparr>use_count := use_count info + 1\<rparr>"
      obtain cbs where c: "find_collision (st\<lparr>infos := (infos st)(i \<mapsto> ?x)\<rparr>) (allocated_blocks st) i ?x = Some cbs"
        using upd [OF inv found(2), of ?x] by auto
      show thesis
        using pool_inv_update_info [OF inv found(2), of ?x] found(1,2) c addr(2)
        by (intro that [of "st\<lparr>infos := (infos st)(i \<mapsto> ?x)\<rparr>" "if use_count ?x > 1 \<or> ai_pool ?x \<noteq> None then [] else cbs"])
          (auto simp: def)
    next
      case none
      show thesis
      proof (cases alloc)
        case None
        then show thesis using that [of st "[]"] inv none(1) addr(2) by (simp add: def)
      next
        case (Some i)
        let ?y = "\<lparr>ai_index = index, ai_start = ?s, ai_end = ?e, use_count = 0, ai_pool = None\<rparr>"
        let ?t = "st\<lparr>infos := (infos st)(i \<mapsto> ?y), allocated_blocks := i # allocated_blocks st\<rparr>"
        let ?x = "?y\<lparr>use_count := use_count ?y + 1\<rparr>"
        have t: "pool_inv ?t"
          using none(2) Some fr by (intro pool_inv_insert_info [OF inv]) (auto simp: prefix_end_def le_word_or2)
        have y: "infos ?t i = Some ?y" by simp
        obtain cbs where c: "find_collision (?t\<lparr>infos := (infos ?t)(i \<mapsto> ?x)\<rparr>) (allocated_blocks ?t) i ?x = Some cbs"
          using upd [OF t y, of ?x] by auto
        show thesis
          using pool_inv_update_info [OF t y, of ?x] none(1) Some c addr(2)
          by (intro that [of "?t\<lparr>infos := (infos ?t)(i \<mapsto> ?x)\<rparr>" cbs]) (simp_all add: def)
      qed
    qed
  qed
qed

lemma deladdr_ok:
  assumes inv: "pool_inv st" and "prefixlen < 32"
  obtains st' where "ippool_deladdr st index address prefixlen = Some st'" "pool_inv st'"
    "pools st' = pools st" "last_block st' = last_block st"
proof -
  consider (skip) "inet_aton address = None \<or> (\<exists>a. inet_aton address = Some a \<and> \<not> is_private_address (ntohl a))"
    | (addr) a where "inet_aton address = Some a" "is_private_address (ntohl a)" by fastforce
  then show thesis
  proof cases
    case skip
    then show thesis using that [of st] inv by (auto simp: ippool_deladdr_def)
  next
    case (addr a)
    note def = ippool_deladdr_def [of st index address prefixlen, unfolded addr option.case Let_def]
    have p: "\<not> 32 \<le> prefixlen" using assms(2) by simp
    from inv show thesis
    proof (cases rule: lookup_info_cases [where index = index and start = "ntohl a AND mask_of prefixlen"])
      case none
      then show thesis using that [of st] inv addr(2) p by (simp add: def)
    next
      case (found i info)
      let ?x = "info\<lparr>use_count := use_count info - 1\<rparr>"
      let ?t = "st\<lparr>infos := (infos st)(i \<mapsto> ?x)\<rparr>"
      have t: "pool_inv ?t" by (rule pool_inv_update_info [OF inv found(2)]) simp_all
      have x: "infos ?t i = Some ?x" by simp
      show thesis
      proof (cases "ai_pool info \<noteq> None \<or> use_count ?x > 0")
        case True
        then show thesis using that [of ?t] t found(1,2) addr(2) p by (auto simp: def)
      next
        case False
        have "pool_inv (?t\<lparr>allocated_blocks := g_list_remove i (allocated_blocks ?t), infos := (infos ?t)(i := None)\<rparr>)"
          by (rule pool_inv_remove_info [OF t x]) (use False in simp)
        then show thesis
          using that [of "?t\<lparr>allocated_blocks := g_list_remove i (allocated_blocks ?t), infos := (infos ?t)(i := None)\<rparr>"]
            found(1,2) addr(2) p False by (simp add: def)
      qed
    qed
  qed
qed

lemma ref_ok:
  assumes "pool_inv st" "ippool_ref st p = Some st'"
  shows "pool_inv st'"
  using assms by (auto simp: ippool_ref_def pool_inv_def consts_ok_def split: bind_splits intro!: links_update_pool)

lemma unref_ok:
  assumes inv: "pool_inv st" and un: "ippool_unref st pp = Some st'"
  shows "pool_inv st'"
proof (cases pp)
  case None
  then show ?thesis using assms by (simp add: ippool_unref_def)
next
  case (Some p)
  then obtain pool where pool: "pools st p = Some pool" using un by (auto simp: ippool_unref_def split: bind_splits)
  have l: "links_ok (infos st) (pools st)" using inv by (simp add: pool_inv_def)
  obtain i where i: "pl_info pool = Some i" using links_okD(2) [OF l pool] by blast
  show ?thesis
  proof (cases "refcount pool = 1")
    case True
    then have "st' = st\<lparr>allocated_blocks := g_list_remove i (allocated_blocks st), infos := (infos st)(i := None),
        pools := (pools st)(p := None)\<rparr>"
      using un Some pool i by (simp add: ippool_unref_def)
    then show ?thesis
      using inv links_remove_pool [OF l pool i] infos_remove by (auto simp: pool_inv_def consts_ok_def distinct_remove1)
  next
    case False
    then show ?thesis
      using un Some pool inv
      by (auto simp: ippool_unref_def pool_inv_def consts_ok_def intro!: links_update_pool)
  qed
qed

section \<open>Runs\<close>

definition ippool_zero :: ippool_state where
  "ippool_zero = \<lparr>allocated_blocks = [], last_block = 0, block_16_bits = 0, block_20_bits = 0, block_24_bits = 0,
     subnet_mask_24 = 0, infos = Map.empty, pools = Map.empty\<rparr>"

lemma inet_addr_ntoa: "inet_ntoa a = str \<Longrightarrow> inet_addr str = a"
  by (auto simp: inet_addr_def)

lemma inet_addr_consts:
  "ntohl (inet_addr ''192.168.0.0'') = 0xc0a80000" "ntohl (inet_addr ''172.16.0.0'') = 0xac100000"
  "ntohl (inet_addr ''10.0.0.0'') = 0x0a000000" "ntohl (inet_addr ''255.255.255.0'') = 0xffffff00"
proof -
  have "inet_addr ''192.168.0.0'' = htonl 0xc0a80000" "inet_addr ''172.16.0.0'' = htonl 0xac100000"
    "inet_addr ''10.0.0.0'' = htonl 0x0a000000" "inet_addr ''255.255.255.0'' = htonl 0xffffff00"
    by (rule inet_addr_ntoa; simp add: inet_ntoa_def dec_byte_def dec_char_def bswap32_def le32_of_def char_of_def bit_0)+
  then show "ntohl (inet_addr ''192.168.0.0'') = 0xc0a80000" "ntohl (inet_addr ''172.16.0.0'') = 0xac100000"
    "ntohl (inet_addr ''10.0.0.0'') = 0x0a000000" "ntohl (inet_addr ''255.255.255.0'') = 0xffffff00"
    by (simp_all only: bswap32_invol)
qed

lemma init_consts: "consts_ok (ippool_init st)"
  by (simp add: consts_ok_def ippool_init_def inet_addr_consts)

inductive pool_reach :: "ippool_state \<Rightarrow> bool" where
  init: "pool_reach (ippool_init ippool_zero)"
| create: "pool_reach st \<Longrightarrow> (\<forall>p. ap = Some p \<longrightarrow> pools st p = None) \<Longrightarrow> (\<forall>i. ai = Some i \<longrightarrow> infos st i = None) \<Longrightarrow>
    rng \<le> 254 \<Longrightarrow> ippool_create ap ai st index start rng cb = Some (st', r) \<Longrightarrow> pool_reach st'"
| newaddr: "pool_reach st \<Longrightarrow> (\<forall>i. ai = Some i \<longrightarrow> infos st i = None) \<Longrightarrow>
    ippool_newaddr ai st index address prefixlen = Some (st', cbs) \<Longrightarrow> pool_reach st'"
| deladdr: "pool_reach st \<Longrightarrow> prefixlen < 32 \<Longrightarrow> ippool_deladdr st index address prefixlen = Some st' \<Longrightarrow> pool_reach st'"
| ref: "pool_reach st \<Longrightarrow> ippool_ref st p = Some st' \<Longrightarrow> pool_reach st'"
| unref: "pool_reach st \<Longrightarrow> ippool_unref st pp = Some st' \<Longrightarrow> pool_reach st'"

lemma create_cases:
  assumes "ippool_create ap ai st index start rng cb = Some (st', r)"
  obtains (no) "st' = st" "r = None" | (yes) p i where "ap = Some p" "ai = Some i" "r = Some p"
  using assms by (auto simp: ippool_create_def Let_def split: if_splits bind_splits option.splits)

lemma pool_reach_inv: "pool_reach st \<Longrightarrow> pool_inv st"
proof (induction rule: pool_reach.induct)
  case init
  then show ?case
    using init_consts [of ippool_zero]
    by (simp add: pool_inv_def ippool_init_def ippool_zero_def links_ok_def infos_ok_def)
next
  case (create st ap ai rng index start cb st' r)
  from create.hyps(5) show ?case
  proof (cases rule: create_cases)
    case (yes p i)
    have fr: "pools st p = None" "infos st i = None" using create.hyps(2,3) yes by auto
    from create.hyps(5) [unfolded yes] show ?thesis by (rule create_ok [OF create.IH fr create.hyps(4)])
  qed (use create.IH in simp)
next
  case (newaddr st ai index address prefixlen st' cbs)
  have "case ai of None \<Rightarrow> True | Some i \<Rightarrow> infos st i = None" using newaddr.hyps(2) by (simp split: option.split)
  with newaddr.IH show ?case
    by (rule newaddr_ok [where index = index and address = address and prefixlen = prefixlen]) (use newaddr.hyps(3) in simp)
next
  case (deladdr st prefixlen index address st')
  from deladdr.IH deladdr.hyps(2) show ?case
    by (rule deladdr_ok [where index = index and address = address]) (use deladdr.hyps(3) in simp)
qed (use ref_ok unref_ok in blast)+

section \<open>Properties\<close>

text \<open>C37. The blocks are tried in one cycle that visits every block exactly once: the successor of the
  \<open>r\<close>-th block is the next one, after the last comes the first, and no two of the 69360 blocks
  192.168.k.0, 172.(16-31).k.0, 10.(0-254).k.0 (k below 255) are equal.\<close>

theorem next_block_enumerates:
  assumes "consts_ok st" "r < N_BLOCKS" "r' < N_BLOCKS"
  shows "next_block st (nth_block r) = nth_block ((r + 1) mod N_BLOCKS) \<and> (nth_block r = nth_block r' \<longleftrightarrow> r = r')"
  using next_block_nth [OF assms(1,2)] nth_block_inj [OF _ assms(2,3)] by blast

theorem next_block_enumerates_witness:
  "next_block (ippool_init ippool_zero) (nth_block 254) = nth_block 255 \<and> nth_block 254 \<noteq> nth_block 255"
  using next_block_enumerates [OF init_consts, of 254 255 ippool_zero] by simp

text \<open>C35. In every reachable state the list of blocks holds each allocated info once, infos and pools
  point to each other, no range is empty, an interface has one info per subnet, and the last
  block is one of the cycle.\<close>

theorem pool_reachable_invariant:
  assumes "pool_reach st"
  shows "pool_inv st"
  using assms by (rule pool_reach_inv)

theorem pool_reachable_invariant_witness:
  "\<exists>st'. ippool_deladdr (ippool_init ippool_zero) 3 ''10.0.0.1'' 24 = Some st' \<and> pool_inv st'"
proof -
  obtain st' where d: "ippool_deladdr (ippool_init ippool_zero) 3 ''10.0.0.1'' 24 = Some st'"
    by (rule deladdr_ok [OF pool_reach_inv [OF pool_reach.init], of 24 3 "''10.0.0.1''"]) simp_all
  have "(24 :: u8) < 32" by simp
  from pool_reach.deladdr [OF pool_reach.init this d] have "pool_reach st'" .
  from pool_reachable_invariant [OF this] d show ?thesis by blast
qed

text \<open>C38. Once a block has been given out the search for a free block ends, and it reports failure
  only if each of the 69360 blocks starts inside an allocated range.\<close>

theorem get_free_block_complete:
  assumes "pool_reach st" "last_block st \<noteq> 0"
  shows "\<exists>b. get_free_block st = Some b \<and> (b = 0 \<longleftrightarrow> (\<forall>r < N_BLOCKS. taken st (nth_block r))) \<and>
     (b \<noteq> 0 \<longrightarrow> \<not> taken st b \<and> (\<exists>r < N_BLOCKS. b = nth_block r))"
proof -
  have inv: "pool_inv st" by (rule pool_reach_inv [OF assms(1)])
  then obtain r0 where r0: "r0 < N_BLOCKS" "last_block st = nth_block r0" "consts_ok st"
    using assms(2) by (auto simp: pool_inv_def)
  show ?thesis
    by (rule get_free_block_cycle [OF pool_inv_heap [OF inv] r0(3,1,2)]) (use nth_block_pos in auto)
qed

text \<open>C39. Before the first block has been given out the end of the cycle is never recognised: if every
  block is taken by addresses of other interfaces, the search runs forever.\<close>

theorem get_free_block_diverges:
  assumes "pool_reach st" "last_block st = 0" "\<forall>r < N_BLOCKS. taken st (nth_block r)"
  shows "get_free_block st = None"
proof -
  have inv: "pool_inv st" by (rule pool_reach_inv [OF assms(1)])
  then have c: "consts_ok st" by (simp add: pool_inv_def)
  then have "get_free_block st = free_block_from st (nth_block 0)"
    using assms(2) by (simp add: get_free_block_def nth_block_0 consts_ok_def)
  then show ?thesis using free_block_diverges [OF pool_inv_heap [OF inv] c assms(2)] assms(3) by simp
qed

text \<open>Concrete runs for the witnesses.\<close>

definition ex_pools :: ippool_state where
  "ex_pools = ippool_init ippool_zero"

lemma ex_reach: "pool_reach ex_pools"
  unfolding ex_pools_def by (rule pool_reach.init)

lemma ex_pools_simps:
  "allocated_blocks ex_pools = []" "last_block ex_pools = 0" "infos ex_pools = Map.empty" "pools ex_pools = Map.empty"
  "block_16_bits ex_pools = 0xc0a80000" "subnet_mask_24 ex_pools = 0xffffff00"
  by (simp_all add: ex_pools_def ippool_init_def ippool_zero_def inet_addr_consts)

lemma ex_free_block: "get_free_block ex_pools = Some 0xc0a80000"
proof -
  have "heap_ok ex_pools" "\<not> taken ex_pools b" for b by (simp_all add: heap_ok_def taken_def ex_pools_simps)
  then show ?thesis using free_block_from_step by (simp add: get_free_block_def ex_pools_simps)
qed

lemma ex_pool_create:
  obtains st' where "ippool_create (Some 1) (Some 2) ex_pools 3 2 252 True = Some (st', Some 1)" "last_block st' = 0xc0a80000"
    "pool_reach st'"
proof -
  obtain st' where c: "ippool_create (Some 1) (Some 2) ex_pools 3 2 252 True = Some (st', Some 1)" "last_block st' = 0xc0a80000"
    by (simp add: ippool_create_def ex_free_block Let_def)
  from pool_reach.create [OF ex_reach _ _ _ c(1)] have "pool_reach st'" by (simp add: ex_pools_simps)
  with c show thesis by (rule that)
qed

theorem get_free_block_complete_witness:
  "\<exists>st b. pool_reach st \<and> last_block st = 0xc0a80000 \<and> get_free_block st = Some b"
proof -
  obtain st where st: "last_block st = 0xc0a80000" "pool_reach st" by (rule ex_pool_create)
  then have "last_block st \<noteq> 0" by simp
  from get_free_block_complete [OF st(2) this] st show ?thesis by blast
qed

text \<open>Interfaces with 192.168.0.0/16, 172.16.0.0/12 and 10.0.0.0/8 cover every block.\<close>

definition ex_full :: ippool_state where
  "ex_full = ex_pools\<lparr>allocated_blocks := [3, 2, 1],
     infos := [1 \<mapsto> \<lparr>ai_index = 5, ai_start = 0xc0a80000, ai_end = 0xc0a8ffff, use_count = 1, ai_pool = None\<rparr>,
               2 \<mapsto> \<lparr>ai_index = 6, ai_start = 0xac100000, ai_end = 0xac1fffff, use_count = 1, ai_pool = None\<rparr>,
               3 \<mapsto> \<lparr>ai_index = 7, ai_start = 0x0a000000, ai_end = 0x0affffff, use_count = 1, ai_pool = None\<rparr>]\<rparr>"

lemma inet_aton_consts:
  "inet_aton ''192.168.0.1'' = Some (htonl 0xc0a80001)" "inet_aton ''172.16.0.1'' = Some (htonl 0xac100001)"
  "inet_aton ''10.0.0.1'' = Some (htonl 0x0a000001)"
proof -
  have "inet_ntoa (htonl 0xc0a80001) = ''192.168.0.1''" "inet_ntoa (htonl 0xac100001) = ''172.16.0.1''"
    "inet_ntoa (htonl 0x0a000001) = ''10.0.0.1''"
    by (simp_all add: inet_ntoa_def dec_byte_def dec_char_def bswap32_def le32_of_def char_of_def bit_0)
  then show "inet_aton ''192.168.0.1'' = Some (htonl 0xc0a80001)" "inet_aton ''172.16.0.1'' = Some (htonl 0xac100001)"
    "inet_aton ''10.0.0.1'' = Some (htonl 0x0a000001)"
    using inet_aton_ntoa by metis+
qed

lemma ex_full_reach: "pool_reach ex_full"
proof -
  let ?i1 = "\<lparr>ai_index = 5, ai_start = 0xc0a80000, ai_end = 0xc0a8ffff, use_count = 1, ai_pool = None\<rparr>"
  let ?i2 = "\<lparr>ai_index = 6, ai_start = 0xac100000, ai_end = 0xac1fffff, use_count = 1, ai_pool = None\<rparr>"
  let ?i3 = "\<lparr>ai_index = 7, ai_start = 0x0a000000, ai_end = 0x0affffff, use_count = 1, ai_pool = None\<rparr>"
  let ?s1 = "ex_pools\<lparr>allocated_blocks := [1], infos := [1 \<mapsto> ?i1]\<rparr>"
  let ?s2 = "ex_pools\<lparr>allocated_blocks := [2, 1], infos := [1 \<mapsto> ?i1, 2 \<mapsto> ?i2]\<rparr>"
  have "ippool_newaddr (Some 1) ex_pools 5 ''192.168.0.1'' 16 = Some (?s1, [])"
    by (simp add: ippool_newaddr_def inet_aton_consts is_private_address_def lookup_info_def ex_pools_simps mask_of_def)
  then have 1: "pool_reach ?s1" by (rule pool_reach.newaddr [OF ex_reach, rotated]) (simp add: ex_pools_simps)
  have "ippool_newaddr (Some 2) ?s1 6 ''172.16.0.1'' 12 = Some (?s2, [])"
    by (simp add: ippool_newaddr_def inet_aton_consts is_private_address_def lookup_info_def mask_of_def)
  then have 2: "pool_reach ?s2" by (rule pool_reach.newaddr [OF 1, rotated]) simp
  have "ippool_newaddr (Some 3) ?s2 7 ''10.0.0.1'' 8 = Some (ex_full, [])"
    by (simp add: ippool_newaddr_def inet_aton_consts is_private_address_def lookup_info_def mask_of_def ex_full_def)
  then show ?thesis by (rule pool_reach.newaddr [OF 2, rotated]) simp
qed

lemma ex_full_taken: "r < N_BLOCKS \<Longrightarrow> taken ex_full (nth_block r)"
proof -
  assume r: "r < N_BLOCKS"
  let ?h = "upper (r div 255)"
  have q: "r div 255 < 272" using r by simp
  have "r mod 255 < 255" by simp
  then have m: "r mod 255 < 256" by linarith
  have u: "unat (nth_block r) = ?h * 65536 + r mod 255 * 256"
    using unat_B [of ?h "r mod 255"] upper_bounds [OF q] m by (simp add: nth_block_def)
  have "?h = 49320 \<or> (44048 \<le> ?h \<and> ?h \<le> 44063) \<or> (2560 \<le> ?h \<and> ?h \<le> 2814)"
    using q by (auto simp: upper_def)
  then have "(0xc0a80000 \<le> nth_block r \<and> nth_block r \<le> 0xc0a8ffff) \<or> (0xac100000 \<le> nth_block r \<and> nth_block r \<le> 0xac1fffff) \<or>
      (0x0a000000 \<le> nth_block r \<and> nth_block r \<le> 0x0affffff)"
    using m by (auto simp: word_le_nat_alt u)
  then show ?thesis by (auto simp: taken_def ex_full_def)
qed

theorem get_free_block_diverges_witness: "get_free_block ex_full = None"
  by (rule get_free_block_diverges [OF ex_full_reach]) (use ex_full_taken in \<open>simp_all add: ex_full_def ex_pools_simps\<close>)

text \<open>C36. A new pool gets a block of the private ranges whose first address no allocated range
  contains, and afterwards the block is taken. Its strings are the dotted form of
  the block's addresses: gateway .1, broadcast .255, and the start and end of the range, which both lie
  inside the block.\<close>

theorem created_pool:
  assumes "pool_reach st" "pools st p = None" "infos st i = None" "start \<le> 254" "rng \<le> 254"
    "ippool_create (Some p) (Some i) st index start rng cb = Some (st', Some q)"
  shows "\<exists>b r pool. r < N_BLOCKS \<and> b = nth_block r \<and> \<not> taken st b \<and> taken st' b \<and> pools st' q = Some pool \<and>
     inet_aton (gateway pool) = Some (htonl (b + 1)) \<and> inet_aton (broadcast pool) = Some (htonl (b + 255)) \<and>
     inet_aton (pl_start_ip pool) = Some (htonl (b + start)) \<and>
     inet_aton (pl_end_ip pool) = Some (htonl (b + start + (if rng = 0 then 1 else rng))) \<and>
     b \<le> b + start \<and> b + start < b + start + (if rng = 0 then 1 else rng) \<and>
     b + start + (if rng = 0 then 1 else rng) \<le> b + 255"
proof -
  have inv: "pool_inv st" by (rule pool_reach_inv [OF assms(1)])
  obtain b r where c: "b = nth_block r" "r < N_BLOCKS" "\<not> taken st b" "q = p" "start + rng \<le> 254"
    "st' = st\<lparr>last_block := b,
       infos := (infos st)(i \<mapsto> \<lparr>ai_index = index, ai_start = b, ai_end = b + rng, use_count = 0, ai_pool = Some p\<rparr>),
       pools := (pools st)(p \<mapsto> \<lparr>refcount = 1, pl_info = Some i, gateway = get_ip (b + 1), broadcast = get_ip (b + 255),
         pl_start_ip = get_ip (b + start), pl_end_ip = get_ip (b + start + (if rng = 0 then 1 else rng)),
         subnet_mask = get_ip 0xffffff00, collision_cb = cb\<rparr>),
       allocated_blocks := i # allocated_blocks st\<rparr>"
    by (rule create_ok [OF inv assms(2,3,5,6)])
  let ?r = "if rng = 0 then 1 else rng"
  have n: "unat start \<le> 254" "unat rng \<le> 254" "unat (start + rng) \<le> 254"
    using assms(4,5) c(5) by (simp_all add: word_le_nat_alt)
  then have s: "unat start + unat rng \<le> 254" by (simp add: unat_word_ariths)
  have z: "unat rng = 0 \<longleftrightarrow> rng = 0" by (simp add: unat_eq_0)
  then have r1: "unat ?r \<ge> 1" "unat start + unat ?r \<le> 255" using s n by auto
  have sum: "unat (start + ?r) = unat start + unat ?r" using r1 by (simp add: unat_word_ariths split: if_splits)
  note add = nth_block_add [OF c(2), folded c(1)]
  have a: "unat (b + start) = unat b + unat start" using add(2) [of start] n by simp
  have e: "unat (b + (start + ?r)) = unat b + (unat start + unat ?r)" using add(2) [of "start + ?r"] r1 sum by simp
  have f: "unat (b + 255) = unat b + 255" using add(2) [of 255] by simp
  have le: "b \<le> b + start" "b + start < b + start + ?r" "b + start + ?r \<le> b + 255"
    using a e f r1 unfolding word_le_nat_alt word_less_nat_alt add.assoc by linarith+
  have "b \<le> b + rng" using add(1) [of rng] n by simp
  then have "taken st' b" by (auto simp: taken_def c(6))
  then show ?thesis
    using c(1-4) le by (intro exI [of _ b] exI [of _ r] exI [of _ "the (pools st' q)"]) (simp add: c(6) get_ip_def)
qed

theorem created_pool_witness:
  "\<exists>st' pool. ippool_create (Some 1) (Some 2) ex_pools 3 2 252 True = Some (st', Some 1) \<and> pools st' 1 = Some pool \<and>
     inet_aton (gateway pool) \<noteq> None"
proof -
  obtain st' where c: "ippool_create (Some 1) (Some 2) ex_pools 3 2 252 True = Some (st', Some 1)" by (rule ex_pool_create)
  then show ?thesis
    using created_pool [OF ex_reach _ _ _ _ c] by (auto simp: ex_pools_simps)
qed

text \<open>C40. Removing an address undoes adding it: if the subnet was not known before, adding an address
  of it and deleting it again gives back the state before.\<close>

theorem newaddr_deladdr_roundtrip:
  assumes "pool_reach st" "infos st i = None" "prefixlen < 32" "inet_aton address = Some a" "is_private_address (ntohl a)"
    "lookup_info st index (ntohl a AND mask_of prefixlen) = Some None"
    "ippool_newaddr (Some i) st index address prefixlen = Some (st', cbs)"
  shows "ippool_deladdr st' index address prefixlen = Some st"
proof -
  have p: "\<not> 32 \<le> prefixlen" using assms(3) by simp
  let ?x = "\<lparr>ai_index = index, ai_start = ntohl a AND mask_of prefixlen,
      ai_end = ntohl a AND mask_of prefixlen OR NOT (mask_of prefixlen), use_count = 1, ai_pool = None\<rparr>"
  have st': "st' = st\<lparr>allocated_blocks := i # allocated_blocks st, infos := (infos st)(i \<mapsto> ?x)\<rparr>"
    using assms(7) p by (auto simp: ippool_newaddr_def assms(4-6) Let_def split: bind_splits)
  have l: "lookup_info st' index (ntohl a AND mask_of prefixlen) = Some (Some i)"
    by (simp add: lookup_info_def st')
  have "(infos st)(i := None) = infos st" using assms(2) by auto
  then show ?thesis using p l by (simp add: ippool_deladdr_def assms(4,5)) (simp add: st')
qed

theorem newaddr_deladdr_roundtrip_witness:
  "\<exists>st' cbs. ippool_newaddr (Some 1) ex_pools 5 ''192.168.0.1'' 16 = Some (st', cbs) \<and>
     ippool_deladdr st' 5 ''192.168.0.1'' 16 = Some ex_pools"
proof -
  obtain st' cbs where n: "ippool_newaddr (Some 1) ex_pools 5 ''192.168.0.1'' 16 = Some (st', cbs)"
    by (rule newaddr_ok [OF pool_reach_inv [OF ex_reach], of "Some 1" 5 "''192.168.0.1''" 16]) (auto simp: ex_pools_simps)
  then show ?thesis
    using newaddr_deladdr_roundtrip [OF ex_reach _ _ inet_aton_consts(1) _ _ n]
    by (simp add: is_private_address_def lookup_info_def ex_pools_simps)
qed

end
