(* ===== verification/DnsMessage.thy ===== *)
theory DnsMessage
  imports ConnBase "HOL-Library.Monad_Syntax"
begin

text \<open>
  DNS messages as \<^verbatim>\<open>src/dnsproxy.c\<close> reads and writes them: names and resource records, the parser of
  server replies (\<^verbatim>\<open>get_name\<close>, \<^verbatim>\<open>parse_rr\<close>, \<^verbatim>\<open>parse_response\<close>), the parser of client requests
  (\<^verbatim>\<open>parse_request\<close>), the writer of queries (\<^verbatim>\<open>append_query\<close>) and the rewriting of the time to
  live in a cached reply (\<^verbatim>\<open>update_cached_ttl\<close>).

  A message is the list of the bytes of the memory object it lies in; a pointer into it is an index, and
  a message length (\<open>max\<close>, \<open>len\<close>) may be smaller than the object, as the receive buffers are bigger than
  what was received. The outer \<open>option\<close> of every operation is \<open>None\<close> exactly when the C code reads or
  writes outside an object; error returns are negative numbers as in the source.
\<close>

section \<open>Constants and header fields\<close>

abbreviation "PROTO_TCP \<equiv> (6 :: int)"
abbreviation "PROTO_UDP \<equiv> (17 :: int)"
abbreviation "NS_CMPRSFLGS \<equiv> (0xc0 :: u8)"
abbreviation "NS_MAXDNAME \<equiv> (1025 :: nat)"
abbreviation "NS_MAXCDNAME \<equiv> (255 :: nat)"
abbreviation "NS_MAXLABEL \<equiv> (63 :: nat)"

definition protocol_offset :: "int \<Rightarrow> int" where
  "protocol_offset protocol =
     (if protocol = PROTO_UDP then 0 else if protocol = PROTO_TCP then 2 else - EINVAL)"

text \<open>
  \<^verbatim>\<open>struct domain_hdr\<close> on a little-endian host: id at 0, flag bytes at 2 (rd, tc, aa, opcode, qr from
  the low bit) and 3 (rcode, z, ra), the four counts at 4, 6, 8 and 10 in network byte order.
\<close>

definition be16_at :: "u8 list \<Rightarrow> nat \<Rightarrow> u16 option" where
  "be16_at m p = do { a \<leftarrow> byte_at m p; b \<leftarrow> byte_at m (p + 1); Some (be16_of a b) }"

definition hdr_qr :: "u8 \<Rightarrow> bool" where
  "hdr_qr b = bit b 7"

definition hdr_rcode :: "u8 \<Rightarrow> u8" where
  "hdr_rcode b = b AND 0x0f"

definition compressed :: "u8 \<Rightarrow> bool" where
  "compressed b \<longleftrightarrow> b AND NS_CMPRSFLGS = NS_CMPRSFLGS"

section \<open>Names\<close>

definition dns_name_length :: "u8 list \<Rightarrow> nat \<Rightarrow> nat option" where
  "dns_name_length m p = do {
     b \<leftarrow> byte_at m p;
     if compressed b then Some 2 else do { s \<leftarrow> cstr_at m p; Some (length s + 1) } }"

text \<open>
  The arguments of \<^verbatim>\<open>get_name\<close> that it writes through: the output buffer with the length written,
  the pointer behind the name (\<^verbatim>\<open>*end\<close>, \<open>None\<close> for NULL), and the name with its length.
\<close>

record name_out =
  out_buf :: "u8 list"
  output_len :: int
  name_end :: "nat option"
  dname :: "u8 list"
  name_len :: nat

definition mark_end :: "nat \<Rightarrow> name_out \<Rightarrow> name_out" where
  "mark_end p s = (if name_end s = None then s\<lparr>name_end := Some p\<rparr> else s)"

definition take_label :: "u8 list \<Rightarrow> nat \<Rightarrow> u8 \<Rightarrow> name_out \<Rightarrow> name_out option" where
  "take_label pkt p l s = do {
     nm \<leftarrow> put_at (name_len s) [l] (dname s);
     bs \<leftarrow> bytes_at pkt (p + 1) (unat l + 1);
     nm \<leftarrow> put_at (name_len s + 1) bs nm;
     out \<leftarrow> put_at 0 [NS_CMPRSFLGS, 0x0C] (out_buf s);
     Some (mark_end (p + (unat l + 1))
       (s\<lparr>dname := nm, name_len := name_len s + 1 + unat l, out_buf := out, output_len := 2\<rparr>)) }"

function get_name :: "nat \<Rightarrow> u8 list \<Rightarrow> nat \<Rightarrow> int \<Rightarrow> int \<Rightarrow> name_out \<Rightarrow> (name_out \<times> int) option"
  and get_name_loop :: "nat \<Rightarrow> u8 list \<Rightarrow> nat \<Rightarrow> int \<Rightarrow> int \<Rightarrow> name_out \<Rightarrow> (name_out \<times> int) option"
where
  "get_name counter pkt start mx output_max s =
     (if counter > 10 then Some (s, - EINVAL) else get_name_loop counter pkt start mx output_max s)"
| "get_name_loop counter pkt p mx output_max s =
     (case byte_at pkt p of
        None \<Rightarrow> None
      | Some b \<Rightarrow>
        if b = 0 then Some (s, 0)
        else if compressed b then
          (case byte_at pkt (p + 1) of
             None \<Rightarrow> None
           | Some lo \<Rightarrow>
             let offset = unat (b AND 0x3F) * 256 + unat lo in
             if int offset \<ge> mx then Some (s, - ENOBUFS)
             else get_name (counter + 1) pkt offset mx output_max (mark_end (p + 2) s))
        else if int (unat b) > mx then Some (s, - ENOBUFS)
        else if output_len s > output_max then Some (s, - ENOBUFS)
        else
          (case take_label pkt p b s of
             None \<Rightarrow> None
           | Some s' \<Rightarrow>
             if int (p + (unat b + 1)) \<ge> mx then Some (s', - ENOBUFS)
             else get_name_loop counter pkt (p + (unat b + 1)) mx output_max s'))"
  by pat_completeness auto

termination
  by (relation "measures [\<lambda>x. case x of Inl (c, _) \<Rightarrow> (if c > 10 then 0 else 12 - c) | Inr (c, _) \<Rightarrow> (if c > 10 then 1 else 12 - c),
        \<lambda>x. case x of Inl (c, pkt, _) \<Rightarrow> Suc (length pkt) | Inr (c, pkt, p, _) \<Rightarrow> length pkt - p]")
    (auto simp: mem_simps)

section \<open>Resource records\<close>

text \<open>The values \<^verbatim>\<open>parse_rr\<close> writes through its pointer arguments.\<close>

record rr_out =
  rr_type :: u16
  rr_class :: u16
  rr_ttl :: int
  rr_rdlen :: nat
  rr_end :: "nat option"
  rr_name :: "u8 list"
  rr_response :: "u8 list"
  rr_size :: nat

definition parse_rr :: "u8 list \<Rightarrow> nat \<Rightarrow> int \<Rightarrow> rr_out \<Rightarrow> (rr_out \<times> int) option" where
  "parse_rr buf start mx r = do {
     (o1, err) \<leftarrow> get_name 0 buf start mx (int (rr_size r))
       \<lparr>out_buf = rr_response r, output_len = 0, name_end = rr_end r, dname = rr_name r, name_len = 0\<rparr>;
     let r = r\<lparr>rr_response := out_buf o1, rr_end := name_end o1, rr_name := dname o1\<rparr>;
     if err < 0 then Some (r, err)
     else if nat (output_len o1) > rr_size r then Some (r, - ENOBUFS)
     else
       (case name_end o1 of
          None \<Rightarrow> Some (r, - EINVAL)
        | Some e \<Rightarrow> do {
            rr \<leftarrow> bytes_at buf e 10;
            let offset = nat (output_len o1);
            let ttl = sint (ntohl (le32_of (rr ! 4) (rr ! 5) (rr ! 6) (rr ! 7)));
            let rdlen = unat (be16_of (rr ! 8) (rr ! 9));
            let r = r\<lparr>rr_type := be16_of (rr ! 0) (rr ! 1), rr_class := be16_of (rr ! 2) (rr ! 3),
              rr_ttl := ttl, rr_rdlen := rdlen\<rparr>;
            if ttl < 0 then Some (r, - EINVAL)
            else do {
              rsp \<leftarrow> put_at offset rr (rr_response r);
              let r = r\<lparr>rr_response := rsp, rr_end := Some (e + 10)\<rparr>;
              if offset + 10 + rdlen > rr_size r then Some (r, - ENOBUFS)
              else do {
                rd \<leftarrow> bytes_at buf (e + 10) rdlen;
                rsp \<leftarrow> put_at (offset + 10) rd rsp;
                Some (r\<lparr>rr_response := rsp, rr_end := Some (e + 10 + rdlen),
                  rr_size := offset + 10 + rdlen\<rparr>, 0) } } }) }"

text \<open>
  \<^verbatim>\<open>strncmp (s, name, strlen s) == 0\<close> for a string \<open>s\<close> without zero byte and a name buffer at least
  as long: the buffer starts with \<open>s\<close>.
\<close>

definition strncmp_eq :: "u8 list \<Rightarrow> u8 list \<Rightarrow> bool" where
  "strncmp_eq s name \<longleftrightarrow> take (length s) name = s"

definition check_alias :: "u8 list list \<Rightarrow> u8 list \<Rightarrow> bool" where
  "check_alias aliases name \<longleftrightarrow> (\<exists>a \<in> set aliases. strncmp_eq a name)"

section \<open>Replies\<close>

text \<open>
  The variables of \<^verbatim>\<open>parse_response\<close>'s loop over the answers. The response buffer is the list of the
  bytes written so far (its length is \<^verbatim>\<open>*response_len\<close>).
\<close>

record parse_st =
  ps_ptr :: nat
  ps_name :: "u8 list"
  aliases :: "u8 list list"
  ps_err :: int
  ps_type :: u16
  ps_class :: u16
  ps_ttl :: int
  ps_response :: "u8 list"
  ps_answers :: u16

text \<open>One answer; the flag says that the loop is left (\<^verbatim>\<open>goto out\<close>).\<close>

definition parse_answer ::
  "u8 list \<Rightarrow> int \<Rightarrow> u8 list \<Rightarrow> u16 \<Rightarrow> u16 \<Rightarrow> nat \<Rightarrow> parse_st \<Rightarrow> (parse_st \<times> bool) option" where
  "parse_answer buf buflen question qtype qclass maxlen st = do {
     (r, ret) \<leftarrow> parse_rr buf (ps_ptr st) buflen
       \<lparr>rr_type = ps_type st, rr_class = ps_class st, rr_ttl = ps_ttl st, rr_rdlen = 0, rr_end = None,
        rr_name = ps_name st, rr_response = replicate NS_MAXCDNAME 0, rr_size = NS_MAXCDNAME - 1\<rparr>;
     let st = st\<lparr>ps_type := rr_type r, ps_class := rr_class r, ps_ttl := rr_ttl r, ps_name := rr_name r\<rparr>;
     if ret \<noteq> 0 then Some (st\<lparr>ps_err := ret\<rparr>, True)
     else do {
       nxt \<leftarrow> rr_end r;
       let skip = st\<lparr>ps_ptr := nxt\<rparr>;
       if rr_class r \<noteq> qclass then Some (skip, False)
       else if rr_type r = 5 \<and> strncmp_eq question (rr_name r) then do {
         (al, ret) \<leftarrow> get_name 0 buf (nxt - rr_rdlen r) buflen (int NS_MAXCDNAME - 1)
           \<lparr>out_buf = replicate NS_MAXCDNAME 0, output_len = 0, name_end = None, dname = rr_name r, name_len = 0\<rparr>;
         if ret \<noteq> 0 then Some (skip\<lparr>ps_name := dname al\<rparr>, False)
         else do {
           a \<leftarrow> cstr_at (dname al) 0;
           Some (skip\<lparr>ps_name := dname al, aliases := a # aliases st\<rparr>, False) } }
       else if rr_type r = qtype \<and>
         (check_alias (aliases st) (rr_name r) \<or> (aliases st = [] \<and> strncmp_eq question (rr_name r))) then
         if length (ps_response st) + rr_size r > maxlen then Some (st\<lparr>ps_err := - ENOBUFS\<rparr>, True)
         else Some (skip\<lparr>ps_response := ps_response st @ take (rr_size r) (rr_response r),
                ps_answers := ps_answers st + 1, ps_err := 0\<rparr>, False)
       else Some (skip, False) } }"

fun parse_answers ::
  "nat \<Rightarrow> u8 list \<Rightarrow> int \<Rightarrow> u8 list \<Rightarrow> u16 \<Rightarrow> u16 \<Rightarrow> nat \<Rightarrow> parse_st \<Rightarrow> parse_st option" where
  "parse_answers 0 buf buflen question qtype qclass maxlen st = Some st"
| "parse_answers (Suc n) buf buflen question qtype qclass maxlen st = do {
     (st, out) \<leftarrow> parse_answer buf buflen question qtype qclass maxlen st;
     if out then Some st else parse_answers n buf buflen question qtype qclass maxlen st }"

record parse_result =
  pr_question :: "u8 list"
  pr_type :: u16
  pr_class :: u16
  pr_ttl :: int
  pr_response :: "u8 list"
  pr_answers :: u16
  pr_err :: int

definition parse_response :: "u8 list \<Rightarrow> int \<Rightarrow> nat \<Rightarrow> nat \<Rightarrow> parse_result option" where
  "parse_response buf buflen qlen response_len = do {
     qdcount \<leftarrow> be16_at buf 4;
     ancount \<leftarrow> be16_at buf 6;
     let fail = \<lparr>pr_question = [], pr_type = 0, pr_class = 0, pr_ttl = 0, pr_response = [], pr_answers = 0,
       pr_err = - EINVAL\<rparr>;
     if buflen < 12 then Some fail
     else do {
       flags \<leftarrow> byte_at buf 2;
       if \<not> hdr_qr flags \<or> qdcount \<noteq> 1 then Some fail
       else do {
         question \<leftarrow> cstrn_at buf 12 qlen;
         let ptr = 12 + length question + 1;
         qtype \<leftarrow> be16_at buf ptr;
         if qtype \<noteq> 1 \<and> qtype \<noteq> 28 then Some (fail\<lparr>pr_question := question, pr_err := - ENOMSG\<rparr>)
         else do {
           qclass \<leftarrow> be16_at buf (ptr + 2);
           st \<leftarrow> parse_answers (unat ancount) buf buflen question qtype qclass response_len
             \<lparr>ps_ptr = ptr + 4, ps_name = replicate (NS_MAXDNAME + 1) 0, aliases = [], ps_err = - ENOMSG,
              ps_type = 0, ps_class = 0, ps_ttl = 0, ps_response = [], ps_answers = 0\<rparr>;
           Some \<lparr>pr_question = question, pr_type = ps_type st, pr_class = ps_class st, pr_ttl = ps_ttl st,
             pr_response = ps_response st, pr_answers = ps_answers st, pr_err = ps_err st\<rparr> } } } }"

definition reply_query_type :: "u8 list \<Rightarrow> int \<Rightarrow> int option" where
  "reply_query_type msg len =
     (if len - 12 < 0 then Some 0
      else do { l \<leftarrow> dns_name_length msg 12; t \<leftarrow> be16_at msg (12 + l); Some (uint t) })"

section \<open>The time to live of cached replies\<close>

definition be32_bytes :: "u32 \<Rightarrow> u8 list" where
  "be32_bytes w = [ucast (drop_bit 24 w), ucast (drop_bit 16 w), ucast (drop_bit 8 w), ucast w]"

function ttl_loop :: "u8 list \<Rightarrow> nat \<Rightarrow> int \<Rightarrow> int \<Rightarrow> u8 list option" where
  "ttl_loop buf c len new_ttl =
     (if len > 0 then
        (case dns_name_length buf c of
           None \<Rightarrow> None
         | Some l \<Rightarrow>
           if len - int l < 0 then Some buf
           else if len - int l - 4 < 0 then Some buf
           else
             (case put_at (c + l + 4) (be32_bytes (word_of_int new_ttl)) buf of
                None \<Rightarrow> None
              | Some buf' \<Rightarrow>
                if len - int l - 8 < 0 then Some buf'
                else
                  (case be16_at buf' (c + l + 8) of
                     None \<Rightarrow> None
                   | Some w \<Rightarrow>
                     ttl_loop buf' (c + l + 8 + (unat w + 2)) (len - int l - 8 - (uint w + 2)) new_ttl)))
      else Some buf)"
  by pat_completeness auto

termination
proof (relation "measure (\<lambda>(buf, c, len, t). nat len)", goal_cases)
  case (2 buf c len new_ttl l buf' w)
  have "- uint w - 10 < int l" using uint_ge_0 [of w] by linarith
  with 2 show ?case by simp
qed simp

definition update_cached_ttl :: "u8 list \<Rightarrow> nat \<Rightarrow> int \<Rightarrow> int \<Rightarrow> u8 list option" where
  "update_cached_ttl buf h len new_ttl = do {
     l \<leftarrow> dns_name_length buf (h + 12);
     ttl_loop buf (h + 12 + l + 4) (len - 12 - int l - 4) new_ttl }"

section \<open>Queries\<close>

text \<open>
  \<^verbatim>\<open>append_query\<close> writes the labels of a dotted name; \<^verbatim>\<open>strchr\<close> finds the next dot. The first
  component of the result is the buffer, the second the pointer behind what was written. A label longer
  than 255 characters wraps in its length byte.
\<close>

abbreviation "DOT \<equiv> (0x2e :: u8)"

function append_labels :: "u8 list \<Rightarrow> nat \<Rightarrow> u8 list \<Rightarrow> (u8 list \<times> nat) option" where
  "append_labels buf p query =
     (let label = takeWhile (\<lambda>c. c \<noteq> DOT) query; n = length label in
      if n = length query then
        if n = 0 then Some (buf, p)
        else
          (case put_at p (of_nat n # label) buf of None \<Rightarrow> None | Some buf' \<Rightarrow> Some (buf', p + n + 1))
      else
        (case put_at p (of_nat n # label) buf of
           None \<Rightarrow> None
         | Some buf' \<Rightarrow> append_labels buf' (p + n + 1) (drop (n + 1) query)))"
  by pat_completeness auto

termination
proof (relation "measure (\<lambda>(buf, p, query). length query)", goal_cases)
  case (2 buf p query x n b)
  then show ?case using length_takeWhile_le [of "\<lambda>c. c \<noteq> DOT" query] by simp
qed simp

definition append_query :: "u8 list \<Rightarrow> nat \<Rightarrow> u8 list option \<Rightarrow> u8 list option \<Rightarrow> (u8 list \<times> nat) option" where
  "append_query buf start query domain = do {
     (buf, p) \<leftarrow> (case query of None \<Rightarrow> Some (buf, start) | Some q \<Rightarrow> append_labels buf start q);
     (buf, p) \<leftarrow> (case domain of None \<Rightarrow> Some (buf, p) | Some d \<Rightarrow> append_labels buf p d);
     buf \<leftarrow> put_at p [0] buf;
     Some (buf, p + 1 - start) }"

section \<open>Requests\<close>

text \<open>
  \<^verbatim>\<open>parse_request\<close> turns the wire form of the question into a dotted name, appending to a buffer of
  \<open>size\<close> bytes with \<^verbatim>\<open>strncat\<close> and \<^verbatim>\<open>strcat\<close>; \<open>name\<close> below is the string in that buffer. The count of the
  remaining bytes is unsigned and wraps when a label is longer than what remains.
\<close>

definition strncat_dot :: "nat \<Rightarrow> u8 list \<Rightarrow> u8 list \<Rightarrow> u8 list option" where
  "strncat_dot sz name s = (if length name + length s + 2 \<le> sz then Some (name @ s @ [DOT]) else None)"

text \<open>The result of the loop: the name, the pointer behind the final zero byte if one was found, what remains,
  and the return value if the function returns from inside the loop.\<close>

function request_labels ::
  "u8 list \<Rightarrow> nat \<Rightarrow> nat \<Rightarrow> u32 \<Rightarrow> nat \<Rightarrow> u8 list \<Rightarrow> (u8 list \<times> nat option \<times> u32 \<times> int) option" where
  "request_labels buf sz ptr remain used name =
     (if remain > 0 then
        (case byte_at buf ptr of
           None \<Rightarrow> None
         | Some l \<Rightarrow>
           if l = 0 then Some (name, Some (ptr + 1), remain, 0)
           else if used + unat l + 1 > sz then Some (name, None, remain, - ENOBUFS)
           else
             (case cstrn_at buf (ptr + 1) (unat l) of
                None \<Rightarrow> None
              | Some s \<Rightarrow>
                (case strncat_dot sz name s of
                   None \<Rightarrow> None
                 | Some name' \<Rightarrow>
                   request_labels buf sz (ptr + unat l + 1) (remain - (ucast l + 1)) (used + unat l + 1) name')))
      else Some (name, None, remain, 0))"
  by pat_completeness auto

termination
  by (relation "measure (\<lambda>(buf, sz, ptr, remain, used, name). Suc sz - used)") auto

text \<open>\<open>char\<close> is signed: \<^verbatim>\<open>a << 8 | b\<close> of two of them, stored in an unsigned 16 bit integer.\<close>

definition char_pair :: "u8 \<Rightarrow> u8 \<Rightarrow> u16" where
  "char_pair a b = push_bit 8 (scast a) OR scast b"

definition bump_edns0 :: "u8 list \<Rightarrow> nat \<Rightarrow> u8 list option" where
  "bump_edns0 buf lst = do {
     z \<leftarrow> byte_at buf (lst + 4);
     if z \<noteq> 0 then Some buf
     else do {
       opt \<leftarrow> bytes_at buf (lst + 5) 2;
       if opt \<noteq> [0x00, 0x29] then Some buf
       else do {
         hi \<leftarrow> byte_at buf (lst + 7);
         lo \<leftarrow> byte_at buf (lst + 8);
         if char_pair hi lo < 0x1000 then put_at (lst + 7) [0x10, 0x00] buf else Some buf } } }"

definition parse_request :: "u8 list \<Rightarrow> nat \<Rightarrow> int \<Rightarrow> nat \<Rightarrow> (u8 list \<times> u8 list \<times> int) option" where
  "parse_request buf b len sz = do {
     qdcount \<leftarrow> be16_at buf (b + 4);
     arcount \<leftarrow> be16_at buf (b + 10);
     if len < 12 then Some (buf, [], - EINVAL)
     else do {
       flags \<leftarrow> byte_at buf (b + 2);
       if hdr_qr flags \<or> qdcount \<noteq> 1 then Some (buf, [], - EINVAL)
       else do {
         (name, last_label, remain, ret) \<leftarrow> request_labels buf sz (b + 12) (word_of_int (len - 12)) 0 [];
         if ret < 0 then Some (buf, name, ret)
         else
           (case last_label of
              Some lst \<Rightarrow>
                if arcount \<noteq> 0 \<and> remain \<ge> 9 then do { buf \<leftarrow> bump_edns0 buf lst; Some (buf, name, 0) }
                else Some (buf, name, 0)
            | None \<Rightarrow> Some (buf, name, 0)) } } }"

definition get_msg_len :: "u8 list \<Rightarrow> u16 option" where
  "get_msg_len buf = be16_at buf 0"

declare get_name.simps [simp del] get_name_loop.simps [simp del] ttl_loop.simps [simp del]
  append_labels.simps [simp del] request_labels.simps [simp del]

section \<open>What get_name computes\<close>

text \<open>
  \<open>name_at pkt mx d p ls\<close>: at \<open>p\<close> of the message stands the name with the labels \<open>ls\<close>, written with
  \<open>d\<close> compression pointers, none of them to an empty name, inside the first \<open>mx\<close> bytes.
\<close>

definition enc_name :: "u8 list list \<Rightarrow> u8 list" where
  "enc_name ls = concat (map (\<lambda>l. of_nat (length l) # l) ls)"

lemma enc_name_simps [simp]:
  "enc_name [] = []" "enc_name (l # ls) = of_nat (length l) # l @ enc_name ls"
  by (simp_all add: enc_name_def)

definition ptr_offset :: "u8 \<Rightarrow> u8 \<Rightarrow> nat" where
  "ptr_offset b lo = unat (b AND 0x3F) * 256 + unat lo"

inductive name_at :: "u8 list \<Rightarrow> int \<Rightarrow> nat \<Rightarrow> nat \<Rightarrow> u8 list list \<Rightarrow> bool" for pkt mx where
  root: "byte_at pkt p = Some 0 \<Longrightarrow> name_at pkt mx 0 p []"
| label: "\<lbrakk>byte_at pkt p = Some l; l \<noteq> 0; \<not> compressed l; bytes_at pkt (p + 1) (unat l) = Some lab;
    int (p + (unat l + 1)) < mx; name_at pkt mx d (p + (unat l + 1)) ls\<rbrakk> \<Longrightarrow> name_at pkt mx d p (lab # ls)"
| pointer: "\<lbrakk>byte_at pkt p = Some b; compressed b; byte_at pkt (p + 1) = Some lo; int (ptr_offset b lo) < mx;
    name_at pkt mx d (ptr_offset b lo) ls; ls \<noteq> []\<rbrakk> \<Longrightarrow> name_at pkt mx (Suc d) p ls"

inductive_cases name_at_Cons: "name_at pkt mx d p (l # ls)"

lemma compressed_0 [simp]: "\<not> compressed 0"
  by (simp add: compressed_def)

lemma bytes_at_length: "bytes_at m p n = Some bs \<Longrightarrow> length bs = n"
  by (auto simp: bytes_at_def split: if_splits)

lemma bytes_at_Suc:
  "bytes_at m p n = Some bs \<Longrightarrow> byte_at m (p + n) = Some b \<Longrightarrow> bytes_at m p (n + 1) = Some (bs @ [b])"
  by (auto simp: bytes_at_def mem_simps take_Suc_conv_app_nth split: if_splits)

lemma name_at_first: "name_at pkt mx d p ls \<Longrightarrow> \<exists>b. byte_at pkt p = Some b \<and> (d = 0 \<and> ls = [] \<longrightarrow> b = 0)"
  by (induction rule: name_at.induct) auto

text \<open>
  The state after a name: its bytes stand in the name buffer, followed by a zero byte; the output is a
  pointer to the question.
\<close>

definition name_done :: "u8 list list \<Rightarrow> nat \<Rightarrow> name_out \<Rightarrow> name_out \<Rightarrow> bool" where
  "name_done ls z s s' \<longleftrightarrow>
     length (dname s') = length (dname s) \<and> length (out_buf s') = length (out_buf s) \<and>
     name_len s' = name_len s + length (enc_name ls) \<and>
     take (name_len s') (dname s') = take (name_len s) (dname s) @ enc_name ls \<and>
     (ls \<noteq> [] \<longrightarrow> dname s' ! name_len s' = 0 \<and> out_buf s' = mem_write 0 [NS_CMPRSFLGS, 0x0C] (out_buf s) \<and>
        output_len s' = 2) \<and>
     (name_end s \<noteq> None \<longrightarrow> name_end s' = name_end s) \<and>
     (name_end s = None \<longrightarrow> ls \<noteq> [] \<longrightarrow> name_end s' = Some z) \<and>
     (ls = [] \<longrightarrow> s' = s)"

text \<open>The value \<^verbatim>\<open>get_name\<close> gives to \<^verbatim>\<open>*end\<close>: behind the first label or the first pointer.\<close>

definition first_end :: "u8 list \<Rightarrow> nat \<Rightarrow> nat" where
  "first_end pkt p = (if compressed (pkt ! p) then p + 2 else p + (unat (pkt ! p) + 1))"

lemma mem_write_take: "p + length bs \<le> length m \<Longrightarrow> take (p + length bs) (mem_write p bs m) = take p m @ bs"
  by (simp add: mem_write_def)

lemma mem_write_app: "p + length as + length bs \<le> length m \<Longrightarrow>
  mem_write (p + length as) bs (mem_write p as m) = mem_write p (as @ bs) m"
  by (simp add: mem_write_def ac_simps)

lemma mark_end_sel [simp]:
  "dname (mark_end p s) = dname s" "out_buf (mark_end p s) = out_buf s" "name_len (mark_end p s) = name_len s"
  "output_len (mark_end p s) = output_len s"
  "name_end (mark_end p s) = (if name_end s = None then Some p else name_end s)"
  by (simp_all add: mark_end_def)

lemma take_label_fits:
  assumes "byte_at pkt p = Some l" "bytes_at pkt (p + 1) (unat l) = Some lab" "byte_at pkt (p + (unat l + 1)) = Some z"
    and "name_len s + unat l + 2 \<le> length (dname s)" "2 \<le> length (out_buf s)"
  shows "take_label pkt p l s = Some (mark_end (p + (unat l + 1))
      (s\<lparr>dname := mem_write (name_len s) (l # lab @ [z]) (dname s), name_len := name_len s + 1 + unat l,
         out_buf := mem_write 0 [NS_CMPRSFLGS, 0x0C] (out_buf s), output_len := 2\<rparr>))"
proof -
  have bs: "bytes_at pkt (p + 1) (unat l + 1) = Some (lab @ [z])"
    by (rule bytes_at_Suc [OF assms(2)]) (use assms(3) in \<open>simp add: ac_simps\<close>)
  have len: "length lab = unat l" by (rule bytes_at_length [OF assms(2)])
  show ?thesis
    using bs assms(4,5) len mem_write_app [of "name_len s" "[l]" "lab @ [z]" "dname s"]
    by (simp add: take_label_def put_at_def)
qed

lemma take_label_overflow:
  assumes "length (dname s) < name_len s + unat l + 2"
  shows "take_label pkt p l s = None"
  using assms by (auto simp: take_label_def put_at_def bytes_at_def split: bind_splits)

lemma take_label_Some:
  assumes "take_label pkt p l s = Some s'"
  shows "name_len s' = name_len s + unat l + 1" "length (dname s') = length (dname s)"
    "name_len s + unat l + 2 \<le> length (dname s)" "output_len s' = 2"
  using assms by (auto simp: take_label_def put_at_def mark_end_def bytes_at_def Let_def split: bind_splits if_splits)

lemma get_name_loop_name:
  assumes "name_at pkt mx d p ls" "c + d \<le> 10" "name_len s + length (enc_name ls) + 1 \<le> length (dname s)"
    and "2 \<le> length (out_buf s)" "output_len s \<le> omax" "2 \<le> omax"
  shows "\<exists>s'. get_name_loop c pkt p mx omax s = Some (s', 0) \<and> name_done ls (first_end pkt p) s s'"
  using assms
proof (induction arbitrary: c s rule: name_at.induct)
  case (root p)
  then show ?case by (simp add: get_name_loop.simps name_done_def)
next
  case (label p l lab d ls)
  let ?q = "p + (unat l + 1)"
  obtain z where z: "byte_at pkt ?q = Some z" "ls = [] \<Longrightarrow> z = 0"
    using label.hyps(6) by (cases rule: name_at.cases) auto
  have len: "length lab = unat l" by (rule bytes_at_length [OF label.hyps(4)])
  let ?s1 = "mark_end ?q (s\<lparr>dname := mem_write (name_len s) (l # lab @ [z]) (dname s), name_len := name_len s + 1 + unat l,
         out_buf := mem_write 0 [NS_CMPRSFLGS, 0x0C] (out_buf s), output_len := 2\<rparr>)"
  have fits: "name_len s + unat l + 2 \<le> length (dname s)" using label.prems(2) len by simp
  have t: "take_label pkt p l s = Some ?s1"
    by (rule take_label_fits [OF label.hyps(1,4) z(1) fits label.prems(3)])
  have s1: "length (dname ?s1) = length (dname s)" "name_len ?s1 = name_len s + 1 + unat l" "output_len ?s1 = 2"
    "length (out_buf ?s1) = length (out_buf s)" "take (name_len ?s1) (dname ?s1) = take (name_len s) (dname s) @ l # lab"
    "dname ?s1 ! name_len ?s1 = z" "out_buf ?s1 = mem_write 0 [NS_CMPRSFLGS, 0x0C] (out_buf s)"
    using fits label.prems(3) len by (auto simp: mark_end_def mem_write_def nth_append)
  have e1: "name_end ?s1 = (if name_end s = None then Some ?q else name_end s)" by (simp add: mark_end_def)
  have "\<exists>s'. get_name_loop c pkt ?q mx omax ?s1 = Some (s', 0) \<and> name_done ls (first_end pkt ?q) ?s1 s'"
    by (rule label.IH) (use label.prems len in \<open>simp_all only: s1, simp_all\<close>)
  then obtain s' where s': "get_name_loop c pkt ?q mx omax ?s1 = Some (s', 0)" "name_done ls (first_end pkt ?q) ?s1 s'"
    by blast
  have "get_name_loop c pkt p mx omax s = Some (s', 0)"
    using label.hyps(1-3,5) label.prems(4) t s'(1) by (simp add: get_name_loop.simps [of c pkt p])
  moreover have "first_end pkt p = ?q" using label.hyps(1,3) by (simp add: first_end_def mem_simps)
  moreover have "mem_write 0 [NS_CMPRSFLGS, 0x0C] (mem_write 0 [NS_CMPRSFLGS, 0x0C] (out_buf s)) =
      mem_write 0 [NS_CMPRSFLGS, 0x0C] (out_buf s)" by (simp add: mem_write_def)
  ultimately show ?case
    using s'(2) s1 e1 z(2) len unfolding name_done_def by (cases "ls = []") (auto split: if_splits)
next
  case (pointer p b lo d ls)
  let ?s1 = "mark_end (p + 2) s"
  have "\<exists>s'. get_name_loop (c + 1) pkt (ptr_offset b lo) mx omax ?s1 = Some (s', 0) \<and>
      name_done ls (first_end pkt (ptr_offset b lo)) ?s1 s'"
    by (rule pointer.IH) (use pointer.prems in simp_all)
  then obtain s' where s': "get_name_loop (c + 1) pkt (ptr_offset b lo) mx omax ?s1 = Some (s', 0)"
    "name_done ls (first_end pkt (ptr_offset b lo)) ?s1 s'" by blast
  have "b \<noteq> 0" using pointer.hyps(2) by auto
  then have "get_name_loop c pkt p mx omax s = Some (s', 0)"
    using pointer.hyps(1-4) pointer.prems(1) s'(1)
    by (simp add: get_name_loop.simps [of c pkt p] get_name.simps Let_def ptr_offset_def)
  moreover have "first_end pkt p = p + 2" using pointer.hyps(1,2) by (simp add: first_end_def mem_simps)
  ultimately show ?case
    using s'(2) pointer.hyps(6) unfolding name_done_def by (auto split: if_splits)
qed

lemma get_name_loop_overflow:
  assumes "name_at pkt mx d p ls" "c + d \<le> 10" "ls \<noteq> []" "length (dname s) < name_len s + length (enc_name ls) + 1"
    and "output_len s \<le> omax" "2 \<le> omax"
  shows "get_name_loop c pkt p mx omax s = None"
  using assms
proof (induction arbitrary: c s rule: name_at.induct)
  case (root p)
  then show ?case by simp
next
  case (label p l lab d ls)
  have len: "length lab = unat l" by (rule bytes_at_length [OF label.hyps(4)])
  show ?case
  proof (cases "take_label pkt p l s")
    case None
    then show ?thesis using label.hyps label.prems by (simp add: get_name_loop.simps [of c pkt p])
  next
    case (Some s1)
    note t = take_label_Some [OF Some]
    have "ls \<noteq> []" using label.prems(3) t(3) len by auto
    then have "get_name_loop c pkt (p + (unat l + 1)) mx omax s1 = None"
      by (rule label.IH [OF label.prems(1)]) (use label.prems t len in simp_all)
    then show ?thesis using label.hyps label.prems Some by (simp add: get_name_loop.simps [of c pkt p])
  qed
next
  case (pointer p b lo d ls)
  have "get_name_loop (c + 1) pkt (ptr_offset b lo) mx omax (mark_end (p + 2) s) = None"
    by (rule pointer.IH) (use pointer.prems in simp_all)
  moreover have "b \<noteq> 0" using pointer.hyps(2) by auto
  ultimately show ?case
    using pointer.hyps pointer.prems
    by (simp add: get_name_loop.simps [of c pkt p] get_name.simps Let_def ptr_offset_def)
qed

section \<open>What parse_response computes\<close>

text \<open>
  An answer of a reply: the two bytes of the compression pointer that stands for its owner name, type, class,
  time to live and data. \<open>an_owner\<close> are the labels the pointer leads to, \<open>an_target\<close> for a CNAME record
  the labels of its data; they are not encoded but constrained by \<open>answer_at\<close>.
\<close>

record answer =
  an_hi :: u8
  an_lo :: u8
  an_type :: u16
  an_class :: u16
  an_ttl :: u32
  an_rdata :: "u8 list"
  an_owner :: "u8 list list"
  an_target :: "u8 list list"

definition rr_fixed :: "answer \<Rightarrow> u8 list" where
  "rr_fixed a = be16_bytes (an_type a) @ be16_bytes (an_class a) @ be32_bytes (an_ttl a) @ be16_bytes (of_nat (length (an_rdata a)))"

definition enc_answer :: "answer \<Rightarrow> u8 list" where
  "enc_answer a = [an_hi a, an_lo a] @ rr_fixed a @ an_rdata a"

definition cached_rr :: "answer \<Rightarrow> u8 list" where
  "cached_rr a = [NS_CMPRSFLGS, 0x0C] @ rr_fixed a @ an_rdata a"

lemma length_be32_bytes [simp]: "length (be32_bytes w) = 4"
  by (simp add: be32_bytes_def)

lemma length_rr [simp]:
  "length (rr_fixed a) = 10" "length (enc_answer a) = 12 + length (an_rdata a)"
  "length (cached_rr a) = 12 + length (an_rdata a)"
  by (simp_all add: rr_fixed_def enc_answer_def cached_rr_def)

lemma rr_fixed_fields:
  assumes "length (an_rdata a) < 65536"
  shows "be16_of (rr_fixed a ! 0) (rr_fixed a ! 1) = an_type a" "be16_of (rr_fixed a ! 2) (rr_fixed a ! 3) = an_class a"
    "ntohl (le32_of (rr_fixed a ! 4) (rr_fixed a ! 5) (rr_fixed a ! 6) (rr_fixed a ! 7)) = an_ttl a"
    "be16_of (rr_fixed a ! 8) (rr_fixed a ! 9) = of_nat (length (an_rdata a))"
  by (simp_all add: rr_fixed_def be16_bytes_def be32_bytes_def bo_simps bswap32_def)

text \<open>The owner of the answer at \<open>p\<close> is a name of the message, and short enough.\<close>

definition good_name :: "u8 list list \<Rightarrow> bool" where
  "good_name ls \<longleftrightarrow> ls \<noteq> [] \<and> length (enc_name ls) \<le> NS_MAXDNAME \<and> 0 \<notin> set (enc_name ls)"

definition owner_ok :: "u8 list \<Rightarrow> int \<Rightarrow> answer \<Rightarrow> bool" where
  "owner_ok buf mx a \<longleftrightarrow> compressed (an_hi a) \<and> int (ptr_offset (an_hi a) (an_lo a)) < mx \<and> good_name (an_owner a) \<and>
     (\<exists>d \<le> 9. name_at buf mx d (ptr_offset (an_hi a) (an_lo a)) (an_owner a)) \<and>
     length (an_rdata a) \<le> 242 \<and> an_ttl a < 0x80000000"

text \<open>A name buffer that holds a name.\<close>

definition holds_name :: "u8 list \<Rightarrow> u8 list list \<Rightarrow> bool" where
  "holds_name nm ls \<longleftrightarrow> length nm = NS_MAXDNAME + 1 \<and> take (length (enc_name ls)) nm = enc_name ls \<and>
     nm ! length (enc_name ls) = 0"

lemma sint_ttl: "t < 0x80000000 \<Longrightarrow> sint (t :: u32) = uint t"
proof -
  assume "t < 0x80000000"
  then have "uint t < 2 ^ 31" by (simp add: word_less_def)
  moreover have "- (2 ^ 31) \<le> uint t" by (rule order_trans [OF _ uint_ge_0]) simp
  ultimately show ?thesis by (simp add: sint_uint signed_take_bit_int_eq_self_iff)
qed

lemma bytes_at_mid: "length xs = p \<Longrightarrow> length ys = n \<Longrightarrow> bytes_at (xs @ ys @ zs) p n = Some ys"
  by (auto simp: bytes_at_def)

lemma get_name_good:
  assumes "name_at buf mx d p ls" "d \<le> 10" "good_name ls" "length nm = NS_MAXDNAME + 1"
    and "length out = NS_MAXCDNAME" "2 \<le> omax"
  shows "\<exists>s. get_name 0 buf p mx omax \<lparr>out_buf = out, output_len = 0, name_end = None, dname = nm, name_len = 0\<rparr> =
      Some (s, 0) \<and> holds_name (dname s) ls \<and> out_buf s = mem_write 0 [NS_CMPRSFLGS, 0x0C] out \<and> output_len s = 2 \<and>
      name_end s = Some (first_end buf p)"
proof -
  let ?s = "\<lparr>out_buf = out, output_len = 0, name_end = None, dname = nm, name_len = 0\<rparr>"
  have "\<exists>s'. get_name_loop 0 buf p mx omax ?s = Some (s', 0) \<and> name_done ls (first_end buf p) ?s s'"
    by (rule get_name_loop_name [OF assms(1)]) (use assms in \<open>simp_all add: good_name_def\<close>)
  then show ?thesis
    using assms by (auto simp: get_name.simps name_done_def holds_name_def good_name_def)
qed

lemma parse_rr_answer:
  assumes buf: "buf = pre @ enc_answer a @ rest" and o: "owner_ok buf mx a"
    and r: "rr_end r = None" "length (rr_name r) = NS_MAXDNAME + 1" "rr_response r = replicate NS_MAXCDNAME 0"
      "rr_size r = NS_MAXCDNAME - 1"
  shows "\<exists>r'. parse_rr buf (length pre) mx r = Some (r', 0) \<and> rr_type r' = an_type a \<and> rr_class r' = an_class a \<and>
     rr_ttl r' = uint (an_ttl a) \<and> rr_rdlen r' = length (an_rdata a) \<and>
     rr_end r' = Some (length pre + length (enc_answer a)) \<and> holds_name (rr_name r') (an_owner a) \<and>
     rr_size r' = length (cached_rr a) \<and> take (rr_size r') (rr_response r') = cached_rr a"
proof -
  obtain d where d: "d \<le> 9" "name_at buf mx d (ptr_offset (an_hi a) (an_lo a)) (an_owner a)"
    using o by (auto simp: owner_ok_def)
  have g: "good_name (an_owner a)" and c: "compressed (an_hi a)" and rd: "length (an_rdata a) \<le> 242"
    and t: "an_ttl a < 0x80000000" and lim: "int (ptr_offset (an_hi a) (an_lo a)) < mx"
    using o by (simp_all add: owner_ok_def)
  have b: "byte_at buf (length pre) = Some (an_hi a)" "byte_at buf (length pre + 1) = Some (an_lo a)"
    by (simp_all add: buf enc_answer_def byte_at_def nth_append)
  have "name_at buf mx (Suc d) (length pre) (an_owner a)"
    by (rule name_at.pointer [OF b(1) c b(2) lim d(2)]) (use g in \<open>simp add: good_name_def\<close>)
  from get_name_good [OF this _ g r(2), of "rr_response r" "int (rr_size r)"] d(1) r(3,4)
  obtain s where s: "get_name 0 buf (length pre) mx (int (rr_size r))
      \<lparr>out_buf = rr_response r, output_len = 0, name_end = rr_end r, dname = rr_name r, name_len = 0\<rparr> = Some (s, 0)"
    "holds_name (dname s) (an_owner a)" "out_buf s = mem_write 0 [NS_CMPRSFLGS, 0x0C] (rr_response r)" "output_len s = 2"
    "name_end s = Some (first_end buf (length pre))"
    unfolding r(1) by auto
  define e where "e = length pre + 2"
  have fe: "first_end buf (length pre) = e" using b(1) c by (simp add: first_end_def mem_simps e_def)
  have f: "bytes_at buf e 10 = Some (rr_fixed a)"
    using bytes_at_mid [of "pre @ [an_hi a, an_lo a]" "length pre + 2" "rr_fixed a" 10 "an_rdata a @ rest"]
    by (simp add: buf enc_answer_def e_def)
  have g2: "bytes_at buf (e + 10) (length (an_rdata a)) = Some (an_rdata a)"
    using bytes_at_mid [of "pre @ [an_hi a, an_lo a] @ rr_fixed a" "length pre + 2 + 10" "an_rdata a" _ rest]
    by (simp add: buf enc_answer_def e_def)
  have n: "unat (of_nat (length (an_rdata a)) :: u16) = length (an_rdata a)" using rd by (simp add: unat_of_nat_u16)
  have fx: "be16_of (rr_fixed a ! 0) (rr_fixed a ! Suc 0) = an_type a" "be16_of (rr_fixed a ! 2) (rr_fixed a ! 3) = an_class a"
    "ntohl (le32_of (rr_fixed a ! 4) (rr_fixed a ! 5) (rr_fixed a ! 6) (rr_fixed a ! 7)) = an_ttl a"
    "be16_of (rr_fixed a ! 8) (rr_fixed a ! 9) = of_nat (length (an_rdata a))"
    using rr_fixed_fields [of a] rd by simp_all
  have tt: "sint (an_ttl a) = uint (an_ttl a)" "\<not> uint (an_ttl a) < 0" using sint_ttl [OF t] by simp_all
  have w: "mem_write 12 (an_rdata a) (mem_write 2 (rr_fixed a) (mem_write 0 [NS_CMPRSFLGS, 0x0C] (replicate NS_MAXCDNAME 0)))
     = mem_write 0 (cached_rr a) (replicate NS_MAXCDNAME 0)"
    using rd mem_write_app [of 0 "[NS_CMPRSFLGS, 0x0C]" "rr_fixed a" "replicate NS_MAXCDNAME 0"]
      mem_write_app [of 0 "[NS_CMPRSFLGS, 0x0C] @ rr_fixed a" "an_rdata a" "replicate NS_MAXCDNAME 0"]
    by (simp add: cached_rr_def numeral_2_eq_2)
  have tk: "take (length (cached_rr a)) (mem_write 0 (cached_rr a) (replicate NS_MAXCDNAME 0)) = cached_rr a"
    by (simp add: mem_write_def)
  show ?thesis
    using rd s(2) tk unfolding parse_rr_def s(1)
    by (simp add: s(3-5) fe f g2 fx n tt put_at_def r(3,4) w) (simp add: e_def Let_def)
qed

text \<open>
  The records \<^verbatim>\<open>parse_response\<close> keeps: those of the question's class and type whose owner starts with the
  question, or, once an alias of the question has been seen, with one of the aliases.
\<close>

definition matches :: "u8 list \<Rightarrow> u8 list list \<Rightarrow> bool" where
  "matches q ls \<longleftrightarrow> take (length q) (enc_name ls) = q"

definition is_alias :: "u8 list \<Rightarrow> u16 \<Rightarrow> answer \<Rightarrow> bool" where
  "is_alias q c a \<longleftrightarrow> an_class a = c \<and> an_type a = 5 \<and> matches q (an_owner a)"

definition is_hit :: "u8 list \<Rightarrow> u16 \<Rightarrow> u16 \<Rightarrow> u8 list list \<Rightarrow> answer \<Rightarrow> bool" where
  "is_hit q t c al a \<longleftrightarrow> an_class a = c \<and> \<not> is_alias q c a \<and> an_type a = t \<and>
     ((\<exists>x \<in> set al. matches x (an_owner a)) \<or> (al = [] \<and> matches q (an_owner a)))"

fun select :: "u8 list \<Rightarrow> u16 \<Rightarrow> u16 \<Rightarrow> u8 list list \<Rightarrow> answer list \<Rightarrow> answer list" where
  "select q t c al [] = []"
| "select q t c al (a # as) =
     (if is_alias q c a then select q t c (enc_name (an_target a) # al) as
      else if is_hit q t c al a then a # select q t c al as
      else select q t c al as)"

definition enc_answers :: "answer list \<Rightarrow> u8 list" where
  "enc_answers as = concat (map enc_answer as)"

definition cached_rrs :: "answer list \<Rightarrow> u8 list" where
  "cached_rrs as = concat (map cached_rr as)"

lemma enc_answers_simps [simp]:
  "enc_answers [] = []" "enc_answers (a # as) = enc_answer a @ enc_answers as"
  "cached_rrs [] = []" "cached_rrs (a # as) = cached_rr a @ cached_rrs as"
  by (simp_all add: enc_answers_def cached_rrs_def)

definition target_ok :: "u8 list \<Rightarrow> int \<Rightarrow> nat \<Rightarrow> answer \<Rightarrow> bool" where
  "target_ok buf mx p a \<longleftrightarrow> good_name (an_target a) \<and> (\<exists>d \<le> 10. name_at buf mx d (p + 12) (an_target a))"

fun answers_ok :: "u8 list \<Rightarrow> int \<Rightarrow> u8 list \<Rightarrow> u16 \<Rightarrow> nat \<Rightarrow> answer list \<Rightarrow> bool" where
  "answers_ok buf mx q c p [] \<longleftrightarrow> True"
| "answers_ok buf mx q c p (a # as) \<longleftrightarrow>
     owner_ok buf mx a \<and> (is_alias q c a \<longrightarrow> target_ok buf mx p a) \<and> answers_ok buf mx q c (p + length (enc_answer a)) as"

lemma strncmp_holds:
  assumes "holds_name nm ls" "0 \<notin> set q"
  shows "strncmp_eq q nm \<longleftrightarrow> matches q ls"
proof (cases "length q \<le> length (enc_name ls)")
  case True
  then have "take (length q) nm = take (length q) (take (length (enc_name ls)) nm)" by (simp add: min_absorb1)
  also have "\<dots> = take (length q) (enc_name ls)" using assms(1) by (simp add: holds_name_def)
  finally show ?thesis by (simp add: strncmp_eq_def matches_def)
next
  case False
  let ?n = "length (enc_name ls)"
  have "\<not> strncmp_eq q nm"
  proof
    assume "strncmp_eq q nm"
    then have "q ! ?n = nm ! ?n" using False unfolding strncmp_eq_def by (metis not_le nth_take)
    then have "q ! ?n = 0" using assms(1) by (simp add: holds_name_def)
    then show False using assms(2) False by (metis not_le nth_mem)
  qed
  moreover have "\<not> matches q ls" using False unfolding matches_def by (metis length_take min.cobounded1)
  ultimately show ?thesis by simp
qed

lemma holds_cstr: "holds_name nm ls \<Longrightarrow> good_name ls \<Longrightarrow> cstr_at nm 0 = Some (enc_name ls)"
proof -
  assume h: "holds_name nm ls" "good_name ls"
  let ?n = "length (enc_name ls)"
  have "?n < length nm" using h by (simp add: holds_name_def good_name_def)
  then have "nm = enc_name ls @ 0 # drop (Suc ?n) nm"
    using h(1) id_take_nth_drop [of ?n nm] by (simp add: holds_name_def)
  then show ?thesis using h(2) cstr_at_0 [of "enc_name ls"] by (metis good_name_def)
qed

text \<open>One round of the loop on a well-formed answer.\<close>

definition abs_answer :: "u8 list \<Rightarrow> u16 \<Rightarrow> u16 \<Rightarrow> nat \<Rightarrow> answer \<Rightarrow> u8 list \<Rightarrow> parse_st \<Rightarrow> parse_st \<times> bool" where
  "abs_answer q t c maxlen a nm st =
     (let st = st\<lparr>ps_type := an_type a, ps_class := an_class a, ps_ttl := uint (an_ttl a), ps_name := nm\<rparr>;
          skip = st\<lparr>ps_ptr := ps_ptr st + length (enc_answer a)\<rparr> in
      if is_alias q c a then (skip\<lparr>aliases := enc_name (an_target a) # aliases st\<rparr>, False)
      else if is_hit q t c (aliases st) a then
        if length (ps_response st) + length (cached_rr a) > maxlen then (st\<lparr>ps_err := - ENOBUFS\<rparr>, True)
        else (skip\<lparr>ps_response := ps_response st @ cached_rr a, ps_answers := ps_answers st + 1, ps_err := 0\<rparr>, False)
      else (skip, False))"

lemma parse_answer_ok:
  assumes buf: "buf = pre @ enc_answer a @ rest" and o: "owner_ok buf mx a"
    and tg: "is_alias q c a \<Longrightarrow> target_ok buf mx (length pre) a"
    and st: "ps_ptr st = length pre" "length (ps_name st) = NS_MAXDNAME + 1" "\<forall>x \<in> set (aliases st). 0 \<notin> set x"
    and q: "0 \<notin> set q"
  shows "\<exists>nm. length nm = NS_MAXDNAME + 1 \<and>
     parse_answer buf mx q t c maxlen st = Some (abs_answer q t c maxlen a nm st)"
proof -
  let ?r = "\<lparr>rr_type = ps_type st, rr_class = ps_class st, rr_ttl = ps_ttl st, rr_rdlen = 0, rr_end = None,
        rr_name = ps_name st, rr_response = replicate NS_MAXCDNAME 0, rr_size = NS_MAXCDNAME - 1\<rparr>"
  from parse_rr_answer [OF buf o, of ?r] st(2)
  obtain r where r: "parse_rr buf (length pre) mx ?r = Some (r, 0)" "rr_type r = an_type a" "rr_class r = an_class a"
    "rr_ttl r = uint (an_ttl a)" "rr_rdlen r = length (an_rdata a)" "rr_end r = Some (length pre + length (enc_answer a))"
    "holds_name (rr_name r) (an_owner a)" "rr_size r = length (cached_rr a)" "take (rr_size r) (rr_response r) = cached_rr a"
    by auto
  have nm: "length (rr_name r) = NS_MAXDNAME + 1" using r(7) by (simp add: holds_name_def)
  have m: "strncmp_eq q (rr_name r) \<longleftrightarrow> matches q (an_owner a)" by (rule strncmp_holds [OF r(7) q])
  have al: "check_alias (aliases st) (rr_name r) \<longleftrightarrow> (\<exists>x \<in> set (aliases st). matches x (an_owner a))"
    unfolding check_alias_def using strncmp_holds [OF r(7)] st(3) by blast
  note pa = parse_answer_def [of buf mx q t c maxlen st, unfolded st(1) r(1)]
  show ?thesis
  proof (cases "is_alias q c a")
    case True
    obtain d where d: "d \<le> 10" "name_at buf mx d (length pre + 12) (an_target a)" "good_name (an_target a)"
      using tg [OF True] by (auto simp: target_ok_def)
    from get_name_good [OF d(2,1,3) nm, of "replicate NS_MAXCDNAME 0" 254]
    obtain s where s: "get_name 0 buf (length pre + 12) mx 254 \<lparr>out_buf = replicate NS_MAXCDNAME 0, output_len = 0,
        name_end = None, dname = rr_name r, name_len = 0\<rparr> = Some (s, 0)" "holds_name (dname s) (an_target a)"
      by auto
    have x: "length pre + length (enc_answer a) - length (an_rdata a) = length pre + 12" by simp
    have "parse_answer buf mx q t c maxlen st = Some (abs_answer q t c maxlen a (dname s) st)"
      using True s(1) holds_cstr [OF s(2) d(3)] unfolding pa is_alias_def
      by (simp add: r(2-6) m x abs_answer_def is_alias_def Let_def st(1) del: length_rr)
    moreover have "length (dname s) = NS_MAXDNAME + 1" using s(2) by (simp add: holds_name_def)
    ultimately show ?thesis by (intro exI [of _ "dname s"]) simp
  next
    case False
    have "parse_answer buf mx q t c maxlen st = Some (abs_answer q t c maxlen a (rr_name r) st)"
    proof (cases "an_class a = c")
      case True
      with False have f: "\<not> (an_type a = 5 \<and> matches q (an_owner a))" by (simp add: is_alias_def)
      have h: "is_hit q t c (aliases st) a \<longleftrightarrow> an_type a = t \<and>
          ((\<exists>x \<in> set (aliases st). matches x (an_owner a)) \<or> (aliases st = [] \<and> matches q (an_owner a)))"
        using True False by (simp add: is_hit_def)
      show ?thesis
        unfolding pa
        by (simp add: r(2-6) r(8) r(9) [unfolded r(8)] m al f True abs_answer_def False h Let_def st(1) del: length_rr) blast
    next
      case c: False
      then show ?thesis
        unfolding pa by (simp add: r(2-6) abs_answer_def False is_hit_def Let_def st(1) del: length_rr)
    qed
    then show ?thesis using nm by (intro exI [of _ "rr_name r"]) simp
  qed
qed

text \<open>The whole loop: the hits in their order, as long as they fit.\<close>

lemma parse_answers_select:
  assumes "buf = pre @ enc_answers as @ rest" "answers_ok buf mx q c (length pre) as"
    and "ps_ptr st = length pre" "length (ps_name st) = NS_MAXDNAME + 1" "\<forall>x \<in> set (aliases st). 0 \<notin> set x" "0 \<notin> set q"
    and "length (ps_response st) + length (cached_rrs (select q t c (aliases st) as)) \<le> maxlen"
  shows "\<exists>st'. parse_answers (length as) buf mx q t c maxlen st = Some st' \<and>
     ps_response st' = ps_response st @ cached_rrs (select q t c (aliases st) as) \<and>
     ps_answers st' = ps_answers st + of_nat (length (select q t c (aliases st) as)) \<and>
     ps_err st' = (if select q t c (aliases st) as = [] then ps_err st else 0) \<and>
     (as \<noteq> [] \<longrightarrow> ps_type st' = an_type (last as) \<and> ps_class st' = an_class (last as) \<and> ps_ttl st' = uint (an_ttl (last as))) \<and>
     (as = [] \<longrightarrow> st' = st)"
  using assms
proof (induction as arbitrary: pre st)
  case Nil
  then show ?case by simp
next
  case (Cons a as)
  have buf: "buf = pre @ enc_answer a @ (enc_answers as @ rest)" using Cons.prems(1) by simp
  have ok: "owner_ok buf mx a" "is_alias q c a \<Longrightarrow> target_ok buf mx (length pre) a"
    "answers_ok buf mx q c (length pre + length (enc_answer a)) as"
    using Cons.prems(2) by simp_all
  obtain nm where nm: "length nm = NS_MAXDNAME + 1"
    "parse_answer buf mx q t c maxlen st = Some (abs_answer q t c maxlen a nm st)"
    using parse_answer_ok [OF buf ok(1,2) Cons.prems(3-6)] by blast
  define st1 where "st1 = fst (abs_answer q t c maxlen a nm st)"
  have na: "is_hit q t c (aliases st) a \<Longrightarrow> \<not> is_alias q c a" by (simp add: is_hit_def)
  have room: "\<not> maxlen < length (ps_response st) + length (cached_rr a)" if "is_hit q t c (aliases st) a"
    using Cons.prems(7) na [OF that] that by auto
  have flag: "abs_answer q t c maxlen a nm st = (st1, False)"
    using room by (auto simp: abs_answer_def Let_def st1_def)
  have st1: "ps_ptr st1 = length (pre @ enc_answer a)" "length (ps_name st1) = NS_MAXDNAME + 1"
    "\<forall>x \<in> set (aliases st1). 0 \<notin> set x"
    using Cons.prems(3,5) room na nm(1) ok(2)
    by (auto simp: st1_def abs_answer_def Let_def target_ok_def good_name_def)
  have st2: "aliases st1 = (if is_alias q c a then enc_name (an_target a) # aliases st else aliases st)"
    "ps_response st1 = ps_response st @ (if is_hit q t c (aliases st) a then cached_rr a else [])"
    "ps_answers st1 = ps_answers st + (if is_hit q t c (aliases st) a then 1 else 0)"
    "ps_err st1 = (if is_hit q t c (aliases st) a then 0 else ps_err st)"
    "ps_type st1 = an_type a" "ps_class st1 = an_class a" "ps_ttl st1 = uint (an_ttl a)"
    using room na by (auto simp: st1_def abs_answer_def Let_def)
  have sel: "select q t c (aliases st) (a # as) =
      (if is_hit q t c (aliases st) a then [a] else []) @ select q t c (aliases st1) as"
    using st2(1) na by auto
  have fit: "length (ps_response st1) + length (cached_rrs (select q t c (aliases st1) as)) \<le> maxlen"
    using Cons.prems(7) unfolding sel st2(2) by (simp split: if_splits)
  have "buf = (pre @ enc_answer a) @ enc_answers as @ rest" using buf by simp
  moreover have "answers_ok buf mx q c (length (pre @ enc_answer a)) as" using ok(3) by simp
  ultimately obtain st' where IH: "parse_answers (length as) buf mx q t c maxlen st1 = Some st'"
     "ps_response st' = ps_response st1 @ cached_rrs (select q t c (aliases st1) as)"
     "ps_answers st' = ps_answers st1 + of_nat (length (select q t c (aliases st1) as))"
     "ps_err st' = (if select q t c (aliases st1) as = [] then ps_err st1 else 0)"
     "as \<noteq> [] \<longrightarrow> ps_type st' = an_type (last as) \<and> ps_class st' = an_class (last as) \<and> ps_ttl st' = uint (an_ttl (last as))"
     "as = [] \<longrightarrow> st' = st1"
    using Cons.IH [OF _ _ st1 Cons.prems(6) fit] by blast
  have "parse_answers (length (a # as)) buf mx q t c maxlen st = Some st'"
    using nm(2) flag IH(1) by simp
  then show ?case
    using IH(2-6) st2 unfolding sel by (cases "as = []") (auto simp: ac_simps)
qed

text \<open>The header of a reply with one question and \<open>n\<close> answers, and a whole reply.\<close>

definition resp_hdr :: "u8 list \<Rightarrow> nat \<Rightarrow> bool" where
  "resp_hdr h n \<longleftrightarrow> length h = 12 \<and> hdr_qr (h ! 2) \<and> be16_of (h ! 4) (h ! 5) = 1 \<and> be16_of (h ! 6) (h ! 7) = of_nat n"

definition dns_reply :: "u8 list \<Rightarrow> u8 list list \<Rightarrow> u16 \<Rightarrow> u16 \<Rightarrow> answer list \<Rightarrow> u8 list" where
  "dns_reply h q t c as = h @ enc_name q @ 0 # be16_bytes t @ be16_bytes c @ enc_answers as"

lemma be16_at_append [mem_simps]: "be16_at (pre @ be16_bytes w @ rest) (length pre) = Some w"
  by (simp add: be16_at_def be16_bytes_def byte_at_def nth_append bo_simps)

lemma be16_at_mid: "length pre = p \<Longrightarrow> be16_at (pre @ be16_bytes w @ rest) p = Some w"
  using be16_at_append by blast

lemma be16_at_hdr: "i + 1 < length h \<Longrightarrow> be16_at (h @ rest) i = Some (be16_of (h ! i) (h ! (i + 1)))"
  by (simp add: be16_at_def byte_at_def nth_append)

lemma cstrn_at_mid:
  assumes "0 \<notin> set s" "length s \<le> n" "length pre = p"
  shows "cstrn_at (pre @ s @ 0 # rest) p n = Some s"
proof (cases "n = length s")
  case True
  then show ?thesis using assms by (auto simp: cstrn_at_def intro: takeWhile_eq_all_conv [THEN iffD2])
next
  case False
  with assms(2) obtain k where "n = length s + Suc k" by (metis add_Suc_right le_neq_implies_less less_imp_Suc_add)
  then show ?thesis using assms by (auto simp: cstrn_at_def)
qed

lemma parse_response_select:
  assumes buf: "buf = dns_reply h q t c as @ rest" and h: "resp_hdr h (length as)" "length as < 65536"
    and q: "good_name q" and t: "t = 1 \<or> t = 28" and mx: "12 \<le> mx"
    and ok: "answers_ok buf mx (enc_name q) c (12 + length (enc_name q) + 5) as"
    and fit: "length (cached_rrs (select (enc_name q) t c [] as)) \<le> NS_MAXDNAME"
  shows "parse_response buf mx NS_MAXDNAME NS_MAXDNAME = Some
    \<lparr>pr_question = enc_name q,
     pr_type = (if as = [] then 0 else an_type (last as)), pr_class = (if as = [] then 0 else an_class (last as)),
     pr_ttl = (if as = [] then 0 else uint (an_ttl (last as))),
     pr_response = cached_rrs (select (enc_name q) t c [] as),
     pr_answers = of_nat (length (select (enc_name q) t c [] as)),
     pr_err = (if select (enc_name q) t c [] as = [] then - ENOMSG else 0)\<rparr>"
proof -
  let ?pre = "h @ enc_name q @ 0 # be16_bytes t @ be16_bytes c"
  let ?st = "\<lparr>ps_ptr = length ?pre, ps_name = replicate (NS_MAXDNAME + 1) 0, aliases = [], ps_err = - ENOMSG,
              ps_type = 0, ps_class = 0, ps_ttl = 0, ps_response = [], ps_answers = 0\<rparr>"
  have l: "length h = 12" "length ?pre = 12 + length (enc_name q) + 5" using h by (simp_all add: resp_hdr_def)
  have b: "buf = ?pre @ enc_answers as @ rest" by (simp add: buf dns_reply_def)
  have cnt: "be16_at buf 4 = Some 1" "be16_at buf 6 = Some (of_nat (length as))" "byte_at buf 2 = Some (h ! 2)"
    using h(1) l(1) be16_at_hdr [of 4 h] be16_at_hdr [of 6 h] by (simp_all add: buf dns_reply_def resp_hdr_def byte_at_def nth_append)
  have qs: "cstrn_at buf 12 NS_MAXDNAME = Some (enc_name q)"
    using q cstrn_at_mid [of "enc_name q" NS_MAXDNAME h 12] l(1) by (simp add: buf dns_reply_def good_name_def)
  have ty: "be16_at buf (12 + length (enc_name q) + 1) = Some t" "be16_at buf (12 + length (enc_name q) + 1 + 2) = Some c"
    using be16_at_mid [of "h @ enc_name q @ [0]" _ t] be16_at_mid [of "h @ enc_name q @ 0 # be16_bytes t" _ c] l(1)
    by (simp_all add: buf dns_reply_def)
  have n: "unat (of_nat (length as) :: u16) = length as" by (rule unat_of_nat_u16 [OF h(2)])
  have "\<exists>st'. parse_answers (length as) buf mx (enc_name q) t c NS_MAXDNAME ?st = Some st' \<and>
     ps_response st' = ps_response ?st @ cached_rrs (select (enc_name q) t c (aliases ?st) as) \<and>
     ps_answers st' = ps_answers ?st + of_nat (length (select (enc_name q) t c (aliases ?st) as)) \<and>
     ps_err st' = (if select (enc_name q) t c (aliases ?st) as = [] then ps_err ?st else 0) \<and>
     (as \<noteq> [] \<longrightarrow> ps_type st' = an_type (last as) \<and> ps_class st' = an_class (last as) \<and> ps_ttl st' = uint (an_ttl (last as))) \<and>
     (as = [] \<longrightarrow> st' = ?st)"
    by (rule parse_answers_select [OF b]) (use ok q fit l in \<open>simp_all add: good_name_def\<close>)
  then obtain st' where st': "parse_answers (length as) buf mx (enc_name q) t c NS_MAXDNAME ?st = Some st'"
     "ps_response st' = cached_rrs (select (enc_name q) t c [] as)"
     "ps_answers st' = of_nat (length (select (enc_name q) t c [] as))"
     "ps_err st' = (if select (enc_name q) t c [] as = [] then - ENOMSG else 0)"
     "as \<noteq> [] \<longrightarrow> ps_type st' = an_type (last as) \<and> ps_class st' = an_class (last as) \<and> ps_ttl st' = uint (an_ttl (last as))"
     "as = [] \<longrightarrow> st' = ?st"
    by (simp only: parse_st.simps append_Nil add_0_left) blast
  have x: "length ?pre = 17 + length (enc_name q)" using l by simp
  have ty': "be16_at buf (13 + length (enc_name q)) = Some t" "be16_at buf (15 + length (enc_name q)) = Some c"
    using ty by simp_all
  have fl: "hdr_qr (h ! 2)" using h(1) by (simp add: resp_hdr_def)
  show ?thesis
    using mx t fl st'(1) [unfolded x] st'(2-6)
    by (cases "as = []") (auto simp: parse_response_def cnt qs ty' n Let_def)
qed

section \<open>The time to live\<close>

lemma ttl_loop_cached:
  assumes "\<forall>a \<in> set as. length (an_rdata a) < 65536"
  shows "ttl_loop (pre @ cached_rrs as @ rest) (length pre) (int (length (cached_rrs as))) t =
     Some (pre @ cached_rrs (map (\<lambda>a. a\<lparr>an_ttl := word_of_int t\<rparr>) as) @ rest)"
  using assms
proof (induction as arbitrary: pre)
  case Nil
  then show ?case by (simp add: ttl_loop.simps)
next
  case (Cons a as)
  let ?a = "a\<lparr>an_ttl := word_of_int t\<rparr>"
  let ?head = "pre @ [NS_CMPRSFLGS, 0x0C] @ be16_bytes (an_type a) @ be16_bytes (an_class a)"
  let ?tail = "be16_bytes (of_nat (length (an_rdata a))) @ an_rdata a @ cached_rrs as @ rest"
  let ?buf = "pre @ cached_rrs (a # as) @ rest"
  have buf: "?buf = ?head @ be32_bytes (an_ttl a) @ ?tail" by (simp add: cached_rr_def rr_fixed_def)
  have buf': "?head @ be32_bytes (word_of_int t) @ ?tail = (pre @ cached_rr ?a) @ cached_rrs as @ rest"
    by (simp add: cached_rr_def rr_fixed_def)
  have l: "dns_name_length ?buf (length pre) = Some 2"
    by (simp add: dns_name_length_def cached_rr_def byte_at_def nth_append compressed_def)
  have hl: "length ?head = length pre + 2 + 4" by simp
  have w: "put_at (length pre + 2 + 4) (be32_bytes (word_of_int t)) ?buf = Some (?head @ be32_bytes (word_of_int t) @ ?tail)"
    using mem_write_append [of "be32_bytes (word_of_int t)" "be32_bytes (an_ttl a) @ ?tail" ?head]
    unfolding buf hl [symmetric] by (simp add: put_at_def)
  have rd: "be16_at (?head @ be32_bytes (word_of_int t) @ ?tail) (length pre + 2 + 8) = Some (of_nat (length (an_rdata a)))"
    using be16_at_mid [of "?head @ be32_bytes (word_of_int t)" "length pre + 2 + 8"] by simp
  have n: "unat (of_nat (length (an_rdata a)) :: u16) = length (an_rdata a)"
    "uint (of_nat (length (an_rdata a)) :: u16) = int (length (an_rdata a))"
    using Cons.prems by (simp_all add: unat_of_nat_u16 uint_of_nat_u16)
  have len: "int (length (cached_rrs (a # as))) = 12 + int (length (an_rdata a)) + int (length (cached_rrs as))" by simp
  have IH: "ttl_loop ((pre @ cached_rr ?a) @ cached_rrs as @ rest) (length (pre @ cached_rr ?a)) (int (length (cached_rrs as))) t
     = Some ((pre @ cached_rr ?a) @ cached_rrs (map (\<lambda>a. a\<lparr>an_ttl := word_of_int t\<rparr>) as) @ rest)"
    by (rule Cons.IH) (use Cons.prems in simp)
  have x: "length pre + 2 + 8 + (length (an_rdata a) + 2) = length (pre @ cached_rr ?a)" by simp
  show ?case
    unfolding ttl_loop.simps [of ?buf] len
    using IH rd [unfolded buf'] by (simp only: l option.case w buf') (simp add: n ac_simps)
qed

section \<open>Queries and requests\<close>

text \<open>
  Names in presentation form: with a dot behind every label, as \<^verbatim>\<open>parse_request\<close> writes them, and with
  dots between the labels, as domains are configured.
\<close>

definition dotted :: "u8 list list \<Rightarrow> u8 list" where
  "dotted ls = concat (map (\<lambda>l. l @ [DOT]) ls)"

fun dot_join :: "u8 list list \<Rightarrow> u8 list" where
  "dot_join [] = []"
| "dot_join [l] = l"
| "dot_join (l # l' # ls) = l @ DOT # dot_join (l' # ls)"

lemma dotted_simps [simp]: "dotted [] = []" "dotted (l # ls) = l @ DOT # dotted ls"
  by (simp_all add: dotted_def)

definition text_label :: "u8 list \<Rightarrow> bool" where
  "text_label l \<longleftrightarrow> l \<noteq> [] \<and> length l < 192 \<and> 0 \<notin> set l \<and> DOT \<notin> set l"

lemma takeWhile_dot [simp]: "DOT \<notin> set l \<Longrightarrow> takeWhile (\<lambda>c. c \<noteq> DOT) (l @ DOT # r) = l"
  by (induction l) auto

lemma takeWhile_no_dot [simp]: "DOT \<notin> set l \<Longrightarrow> takeWhile (\<lambda>c. c \<noteq> DOT) l = l"
  by (induction l) auto

lemma append_labels_label:
  assumes "DOT \<notin> set l" "p + length l + 1 \<le> length buf"
  shows "append_labels buf p (l @ DOT # r) = append_labels (mem_write p (of_nat (length l) # l) buf) (p + length l + 1) r"
  using assms by (simp add: append_labels.simps [of buf p] put_at_def Let_def)

lemma append_labels_last:
  assumes "DOT \<notin> set l" "l \<noteq> []" "p + length l + 1 \<le> length buf"
  shows "append_labels buf p l = Some (mem_write p (of_nat (length l) # l) buf, p + length l + 1)"
  using assms by (simp add: append_labels.simps [of buf p] put_at_def Let_def)

lemma append_labels_Nil [simp]: "append_labels buf p [] = Some (buf, p)"
  by (simp add: append_labels.simps)

lemma append_labels_dotted:
  assumes "\<forall>l \<in> set ls. text_label l" "p + length (enc_name ls) \<le> length buf"
  shows "append_labels buf p (dotted ls) = Some (mem_write p (enc_name ls) buf, p + length (enc_name ls))"
  using assms
proof (induction ls arbitrary: buf p)
  case Nil
  then show ?case by (simp add: mem_write_def)
next
  case (Cons l ls)
  let ?b = "mem_write p (of_nat (length l) # l) buf"
  have "append_labels buf p (dotted (l # ls)) = append_labels ?b (p + length l + 1) (dotted ls)"
    using Cons.prems append_labels_label [of l p buf] by (simp add: text_label_def)
  also have "\<dots> = Some (mem_write (p + length l + 1) (enc_name ls) ?b, p + length l + 1 + length (enc_name ls))"
    by (rule Cons.IH) (use Cons.prems in \<open>simp_all\<close>)
  also have "mem_write (p + length l + 1) (enc_name ls) ?b = mem_write p (enc_name (l # ls)) buf"
    using mem_write_app [of p "of_nat (length l) # l" "enc_name ls" buf] Cons.prems by simp
  finally show ?case by simp
qed

lemma append_labels_join:
  assumes "\<forall>l \<in> set ls. text_label l" "p + length (enc_name ls) \<le> length buf"
  shows "append_labels buf p (dot_join ls) = Some (mem_write p (enc_name ls) buf, p + length (enc_name ls))"
  using assms
proof (induction ls arbitrary: buf p rule: dot_join.induct)
  case 1
  then show ?case by (simp add: mem_write_def)
next
  case (2 l)
  then show ?case using append_labels_last [of l p buf] by (simp add: text_label_def)
next
  case (3 l l' ls)
  let ?b = "mem_write p (of_nat (length l) # l) buf"
  have "append_labels buf p (dot_join (l # l' # ls)) = append_labels ?b (p + length l + 1) (dot_join (l' # ls))"
    using 3 append_labels_label [of l p buf] by (simp add: text_label_def)
  also have "\<dots> = Some (mem_write (p + length l + 1) (enc_name (l' # ls)) ?b, p + length l + 1 + length (enc_name (l' # ls)))"
    by (rule 3(1)) (use 3 in \<open>simp_all\<close>)
  also have "mem_write (p + length l + 1) (enc_name (l' # ls)) ?b = mem_write p (enc_name (l # l' # ls)) buf"
    using mem_write_app [of p "of_nat (length l) # l" "enc_name (l' # ls)" buf] 3 by simp
  finally show ?case by simp
qed

lemma append_query_enc:
  assumes "\<forall>l \<in> set ls. text_label l" "\<forall>l \<in> set ds. text_label l"
    and "p + length (enc_name ls) + length (enc_name ds) + 1 \<le> length buf"
  shows "append_query buf p (Some (dotted ls)) (Some (dot_join ds)) =
     Some (mem_write p (enc_name (ls @ ds) @ [0]) buf, length (enc_name (ls @ ds)) + 1)"
proof -
  have e: "enc_name (ls @ ds) = enc_name ls @ enc_name ds" by (simp add: enc_name_def)
  have 1: "append_labels buf p (dotted ls) = Some (mem_write p (enc_name ls) buf, p + length (enc_name ls))"
    by (rule append_labels_dotted) (use assms in simp_all)
  have 2: "append_labels (mem_write p (enc_name ls) buf) (p + length (enc_name ls)) (dot_join ds) =
      Some (mem_write (p + length (enc_name ls)) (enc_name ds) (mem_write p (enc_name ls) buf),
        p + length (enc_name ls) + length (enc_name ds))"
    by (rule append_labels_join) (use assms in simp_all)
  show ?thesis
    using assms(3) mem_write_app [of p "enc_name ls" "enc_name ds" buf] mem_write_app [of p "enc_name ls @ enc_name ds" "[0]" buf]
    by (simp add: append_query_def 1 2 e put_at_def ac_simps)
qed

lemma request_labels_step:
  assumes "text_label l" "length l + 1 \<le> unat remain" "used + length l + 1 \<le> sz"
    and buf: "buf = pre @ of_nat (length l) # l @ rest"
  shows "request_labels buf sz (length pre) remain used name =
     (case strncat_dot sz name l of None \<Rightarrow> None
      | Some name' \<Rightarrow> request_labels buf sz (length (pre @ of_nat (length l) # l)) (remain - of_nat (length l + 1))
          (used + length l + 1) name')"
    and "unat (remain - of_nat (length l + 1)) = unat remain - (length l + 1)"
proof -
  let ?l = "of_nat (length l) :: u8"
  have l: "unat ?l = length l" "0 \<notin> set l" "l \<noteq> []" "length l < 192" using assms(1) by (auto simp: text_label_def)
  then have l0: "?l \<noteq> 0" by (metis length_0_conv unat_0)
  have b: "byte_at buf (length pre) = Some ?l" by (simp add: buf byte_at_def nth_append)
  have c: "cstrn_at buf (length pre + 1) (length l) = Some l"
    using l(2) by (auto simp: buf cstrn_at_def takeWhile_eq_all_conv)
  have uc: "ucast ?l + 1 = (of_nat (length l + 1) :: u32)"
    using l(1) by (metis of_nat_1 of_nat_add of_nat_unat)
  have len: "unat (of_nat (length l + 1) :: u32) = length l + 1" by (rule unat_of_nat_u32) (use l(4) in simp)
  have pos: "0 < remain" using assms(2) by (simp add: word_less_nat_alt)
  show "request_labels buf sz (length pre) remain used name =
     (case strncat_dot sz name l of None \<Rightarrow> None
      | Some name' \<Rightarrow> request_labels buf sz (length (pre @ of_nat (length l) # l)) (remain - of_nat (length l + 1))
          (used + length l + 1) name')"
    using pos assms(3) by (subst request_labels.simps) (simp only: b option.case l0 l(1) c uc, simp split: option.split)
  show "unat (remain - of_nat (length l + 1)) = unat remain - (length l + 1)"
    using assms(2) len by (subst unat_sub) (simp_all add: word_le_nat_alt)
qed

lemma request_labels_name:
  assumes "\<forall>l \<in> set ls. text_label l" "length (enc_name ls) < unat remain" "used + length (enc_name ls) < sz"
    and "length name = used"
  shows "request_labels (pre @ enc_name ls @ 0 # rest) sz (length pre) remain used name =
     Some (name @ dotted ls, Some (length pre + length (enc_name ls) + 1), remain - of_nat (length (enc_name ls)), 0)"
  using assms
proof (induction ls arbitrary: pre remain used name)
  case Nil
  then have "0 < remain" by (simp add: word_less_nat_alt)
  then show ?case by (simp add: request_labels.simps byte_at_def nth_append)
next
  case (Cons l ls)
  let ?l = "of_nat (length l) :: u8"
  have step: "text_label l" "length l + 1 \<le> unat remain" "used + length l + 1 \<le> sz" using Cons.prems by simp_all
  note st1 = request_labels_step(1) [OF step refl, of pre "enc_name ls @ 0 # rest" name]
  note st2 = request_labels_step(2) [OF step refl]
  have cat: "strncat_dot sz name l = Some (name @ l @ [DOT])" using Cons.prems by (simp add: strncat_dot_def)
  have "request_labels ((pre @ ?l # l) @ enc_name ls @ 0 # rest) sz (length (pre @ ?l # l)) (remain - of_nat (length l + 1))
      (used + length l + 1) (name @ l @ [DOT]) =
    Some ((name @ l @ [DOT]) @ dotted ls, Some (length (pre @ ?l # l) + length (enc_name ls) + 1),
      remain - of_nat (length l + 1) - of_nat (length (enc_name ls)), 0)"
    by (rule Cons.IH) (use Cons.prems in \<open>simp_all only: st2, simp_all\<close>)
  with st1 cat show ?case by (simp add: algebra_simps)
qed

text \<open>A name whose presentation form fills the buffer exactly passes the check but leaves no room for the final zero.\<close>

lemma request_labels_overflow:
  assumes "\<forall>l \<in> set ls. text_label l" "ls \<noteq> []" "length (enc_name ls) < unat remain" "used + length (enc_name ls) = sz"
    and "length name = used"
  shows "request_labels (pre @ enc_name ls @ 0 # rest) sz (length pre) remain used name = None"
  using assms
proof (induction ls arbitrary: pre remain used name)
  case Nil
  then show ?case by simp
next
  case (Cons l ls)
  let ?l = "of_nat (length l) :: u8"
  have step: "text_label l" "length l + 1 \<le> unat remain" "used + length l + 1 \<le> sz" using Cons.prems by simp_all
  note st1 = request_labels_step(1) [OF step refl, of pre "enc_name ls @ 0 # rest" name]
  note st2 = request_labels_step(2) [OF step refl]
  show ?case
  proof (cases "ls = []")
    case True
    then have "strncat_dot sz name l = None" using Cons.prems by (simp add: strncat_dot_def)
    with st1 True show ?thesis by simp
  next
    case False
    then have cat: "strncat_dot sz name l = Some (name @ l @ [DOT])"
      using Cons.prems by (cases ls) (auto simp: strncat_dot_def)
    have "request_labels ((pre @ ?l # l) @ enc_name ls @ 0 # rest) sz (length (pre @ ?l # l)) (remain - of_nat (length l + 1))
      (used + length l + 1) (name @ l @ [DOT]) = None"
      by (rule Cons.IH) (use Cons.prems False in \<open>simp_all only: st2, simp_all\<close>)
    with st1 cat show ?thesis by simp
  qed
qed

lemma bump_edns0_ok:
  assumes "lst + 8 < length buf"
  shows "\<exists>buf'. bump_edns0 buf lst = Some buf' \<and> (buf' = buf \<or> buf' = mem_write (lst + 7) [0x10, 0x00] buf)"
proof -
  have "byte_at buf (lst + 4) \<noteq> None" "bytes_at buf (lst + 5) 2 \<noteq> None" "byte_at buf (lst + 7) \<noteq> None" "byte_at buf (lst + 8) \<noteq> None"
    using assms by (simp_all add: byte_at_def bytes_at_def)
  then obtain z opt hi lo where "byte_at buf (lst + 4) = Some z" "bytes_at buf (lst + 5) 2 = Some opt"
    "byte_at buf (lst + 7) = Some hi" "byte_at buf (lst + 8) = Some lo" by auto
  then show ?thesis using assms by (auto simp: bump_edns0_def put_at_def)
qed

lemma unat_minus_12: "12 \<le> n \<Longrightarrow> n < 2 ^ 31 \<Longrightarrow> unat (word_of_int (int n - 12) :: u32) = n - 12"
proof -
  assume n: "12 \<le> n" "n < 2 ^ 31"
  then have "int n - 12 = int (n - 12)" by simp
  then have "(word_of_int (int n - 12) :: u32) = of_nat (n - 12)" by (simp only: of_int_of_nat_eq)
  then show ?thesis using n(2) by (simp only:) (rule unat_of_nat_u32, simp)
qed

definition query_hdr :: "u8 list \<Rightarrow> bool" where
  "query_hdr h \<longleftrightarrow> length h = 12 \<and> \<not> hdr_qr (h ! 2) \<and> be16_of (h ! 4) (h ! 5) = 1"

lemma parse_request_name:
  assumes ls: "\<forall>l \<in> set ls. text_label l" "length (enc_name ls) < sz" and h: "query_hdr h"
    and len: "len = 12 + length (enc_name ls) + 1 + length tail" "len < 2 ^ 31" and mem: "mem = h @ enc_name ls @ 0 # tail @ junk" "junk \<noteq> []"
  shows "\<exists>mem'. parse_request mem 0 (int len) sz = Some (mem', dotted ls, 0) \<and>
     (mem' = mem \<or> mem' = mem_write (20 + length (enc_name ls)) [0x10, 0x00] mem)"
proof -
  let ?n = "length (enc_name ls)"
  have l: "length h = 12" using h by (simp add: query_hdr_def)
  have c: "be16_at mem 4 = Some 1" "byte_at mem 2 = Some (h ! 2)" "be16_at mem 10 = Some (be16_of (h ! 10) (h ! 11))"
    using h be16_at_hdr [of 4 h] be16_at_hdr [of 10 h] by (simp_all add: mem(1) query_hdr_def byte_at_def nth_append)
  define r :: u32 where "r = word_of_int (int len - 12)"
  have ur: "unat r = len - 12" unfolding r_def by (rule unat_minus_12) (use len in simp_all)
  have q: "request_labels mem sz 12 r 0 [] = Some (dotted ls, Some (12 + ?n + 1), r - of_nat ?n, 0)"
    using request_labels_name [of ls r 0 sz "[]" h "tail @ junk"] ls l ur len by (simp add: mem(1))
  have rem: "unat (r - of_nat ?n) = len - 12 - ?n"
    using len ur unat_of_nat_u32 [of ?n] by (subst unat_sub) (simp_all add: word_le_nat_alt)
  have b: "\<exists>mem'. bump_edns0 mem (12 + ?n + 1) = Some mem' \<and> (mem' = mem \<or> mem' = mem_write (12 + ?n + 1 + 7) [0x10, 0x00] mem)"
    if "9 \<le> r - of_nat ?n"
  proof (rule bump_edns0_ok)
    have "9 \<le> unat (r - of_nat ?n)" using that by (simp add: word_le_nat_alt)
    then show "12 + ?n + 1 + 8 < length mem" using rem len mem l by (cases junk) (auto simp: mem(1))
  qed
  have x: "12 + ?n + 1 + 7 = 20 + ?n" by simp
  have lb: "\<not> int len < 12" using len(1) by simp
  have pr: "parse_request mem 0 (int len) sz =
      (if be16_of (h ! 10) (h ! 11) \<noteq> 0 \<and> 9 \<le> r - of_nat ?n
       then do { buf \<leftarrow> bump_edns0 mem (12 + ?n + 1); Some (buf, dotted ls, 0) } else Some (mem, dotted ls, 0))"
    using h lb unfolding parse_request_def add_0 r_def [symmetric] by (simp add: c q query_hdr_def)
  show ?thesis
  proof (cases "be16_of (h ! 10) (h ! 11) \<noteq> 0 \<and> 9 \<le> r - of_nat ?n")
    case True
    then show ?thesis using b unfolding pr x by auto
  qed (auto simp: pr)
qed

section \<open>Properties\<close>




text \<open>A reply to a query for the A record of the name \<open>a\<close>, with one answer.\<close>

definition ex_hdr :: "u8 list" where
  "ex_hdr = [0x12, 0x34, 0x81, 0x80, 0, 1, 0, 1, 0, 0, 0, 0]"

definition ex_answer :: answer where
  "ex_answer = \<lparr>an_hi = 0xC0, an_lo = 0x0C, an_type = 1, an_class = 1, an_ttl = 300, an_rdata = [10, 0, 0, 1],
     an_owner = [[97]], an_target = []\<rparr>"

lemma ex_reply: "dns_reply ex_hdr [[97]] 1 1 [ex_answer] =
  [0x12, 0x34, 0x81, 0x80, 0, 1, 0, 1, 0, 0, 0, 0, 1, 97, 0, 0, 1, 0, 1, 0xC0, 0x0C, 0, 1, 0, 1, 0, 0, 1, 44, 0, 4, 10, 0, 0, 1]"
  by (simp add: dns_reply_def ex_hdr_def ex_answer_def enc_answer_def rr_fixed_def be16_bytes_def be32_bytes_def)

lemma ex_good_name: "good_name [[97]]"
  by (simp add: good_name_def)

lemma ex_reply_hdr: "resp_hdr ex_hdr 1"
  by (simp add: resp_hdr_def ex_hdr_def hdr_qr_def be16_of_def)

lemma ex_answers_ok: "answers_ok (dns_reply ex_hdr [[97]] 1 1 [ex_answer] @ junk) 35 [1, 97] 1 19 [ex_answer]"
proof -
  let ?m = "dns_reply ex_hdr [[97]] 1 1 [ex_answer] @ junk"
  have "name_at ?m 35 0 14 []" by (rule name_at.root) (simp add: ex_reply byte_at_def)
  then have "name_at ?m 35 0 12 [[97]]"
    using name_at.label [of ?m 12 1 "[97]" 35 0 "[]"] by (simp add: ex_reply byte_at_def bytes_at_def compressed_def)
  then show ?thesis
    using ex_good_name by (auto simp: owner_ok_def is_alias_def ex_answer_def compressed_def ptr_offset_def)
qed


text \<open>C23. A client's question is parsed into its dotted name, and \<^verbatim>\<open>append_query\<close> of that name with a search
  domain gives the wire form of the name followed by the domain.\<close>

theorem request_query_roundtrip:
  assumes "\<forall>l \<in> set ls. text_label l" "\<forall>l \<in> set ds. text_label l" "length (enc_name ls) < 512" "query_hdr h"
    and "len = 12 + length (enc_name ls) + 1 + length tail" "len < 2 ^ 31" "junk \<noteq> []"
    and "p + length (enc_name (ls @ ds)) + 1 \<le> length alt"
  shows "\<exists>mem' name. parse_request (h @ enc_name ls @ 0 # tail @ junk) 0 (int len) 512 = Some (mem', name, 0) \<and>
     append_query alt p (Some name) (Some (dot_join ds)) =
       Some (mem_write p (enc_name (ls @ ds) @ [0]) alt, length (enc_name (ls @ ds)) + 1)"
proof -
  have "\<exists>mem'. parse_request (h @ enc_name ls @ 0 # tail @ junk) 0 (int len) 512 = Some (mem', dotted ls, 0)"
    using parse_request_name [OF assms(1,3-6) refl assms(7)] by blast
  moreover have "append_query alt p (Some (dotted ls)) (Some (dot_join ds)) =
       Some (mem_write p (enc_name (ls @ ds) @ [0]) alt, length (enc_name (ls @ ds)) + 1)"
    by (rule append_query_enc [OF assms(1,2)]) (use assms(8) in \<open>simp add: enc_name_def\<close>)
  ultimately show ?thesis by blast
qed

theorem request_query_roundtrip_witness:
  "\<exists>mem' name. parse_request ([0x12, 0x34, 1, 0, 0, 1, 0, 0, 0, 0, 0, 0] @ [1, 97] @ 0 # [0, 1, 0, 1] @ [0]) 0 19 512 =
       Some (mem', name, 0) \<and>
     append_query (replicate 1024 0) 12 (Some name) (Some [98, 46, 99]) = Some (mem_write 12 [1, 97, 1, 98, 1, 99, 0] (replicate 1024 0), length ([1, 97, 1, 98, 1, 99, 0] :: u8 list))"
  using request_query_roundtrip [of "[[97]]" "[[98], [99]]" "[0x12, 0x34, 1, 0, 0, 1, 0, 0, 0, 0, 0, 0]" 19 "[0, 1, 0, 1]" "[0]" 12 "replicate 1024 0"]
  by (simp add: text_label_def query_hdr_def hdr_qr_def be16_of_def)

text \<open>C24. A question whose dotted form has exactly as many characters as the caller's buffer passes the length
  check of \<^verbatim>\<open>parse_request\<close>, and the final zero is written one byte past the buffer.\<close>

theorem parse_request_off_by_one:
  assumes "\<forall>l \<in> set ls. text_label l" "length (enc_name ls) = sz" "0 < sz" "query_hdr h"
    and "len = 12 + length (enc_name ls) + 1 + length tail" "len < 2 ^ 31"
  shows "parse_request (h @ enc_name ls @ 0 # tail) 0 (int len) sz = None"
proof -
  have l: "length h = 12" using assms(4) by (simp add: query_hdr_def)
  have r: "unat (word_of_int (int len - 12) :: u32) = len - 12" by (rule unat_minus_12) (use assms in simp_all)
  have "ls \<noteq> []" using assms(2,3) by auto
  then have q: "request_labels (h @ enc_name ls @ 0 # tail) sz 12 (word_of_int (int len - 12)) 0 [] = None"
    using request_labels_overflow [of ls "word_of_int (int len - 12)" 0 sz "[]" h tail] assms l r by simp
  show ?thesis
    using assms(4,5) l be16_at_hdr [of 4 h] be16_at_hdr [of 10 h] q
    by (simp add: parse_request_def query_hdr_def byte_at_def nth_append numeral_2_eq_2)
qed

theorem parse_request_off_by_one_witness:
  "parse_request ([0x12, 0x34, 1, 0, 0, 1, 0, 0, 0, 0, 0, 0] @ enc_name (replicate 16 (replicate 31 97)) @ 0 # [0, 1, 0, 1]) 0 529 512 = None"
  using parse_request_off_by_one [of "replicate 16 (replicate 31 97)" 512 "[0x12, 0x34, 1, 0, 0, 1, 0, 0, 0, 0, 0, 0]" 529 "[0, 1, 0, 1]"]
  by (simp add: text_label_def query_hdr_def hdr_qr_def be16_of_def enc_name_def length_concat sum_list_replicate)

end
