(* ===== verification/DnsCache.thy ===== *)
theory DnsCache
  imports DnsMessage "HOL-Library.AList"
begin

text \<open>
  The cache of the DNS proxy (\<^verbatim>\<open>src/dnsproxy.c\<close>): entries with the packed replies for A and AAAA, their
  life time, the clean-up and refresh of entries, storing a server's reply (\<^verbatim>\<open>cache_update\<close>), looking up a
  client's question (\<^verbatim>\<open>cache_check\<close>) and sending a stored reply (\<^verbatim>\<open>send_cached_response\<close>).

  The hash table is an association list from the question (the key string in wire form) to the entry; each
  entry and its data belong to the table alone, so they are values. The order of the list stands for the order
  in which GLib walks the table. The clock is an argument \<open>now\<close>, in seconds, constant during one call.
  Host name lookups started for a refresh are recorded in the list \<open>lookups\<close>.
\<close>

section \<open>State\<close>

record cache_data =
  inserted :: int
  valid_until :: int
  cache_until :: int
  cd_timeout :: int
  cd_type :: u16
  cd_answers :: u16
  data_len :: nat
  cd_data :: "u8 list"

record cache_entry =
  want_refresh :: bool
  hits :: int
  ipv4 :: "cache_data option"
  ipv6 :: "cache_data option"

datatype lookup = Lookup_A "u8 list" | Lookup_AAAA "u8 list"

type_synonym cache_table = "(u8 list \<times> cache_entry) list"

record dns_cache =
  cache_size :: int
  cache_tbl :: "cache_table option"
  cache_refcount :: int
  next_refresh :: int
  max_timeout :: int
  lookups :: "lookup list"

abbreviation "MAX_CACHE_TTL \<equiv> (1800 :: int)"
abbreviation "MIN_CACHE_TTL \<equiv> (30 :: int)"
abbreviation "MAX_CACHE_SIZE \<equiv> (256 :: int)"

section \<open>Life time\<close>

definition round_down_ttl :: "int \<Rightarrow> int \<Rightarrow> int" where
  "round_down_ttl end_time ttl =
     (if ttl < 15 then end_time
      else if ttl < 300 then end_time div 10 * 10
      else end_time div 30 * 30)"

definition cache_check_is_valid :: "cache_data option \<Rightarrow> int \<Rightarrow> bool" where
  "cache_check_is_valid data current_time =
     (case data of None \<Rightarrow> False | Some d \<Rightarrow> \<not> cache_until d < current_time)"

definition cache_enforce_validity :: "int \<Rightarrow> cache_entry \<Rightarrow> cache_entry" where
  "cache_enforce_validity now e =
     (let e = (if \<not> cache_check_is_valid (ipv4 e) now \<and> ipv4 e \<noteq> None then e\<lparr>ipv4 := None\<rparr> else e)
      in if \<not> cache_check_is_valid (ipv6 e) now \<and> ipv6 e \<noteq> None then e\<lparr>ipv6 := None\<rparr> else e)"

text \<open>The type, 0 when the entry is to be removed from the table, and the entry.\<close>

definition cache_check_validity :: "int \<Rightarrow> u16 \<Rightarrow> cache_entry \<Rightarrow> u16 \<times> cache_entry" where
  "cache_check_validity now typ entry =
     (let want = hits entry > 2;
          e = cache_enforce_validity now entry in
      if typ = 1 then
        if \<not> cache_check_is_valid (ipv4 e) now then
          (if \<not> cache_check_is_valid (ipv6 e) now \<and> \<not> want then 0 else typ,
           if want then e\<lparr>want_refresh := True\<rparr> else e)
        else (typ, e)
      else if typ = 28 then
        if \<not> cache_check_is_valid (ipv6 e) now then
          (if \<not> cache_check_is_valid (ipv4 e) now \<and> \<not> want then 0 else typ,
           if want then e\<lparr>want_refresh := True\<rparr> else e)
        else (typ, e)
      else (typ, e))"

section \<open>Creation and removal\<close>

text \<open>The destructor of a table element: the entry is freed and the count goes down.\<close>

definition cache_element_destroy :: "int \<Rightarrow> int" where
  "cache_element_destroy sz = (if sz - 1 < 0 then 0 else sz - 1)"

definition hash_remove :: "u8 list \<Rightarrow> dns_cache \<Rightarrow> dns_cache" where
  "hash_remove k st =
     (case cache_tbl st of
        None \<Rightarrow> st
      | Some t \<Rightarrow>
        if map_of t k = None then st
        else st\<lparr>cache_tbl := Some (AList.delete k t), cache_size := cache_element_destroy (cache_size st)\<rparr>)"

definition hash_update :: "u8 list \<Rightarrow> cache_entry \<Rightarrow> dns_cache \<Rightarrow> dns_cache" where
  "hash_update k e st = st\<lparr>cache_tbl := map_option (AList.update k e) (cache_tbl st)\<rparr>"

definition try_remove_cache :: "dns_cache \<Rightarrow> dns_cache" where
  "try_remove_cache st =
     (let st' = st\<lparr>cache_refcount := cache_refcount st - 1\<rparr> in
      if cache_refcount st = 1 then
        st'\<lparr>cache_tbl := None,
           cache_size := (cache_element_destroy ^^ (case cache_tbl st of None \<Rightarrow> 0 | Some t \<Rightarrow> length t)) (cache_size st)\<rparr>
      else st')"

definition create_cache :: "dns_cache \<Rightarrow> dns_cache" where
  "create_cache st =
     (let st' = st\<lparr>cache_refcount := cache_refcount st + 1\<rparr> in
      if cache_refcount st = 0 then st'\<lparr>cache_tbl := Some []\<rparr> else st')"

section \<open>Lookup\<close>

text \<open>The result is the state and, on a hit, the type with the key of the entry.\<close>

definition cache_check ::
  "int \<Rightarrow> dns_cache \<Rightarrow> u8 list option \<Rightarrow> int \<Rightarrow> (dns_cache \<times> (u16 \<times> u8 list) option) option" where
  "cache_check now st request proto =
     (case request of
        None \<Rightarrow> Some (st, None)
      | Some req \<Rightarrow>
        if protocol_offset proto < 0 then Some (st, None)
        else do {
          let q = nat (protocol_offset proto) + 12;
          question \<leftarrow> cstr_at req q;
          typ \<leftarrow> be16_at req (q + length question + 1);
          if typ \<noteq> 1 \<and> typ \<noteq> 28 then Some (st, None)
          else
            (case cache_tbl st of
               None \<Rightarrow> Some (create_cache st, None)
             | Some t \<Rightarrow>
               (case map_of t question of
                  None \<Rightarrow> Some (st, None)
                | Some entry \<Rightarrow>
                  let (typ', e) = cache_check_validity now typ entry in
                  if typ' = 0 then Some (hash_remove question st, None)
                  else Some (hash_update question e st, Some (typ', question)))) })"

section \<open>Aging\<close>

text \<open>\<^verbatim>\<open>int max_timeout = cache_until\<close> keeps the low 32 bits.\<close>

definition to_int :: "int \<Rightarrow> int" where
  "to_int x = sint (word_of_int x :: u32)"

text \<open>The two halves of \<^verbatim>\<open>cache_check_entry\<close> for one kind of data: the new maximum, and whether it has expired.\<close>

definition data_timeout :: "int \<Rightarrow> cache_data option \<Rightarrow> int \<Rightarrow> int \<times> bool" where
  "data_timeout current_time data mx =
     (case data of
        Some d \<Rightarrow>
          if cd_timeout d > 0
          then (if to_int (cache_until d) > mx then to_int (cache_until d) else mx, cache_until d < current_time)
          else (mx, False)
      | None \<Rightarrow> (mx, False))"

definition cache_check_entry :: "int \<Rightarrow> bool \<Rightarrow> int \<Rightarrow> cache_entry \<Rightarrow> bool \<times> cache_entry \<times> int" where
  "cache_check_entry current_time try_harder mx entry =
     (let e = entry\<lparr>hits := hits entry div 2\<rparr>;
          (mx4, gone4) = data_timeout current_time (ipv4 e) mx in
      if gone4 then (True, e, mx4)
      else
        let (mx6, gone6) = data_timeout current_time (ipv6 e) mx4 in
        if gone6 then (True, e, mx6)
        else if try_harder \<and> hits e < 4 then (True, e, mx6)
        else (False, e, mx6))"

text \<open>\<^verbatim>\<open>g_hash_table_foreach_remove\<close> with it: the rest of the table, the maximum and the number of removals.\<close>

fun cache_sweep :: "int \<Rightarrow> bool \<Rightarrow> int \<Rightarrow> cache_table \<Rightarrow> cache_table \<times> int \<times> nat" where
  "cache_sweep now try_harder mx [] = ([], mx, 0)"
| "cache_sweep now try_harder mx ((k, e) # t) =
     (let (rm, e', mx') = cache_check_entry now try_harder mx e;
          (t', mx'', n) = cache_sweep now try_harder mx' t
      in if rm then (t', mx'', n + 1) else ((k, e') # t', mx'', n))"

definition cache_cleanup :: "int \<Rightarrow> dns_cache \<Rightarrow> dns_cache" where
  "cache_cleanup now st =
     (case cache_tbl st of
        None \<Rightarrow> st\<lparr>max_timeout := 0\<rparr>
      | Some t \<Rightarrow>
        let (t1, m1, n1) = (if max_timeout st \<le> now then cache_sweep now False 0 t else (t, 0, 0));
            (t2, m2, n2) = (if n1 = 0 then cache_sweep now True m1 t1 else (t1, m1, n1))
        in st\<lparr>cache_tbl := Some t2, cache_size := (cache_element_destroy ^^ n2) (cache_size st),
              max_timeout := (if n2 = 0 then m2 else 0)\<rparr>)"

section \<open>Invalidation\<close>

definition cache_invalidate_entry :: "int \<Rightarrow> cache_entry \<Rightarrow> bool \<times> cache_entry" where
  "cache_invalidate_entry now entry =
     (let e = cache_enforce_validity now entry;
          e = (if hits e > 0 \<and> (ipv4 e \<noteq> None \<or> ipv6 e \<noteq> None) then e\<lparr>want_refresh := True\<rparr> else e);
          e = e\<lparr>ipv4 := None, ipv6 := None\<rparr>
      in (\<not> want_refresh e, e))"

definition cache_invalidate :: "int \<Rightarrow> dns_cache \<Rightarrow> dns_cache" where
  "cache_invalidate now st =
     (case cache_tbl st of
        None \<Rightarrow> st
      | Some t \<Rightarrow>
        let t' = map (\<lambda>(k, e). (k, snd (cache_invalidate_entry now e)))
              (filter (\<lambda>(k, e). \<not> fst (cache_invalidate_entry now e)) t)
        in st\<lparr>cache_tbl := Some t', cache_size := (cache_element_destroy ^^ (length t - length t')) (cache_size st)\<rparr>)"

section \<open>Refresh\<close>

text \<open>
  \<^verbatim>\<open>refresh_dns_entry\<close> with the two lookups it starts (the resolver objects it creates on first use have no
  other effect); the last argument is the list of lookups so far.
\<close>

definition refresh_dns_entry :: "cache_entry \<Rightarrow> u8 list \<Rightarrow> lookup list \<Rightarrow> cache_entry \<times> lookup list" where
  "refresh_dns_entry e name acts =
     (let acts = (if ipv4 e = None then acts @ [Lookup_A name] else acts);
          acts = (if ipv6 e = None then acts @ [Lookup_AAAA name] else acts);
          age = (if ipv4 e = None \<or> ipv6 e = None then 4 else 1);
          h = hits e - age
      in (e\<lparr>hits := (if h < 0 then 0 else h)\<rparr>, acts))"

text \<open>
  The loop that replaces the length bytes of the copied key by dots. Characters are signed, so a length byte of
  128 or more moves backwards; the loop may then not end. \<open>None\<close> stands for that and for leaving the buffer.
\<close>

partial_function (option) dots_from :: "u8 list \<Rightarrow> int \<Rightarrow> u8 list option" where
  "dots_from buf c =
     (if c < 0 then None
      else
        (case byte_at buf (nat c) of
           None \<Rightarrow> None
         | Some b \<Rightarrow>
           if b = 0 then Some buf else dots_from (buf[nat c := DOT]) (c + sint b + 1)))"

declare dots_from.simps [code]

definition cache_refresh_entry :: "int \<Rightarrow> u8 list \<Rightarrow> cache_entry \<Rightarrow> lookup list \<Rightarrow> (cache_entry \<times> lookup list) option" where
  "cache_refresh_entry now key entry acts =
     (let e = cache_enforce_validity now entry;
          e = (if hits e > 2 \<and> ipv4 e = None then e\<lparr>want_refresh := True\<rparr> else e);
          e = (if hits e > 2 \<and> ipv6 e = None then e\<lparr>want_refresh := True\<rparr> else e)
      in if want_refresh e then do {
           dns_name \<leftarrow> dots_from (take NS_MAXDNAME (key @ replicate NS_MAXDNAME 0)) 0;
           name \<leftarrow> cstr_at dns_name 1;
           Some (refresh_dns_entry (e\<lparr>want_refresh := False\<rparr>) name acts) }
         else Some (e, acts))"

fun cache_refresh_all :: "int \<Rightarrow> cache_table \<Rightarrow> lookup list \<Rightarrow> (cache_table \<times> lookup list) option" where
  "cache_refresh_all now [] acts = Some ([], acts)"
| "cache_refresh_all now ((k, e) # t) acts = do {
     (e', acts) \<leftarrow> cache_refresh_entry now k e acts;
     (t', acts) \<leftarrow> cache_refresh_all now t acts;
     Some ((k, e') # t', acts) }"

definition cache_refresh :: "int \<Rightarrow> dns_cache \<Rightarrow> dns_cache option" where
  "cache_refresh now st =
     (case cache_tbl st of
        None \<Rightarrow> Some st
      | Some t \<Rightarrow> do {
          (t', acts) \<leftarrow> cache_refresh_all now t (lookups st);
          Some (st\<lparr>cache_tbl := Some t', lookups := acts\<rparr>) })"

section \<open>Storing a reply\<close>

definition dec_hits :: "cache_entry \<Rightarrow> cache_entry" where
  "dec_hits e = e\<lparr>hits := (if hits e - 1 < 0 then 0 else hits e - 1)\<rparr>"

text \<open>The two bytes of length in front of a stored message.\<close>

definition len_prefix :: "nat \<Rightarrow> u8 list" where
  "len_prefix n = [of_nat (n div 256), of_nat (n - unat (of_nat (n div 256) :: u8) * 256)]"

text \<open>The special case: an AAAA question without result for a name with cached IPv4 data.\<close>

definition negative_data :: "int \<Rightarrow> u8 list \<Rightarrow> nat \<Rightarrow> u16 \<Rightarrow> u16 \<Rightarrow> cache_data \<Rightarrow> cache_data option" where
  "negative_data protocol msg msg_len typ ancount v4 = do {
     m \<leftarrow> bytes_at msg 0 msg_len;
     let packed = (if protocol = PROTO_UDP then len_prefix msg_len @ m else m);
     Some \<lparr>inserted = inserted v4, valid_until = valid_until v4, cache_until = cache_until v4, cd_timeout = cd_timeout v4,
       cd_type = typ, cd_answers = ancount, data_len = length packed, cd_data = packed\<rparr> }"

definition negative_entry :: "cache_entry option \<Rightarrow> (cache_entry \<times> cache_data) option" where
  "negative_entry known =
     (case known of
        None \<Rightarrow> None
      | Some e \<Rightarrow> (case ipv4 e of None \<Rightarrow> None | Some v4 \<Rightarrow> if ipv6 e = None then Some (e, v4) else None))"

text \<open>The stored form of a positive reply: length, header of the message, question and the selected records.\<close>

definition positive_data :: "int \<Rightarrow> u8 list \<Rightarrow> nat \<Rightarrow> parse_result \<Rightarrow> cache_data option" where
  "positive_data now msg offset r = do {
     hdr \<leftarrow> bytes_at msg offset 12;
     let ttl = (if pr_ttl r < MIN_CACHE_TTL then MIN_CACHE_TTL else pr_ttl r);
     let body = hdr @ pr_question r @ [0] @ be16_bytes (pr_type r) @ be16_bytes (pr_class r) @ pr_response r;
     let cut = (if ttl > MAX_CACHE_TTL then MAX_CACHE_TTL else ttl);
     Some \<lparr>inserted = now, valid_until = now + ttl, cache_until = round_down_ttl (now + cut) cut, cd_timeout = ttl,
       cd_type = pr_type r, cd_answers = pr_answers r, data_len = 2 + length body,
       cd_data = len_prefix (length body) @ body\<rparr> }"

definition store_data :: "u16 \<Rightarrow> cache_data \<Rightarrow> cache_entry \<Rightarrow> cache_entry" where
  "store_data typ data e = (if typ = 1 then e\<lparr>ipv4 := Some data\<rparr> else e\<lparr>ipv6 := Some data\<rparr>)"

text \<open>The tail of \<^verbatim>\<open>cache_update\<close>, from the lookup of the entry; the flags say whether the allocations succeed.\<close>

definition cache_store ::
  "int \<Rightarrow> dns_cache \<Rightarrow> u8 list \<Rightarrow> nat \<Rightarrow> parse_result \<Rightarrow> bool \<Rightarrow> bool \<Rightarrow> (dns_cache \<times> int) option" where
  "cache_store now st msg offset r ok1 ok2 =
     (case map_of (case cache_tbl st of None \<Rightarrow> [] | Some t \<Rightarrow> t) (pr_question r) of
        None \<Rightarrow>
          if \<not> ok1 \<or> \<not> ok2 then Some (st, - ENOMEM)
          else do {
            data \<leftarrow> positive_data now msg offset r;
            let entry = store_data (pr_type r) data \<lparr>want_refresh = False, hits = 0, ipv4 = None, ipv6 = None\<rparr>;
            Some ((hash_update (pr_question r) entry st)\<lparr>cache_size := cache_size st + 1\<rparr>, 0) }
      | Some entry \<Rightarrow>
          if pr_type r = 1 \<and> ipv4 entry \<noteq> None then Some (st, 0)
          else if pr_type r = 28 \<and> ipv6 entry \<noteq> None then Some (st, 0)
          else if \<not> ok1 then Some (st, - ENOMEM)
          else do {
            data \<leftarrow> positive_data now msg offset r;
            Some (hash_update (pr_question r) (dec_hits (store_data (pr_type r) data entry)) st, 0) })"

text \<open>A refresh of the cache, at most twice a minute.\<close>

definition prepare_update :: "int \<Rightarrow> dns_cache \<Rightarrow> dns_cache option" where
  "prepare_update now st =
     (if next_refresh st < now
      then do { st \<leftarrow> cache_refresh now st; Some (st\<lparr>next_refresh := now + 30\<rparr>) } else Some st)"

definition cache_update ::
  "int \<Rightarrow> int \<Rightarrow> dns_cache \<Rightarrow> u8 list \<Rightarrow> nat \<Rightarrow> bool \<Rightarrow> bool \<Rightarrow> (dns_cache \<times> int) option" where
  "cache_update now protocol st msg msg_len ok1 ok2 =
     (let st = (if cache_size st \<ge> MAX_CACHE_SIZE then cache_cleanup now st else st) in
      if cache_size st \<ge> MAX_CACHE_SIZE then Some (st, 0)
      else do {
        st \<leftarrow> prepare_update now st;
        if protocol_offset protocol < 0 then Some (st, 0)
        else do {
          let offset = nat (protocol_offset protocol);
          flags \<leftarrow> byte_at msg (offset + 3);
          if hdr_rcode flags \<noteq> 0 then Some (st, 0)
          else do {
            let st = (if cache_tbl st = None then create_cache st else st);
            r \<leftarrow> parse_response (drop offset msg) (int msg_len - int offset) NS_MAXDNAME NS_MAXDNAME;
            qtype \<leftarrow> (if pr_err r = - ENOMSG \<or> pr_err r = - ENOBUFS
                     then reply_query_type (drop offset msg) (int msg_len - int offset) else Some 0);
            let known = map_of (case cache_tbl st of None \<Rightarrow> [] | Some t \<Rightarrow> t) (pr_question r);
            (case (if qtype = 28 then negative_entry known else None) of
               Some (entry, v4) \<Rightarrow>
                 if \<not> ok1 then Some (st, - ENOMEM)
                 else do {
                   ancount \<leftarrow> be16_at msg (offset + 6);
                   data \<leftarrow> negative_data protocol msg msg_len (pr_type r) ancount v4;
                   Some (hash_update (pr_question r) (dec_hits (entry\<lparr>ipv6 := Some data\<rparr>)) st, 0) }
             | None \<Rightarrow>
                 if pr_err r < 0 \<or> pr_ttl r = 0 then Some (st, 0)
                 else cache_store now st msg offset r ok1 ok2) } } })"

section \<open>Sending\<close>

text \<open>
  The header bits the proxy sets before it answers. The stored message is changed in place; the result is the
  buffer and the bytes given to \<^verbatim>\<open>sendto\<close>, if it is called.
\<close>

definition set_reply_hdr :: "u8 list \<Rightarrow> nat \<Rightarrow> u8 \<Rightarrow> u16 \<Rightarrow> u8 list option" where
  "set_reply_hdr buf h rcode ancount = do {
     f \<leftarrow> byte_at buf (h + 2);
     buf \<leftarrow> put_at (h + 2) [f OR 0x80] buf;
     g \<leftarrow> byte_at buf (h + 3);
     buf \<leftarrow> put_at (h + 3) [(g AND 0xf0) OR rcode] buf;
     put_at (h + 6) (be16_bytes ancount @ [0, 0, 0, 0]) buf }"

definition send_cached_response ::
  "u8 list \<Rightarrow> nat \<Rightarrow> int \<Rightarrow> u16 \<Rightarrow> u16 \<Rightarrow> int \<Rightarrow> (u8 list \<times> u8 list option) option" where
  "send_cached_response buf len protocol srcid answers ttl =
     (if protocol \<noteq> PROTO_UDP \<and> protocol \<noteq> PROTO_TCP then Some (buf, None)
      else
        let start = (if protocol = PROTO_UDP then 2 else 0) in
        if protocol = PROTO_TCP \<and> length buf < 2 then None
        else if int len - int start < 12 then Some (buf, None)
        else do {
          buf \<leftarrow> put_at 2 (le16_bytes srcid) buf;
          buf \<leftarrow> set_reply_hdr buf 2 0 answers;
          buf \<leftarrow> (if answers = 0 then do { f \<leftarrow> byte_at buf 4; put_at 4 [f OR 4] buf }
                  else update_cached_ttl buf 2 (int len - 2) ttl);
          sent \<leftarrow> bytes_at buf start (len - start);
          Some (buf, Some sent) })"

definition send_response :: "u8 list \<Rightarrow> int \<Rightarrow> int \<Rightarrow> (u8 list \<times> u8 list option) option" where
  "send_response buf len protocol =
     (if protocol_offset protocol < 0 then Some (buf, None)
      else if len < 12 then Some (buf, None)
      else do {
        buf \<leftarrow> set_reply_hdr buf (nat (protocol_offset protocol)) 2 0;
        sent \<leftarrow> bytes_at buf 0 (nat len);
        Some (buf, Some sent) })"

text \<open>
  The part of \<^verbatim>\<open>ns_resolv\<close> and \<^verbatim>\<open>read_tcp_data\<close> that answers from an entry found by \<^verbatim>\<open>cache_check\<close>: count the
  hit and send the data; \<open>sk\<close> says whether there is a socket to send from. The second component is \<open>None\<close>
  when the entry has no data of the type.
\<close>

definition cached_data :: "u16 \<Rightarrow> cache_entry \<Rightarrow> cache_data option" where
  "cached_data typ e = (if typ = 1 then ipv4 e else ipv6 e)"

definition serve_cached ::
  "int \<Rightarrow> dns_cache \<Rightarrow> u8 list \<Rightarrow> u16 \<Rightarrow> bool \<Rightarrow> int \<Rightarrow> u16 \<Rightarrow> (dns_cache \<times> u8 list option option) option" where
  "serve_cached now st key typ sk protocol srcid = do {
     t \<leftarrow> cache_tbl st;
     e \<leftarrow> map_of t key;
     (case cached_data typ e of
        None \<Rightarrow> Some (st, None)
      | Some d \<Rightarrow>
        let e = e\<lparr>hits := hits e + 1\<rparr> in
        if \<not> sk then Some (hash_update key e st, Some None)
        else do {
          (buf, sent) \<leftarrow> send_cached_response (cd_data d) (data_len d) protocol srcid (cd_answers d) (valid_until d - now);
          Some (hash_update key (store_data typ (d\<lparr>cd_data := buf\<rparr>) e) st, Some sent) }) }"

section \<open>Invariant\<close>

definition data_ok :: "cache_data \<Rightarrow> bool" where
  "data_ok d \<longleftrightarrow> data_len d = length (cd_data d) \<and> 14 \<le> data_len d \<and> cache_until d \<le> valid_until d \<and>
     cache_until d \<le> inserted d + MAX_CACHE_TTL \<and> MIN_CACHE_TTL \<le> cd_timeout d"

definition entry_ok :: "cache_entry \<Rightarrow> bool" where
  "entry_ok e \<longleftrightarrow> 0 \<le> hits e \<and> (\<forall>d. ipv4 e = Some d \<longrightarrow> data_ok d) \<and> (\<forall>d. ipv6 e = Some d \<longrightarrow> data_ok d)"

definition table_ok :: "cache_table \<Rightarrow> bool" where
  "table_ok t \<longleftrightarrow> distinct (map fst t) \<and> (\<forall>(k, e) \<in> set t. entry_ok e)"

definition cache_inv :: "dns_cache \<Rightarrow> bool" where
  "cache_inv st \<longleftrightarrow> 0 \<le> cache_refcount st \<and> (cache_tbl st = None \<longleftrightarrow> cache_refcount st = 0) \<and> cache_size st \<le> MAX_CACHE_SIZE \<and>
     (case cache_tbl st of None \<Rightarrow> cache_size st = 0 | Some t \<Rightarrow> cache_size st = int (length t) \<and> table_ok t)"

lemma cache_invI:
  assumes "cache_tbl st = Some t" "0 < cache_refcount st" "cache_size st = int (length t)" "length t \<le> 256" "table_ok t"
  shows "cache_inv st"
  using assms by (simp add: cache_inv_def)

lemma cache_invD:
  assumes "cache_inv st" "cache_tbl st = Some t"
  shows "0 < cache_refcount st" "cache_size st = int (length t)" "length t \<le> 256" "table_ok t"
  using assms by (auto simp: cache_inv_def)

lemma destroy_iter: "(cache_element_destroy ^^ n) (int m) = int (m - n)"
proof (induction n arbitrary: m)
  case 0
  then show ?case by simp
next
  case (Suc n)
  have "cache_element_destroy (int (m - n)) = int (m - Suc n)"
    by (cases "n < m") (auto simp: cache_element_destroy_def)
  then show ?case by (simp add: Suc.IH)
qed

lemma table_ok_entry: "table_ok t \<Longrightarrow> map_of t k = Some e \<Longrightarrow> entry_ok e"
  by (auto simp: table_ok_def dest!: map_of_SomeD)

lemma length_delete:
  assumes "distinct (map fst t)" "map_of t k \<noteq> None"
  shows "length (AList.delete k t) = length t - 1"
  using assms
proof (induction t)
  case Nil
  then show ?case by simp
next
  case (Cons x t)
  obtain k' e where x: "x = (k', e)" by (cases x)
  show ?case
  proof (cases "k' = k")
    case True
    with Cons.prems x have "k \<notin> fst ` set t" by simp
    then show ?thesis using x True by (simp add: delete_id)
  next
    case False
    with Cons x have "t \<noteq> []" by auto
    with Cons x False show ?thesis by auto
  qed
qed

lemma table_ok_delete: "table_ok t \<Longrightarrow> table_ok (AList.delete k t)"
  using distinct_delete [of t k] by (auto simp: table_ok_def AList.delete_eq)

lemma length_update: "length (AList.update k e t) = (if map_of t k = None then Suc (length t) else length t)"
  by (induction t) auto

lemma table_ok_update: "table_ok t \<Longrightarrow> entry_ok e \<Longrightarrow> table_ok (AList.update k e t)"
proof -
  assume t: "table_ok t" "entry_ok e"
  have "set (AList.update k e t) \<subseteq> insert (k, e) (set t)" by (induction t) auto
  with t show ?thesis by (auto simp: table_ok_def distinct_update)
qed

lemma hash_remove_inv: "cache_inv st \<Longrightarrow> cache_inv (hash_remove k st)"
proof -
  assume inv: "cache_inv st"
  show ?thesis
  proof (cases "cache_tbl st")
    case None
    with inv show ?thesis by (simp add: hash_remove_def)
  next
    case (Some t)
    note d = cache_invD [OF inv Some]
    show ?thesis
    proof (cases "map_of t k = None")
      case True
      with Some inv show ?thesis by (simp add: hash_remove_def)
    next
      case False
      have ld: "length (AList.delete k t) = length t - 1" using d(4) False by (intro length_delete) (simp_all add: table_ok_def)
      then have "cache_element_destroy (cache_size st) = int (length (AList.delete k t))"
        using d(2) destroy_iter [of 1 "length t"] by simp
      then show ?thesis
        using False Some d ld by (intro cache_invI [of _ "AList.delete k t"]) (auto simp: hash_remove_def table_ok_delete)
    qed
  qed
qed

lemma hash_update_inv:
  assumes "cache_inv st" "cache_tbl st = Some t" "map_of t k \<noteq> None" "entry_ok e"
  shows "cache_inv (hash_update k e st)"
  using cache_invD [OF assms(1,2)] assms(2-4)
  by (intro cache_invI [of _ "AList.update k e t"]) (auto simp: hash_update_def length_update table_ok_update)

lemma hash_insert_inv:
  assumes "cache_inv st" "cache_tbl st = Some t" "map_of t k = None" "entry_ok e" "cache_size st < MAX_CACHE_SIZE"
  shows "cache_inv ((hash_update k e st)\<lparr>cache_size := cache_size st + 1\<rparr>)"
  using cache_invD [OF assms(1,2)] assms(2-5)
  by (intro cache_invI [of _ "AList.update k e t"]) (simp_all add: hash_update_def length_update table_ok_update)

lemma create_cache_inv: "cache_inv st \<Longrightarrow> cache_inv (create_cache st)"
  by (cases "cache_tbl st") (auto simp: cache_inv_def create_cache_def Let_def table_ok_def)

lemma create_cache_Some: "cache_inv st \<Longrightarrow> \<exists>t. cache_tbl (create_cache st) = Some t"
  by (cases "cache_tbl st") (auto simp: cache_inv_def create_cache_def Let_def)

lemma try_remove_cache_inv: "cache_inv st \<Longrightarrow> cache_tbl st \<noteq> None \<Longrightarrow> cache_inv (try_remove_cache st)"
  by (auto simp: cache_inv_def try_remove_cache_def Let_def destroy_iter split: option.splits)

lemma enforce_ok: "entry_ok e \<Longrightarrow> entry_ok (cache_enforce_validity now e)"
  by (auto simp: cache_enforce_validity_def entry_ok_def Let_def)

lemma validity_ok: "entry_ok e \<Longrightarrow> entry_ok (snd (cache_check_validity now typ e))"
  using enforce_ok [of e now] by (auto simp: cache_check_validity_def Let_def entry_ok_def)

lemma cache_check_inv:
  assumes "cache_inv st" "cache_check now st request proto = Some (st', r)"
  shows "cache_inv st'"
proof -
  have upd: "cache_inv (hash_update q e st)"
    if "cache_tbl st = Some t" "map_of t q = Some e0" "cache_check_validity now ty e0 = (ty', e)" for t q e0 ty ty' e
  proof (rule hash_update_inv [OF assms(1) that(1)])
    show "entry_ok e" using validity_ok [OF table_ok_entry [OF cache_invD(4) [OF assms(1) that(1)] that(2)]] that(3) by (metis snd_conv)
  qed (use that in simp)
  show ?thesis
    using assms upd hash_remove_inv [OF assms(1)] create_cache_inv [OF assms(1)]
    by (auto simp: cache_check_def Let_def split: option.splits bind_splits if_splits prod.splits)
qed

lemma check_entry_ok: "entry_ok e \<Longrightarrow> entry_ok (fst (snd (cache_check_entry now th mx e)))"
  by (auto simp: cache_check_entry_def entry_ok_def Let_def split: prod.splits)

lemma cache_sweep_ok:
  "cache_sweep now th mx t = (t', mx', n) \<Longrightarrow> table_ok t \<Longrightarrow>
     table_ok t' \<and> length t' + n = length t \<and> fst ` set t' \<subseteq> fst ` set t"
proof (induction t arbitrary: t' mx mx' n)
  case Nil
  then show ?case by (simp add: table_ok_def)
next
  case (Cons x t)
  obtain k e where x: "x = (k, e)" by (cases x)
  obtain rm e' m1 where ce: "cache_check_entry now th mx e = (rm, e', m1)" by (cases "cache_check_entry now th mx e") auto
  obtain t1 m2 n1 where sw: "cache_sweep now th m1 t = (t1, m2, n1)" by (cases "cache_sweep now th m1 t") auto
  have t: "table_ok t" "entry_ok e" "k \<notin> fst ` set t" using Cons.prems(2) x by (auto simp: table_ok_def)
  have IH: "table_ok t1" "length t1 + n1 = length t" "fst ` set t1 \<subseteq> fst ` set t" using Cons.IH [OF sw t(1)] by auto
  have "entry_ok e'" using check_entry_ok [OF t(2), of now th mx] ce by simp
  have k: "k \<notin> fst ` set t1" using IH(3) t(3) by blast
  show ?case
  proof (cases rm)
    case True
    then have "t' = t1" "n = n1 + 1" using Cons.prems(1) x ce sw by simp_all
    then show ?thesis using IH x by auto
  next
    case False
    then have "t' = (k, e') # t1" "n = n1" using Cons.prems(1) x ce sw by simp_all
    then show ?thesis using IH k x \<open>entry_ok e'\<close> by (simp add: table_ok_def) blast
  qed
qed

lemma cache_cleanup_inv: "cache_inv st \<Longrightarrow> cache_inv (cache_cleanup now st)"
proof -
  assume inv: "cache_inv st"
  show ?thesis
  proof (cases "cache_tbl st")
    case None
    with inv show ?thesis by (simp add: cache_cleanup_def cache_inv_def)
  next
    case (Some t)
    note d = cache_invD [OF inv Some]
    obtain t1 m1 n1 where 1: "(if max_timeout st \<le> now then cache_sweep now False 0 t else (t, 0, 0)) = (t1, m1, n1)"
      by (cases "if max_timeout st \<le> now then cache_sweep now False 0 t else (t, 0, 0)") auto
    have t1: "table_ok t1" "length t1 + n1 = length t" using 1 d(4) cache_sweep_ok by (auto split: if_splits)
    obtain t2 m2 n2 where 2: "(if n1 = 0 then cache_sweep now True m1 t1 else (t1, m1, n1)) = (t2, m2, n2)"
      by (cases "if n1 = 0 then cache_sweep now True m1 t1 else (t1, m1, n1)") auto
    have t2: "table_ok t2" "length t2 + n2 = length t"
      using 2 t1 cache_sweep_ok [OF _ t1(1), of now True m1] by (auto split: if_splits)
    have "(cache_element_destroy ^^ n2) (cache_size st) = int (length t2)" using d(2) t2(2) destroy_iter [of n2 "length t"] by simp
    then show ?thesis
      using d t2 by (intro cache_invI [of _ t2]) (auto simp: cache_cleanup_def Some 1 2 simp del: of_nat_diff)
  qed
qed

lemma invalidate_entry_ok: "entry_ok e \<Longrightarrow> entry_ok (snd (cache_invalidate_entry now e))"
  using enforce_ok [of e now] by (auto simp: cache_invalidate_entry_def entry_ok_def Let_def)

lemma cache_invalidate_inv: "cache_inv st \<Longrightarrow> cache_inv (cache_invalidate now st)"
proof -
  assume inv: "cache_inv st"
  show ?thesis
  proof (cases "cache_tbl st")
    case None
    with inv show ?thesis by (simp add: cache_invalidate_def)
  next
    case (Some t)
    note d = cache_invD [OF inv Some]
    let ?f = "filter (\<lambda>(k, e). \<not> fst (cache_invalidate_entry now e)) t"
    let ?t = "map (\<lambda>(k, e). (k, snd (cache_invalidate_entry now e))) ?f"
    have "map fst ?t = map fst ?f" by (simp add: case_prod_beta)
    then have "distinct (map fst ?t)" using d(4) by (simp only: table_ok_def distinct_map_filter)
    then have ok: "table_ok ?t" using d(4) invalidate_entry_ok by (auto simp: table_ok_def)
    have le: "length ?f \<le> 256" by (rule order_trans [OF length_filter_le d(3)])
    have "(cache_element_destroy ^^ (length t - length ?t)) (cache_size st) = int (length ?t)"
      using d(2) destroy_iter [of "length t - length ?t" "length t"] by simp
    then show ?thesis
      using d ok le by (intro cache_invI [of _ ?t]) (simp_all add: cache_invalidate_def Some Let_def)
  qed
qed

lemma refresh_entry_ok: "entry_ok e \<Longrightarrow> cache_refresh_entry now k e acts = Some (e', acts') \<Longrightarrow> entry_ok e'"
  using enforce_ok [of e now]
  by (auto simp: cache_refresh_entry_def refresh_dns_entry_def Let_def entry_ok_def split: bind_splits if_splits)

lemma refresh_all_ok:
  "cache_refresh_all now t acts = Some (t', acts') \<Longrightarrow> table_ok t \<Longrightarrow> table_ok t' \<and> map fst t' = map fst t"
proof (induction t arbitrary: acts t' acts')
  case Nil
  then show ?case by simp
next
  case (Cons x t)
  obtain k e where x: "x = (k, e)" by (cases x)
  from Cons.prems(1) x obtain e1 a1 t1 where s: "cache_refresh_entry now k e acts = Some (e1, a1)"
    "cache_refresh_all now t a1 = Some (t1, acts')" "t' = (k, e1) # t1"
    by (auto split: bind_splits)
  have t: "table_ok t" "entry_ok e" using Cons.prems(2) x by (auto simp: table_ok_def)
  have k: "k \<notin> set (map fst t)" using Cons.prems(2) x by (simp add: table_ok_def)
  have IH: "table_ok t1" "map fst t1 = map fst t" using Cons.IH [OF s(2) t(1)] by simp_all
  show ?case using refresh_entry_ok [OF t(2) s(1)] IH k x s(3) by (simp add: table_ok_def)
qed

lemma cache_refresh_inv: "cache_inv st \<Longrightarrow> cache_refresh now st = Some st' \<Longrightarrow> cache_inv st'"
proof -
  assume inv: "cache_inv st" and r: "cache_refresh now st = Some st'"
  show ?thesis
  proof (cases "cache_tbl st")
    case None
    with inv r show ?thesis by (simp add: cache_refresh_def)
  next
    case (Some t)
    note d = cache_invD [OF inv Some]
    from r Some obtain t' acts where t': "cache_refresh_all now t (lookups st) = Some (t', acts)"
      "st' = st\<lparr>cache_tbl := Some t', lookups := acts\<rparr>"
      by (auto simp: cache_refresh_def split: bind_splits)
    note ok = refresh_all_ok [OF t'(1) d(4)]
    then have "length t' = length t" by (metis length_map)
    then show ?thesis using d ok t'(2) by (intro cache_invI [of _ t']) simp_all
  qed
qed

lemma round_down_ttl_le: "round_down_ttl x ttl \<le> x"
proof -
  have "x div 10 * 10 \<le> x" "x div 30 * 30 \<le> x" by (simp_all add: minus_mod_eq_div_mult [symmetric])
  then show ?thesis by (simp add: round_down_ttl_def)
qed

lemma length_len_prefix [simp]: "length (len_prefix n) = 2"
  by (simp add: len_prefix_def)

lemma positive_data_ok:
  assumes "positive_data now msg offset r = Some d"
  shows "data_ok d"
proof -
  define ttl where "ttl = (if pr_ttl r < MIN_CACHE_TTL then MIN_CACHE_TTL else pr_ttl r)"
  define cut where "cut = (if ttl > MAX_CACHE_TTL then MAX_CACHE_TTL else ttl)"
  have c: "cut \<le> ttl" "cut \<le> MAX_CACHE_TTL" "MIN_CACHE_TTL \<le> ttl" by (auto simp: cut_def ttl_def)
  obtain hdr where h: "bytes_at msg offset 12 = Some hdr" using assms by (auto simp: positive_data_def split: bind_splits)
  have "round_down_ttl (now + cut) cut \<le> now + ttl" "round_down_ttl (now + cut) cut \<le> now + MAX_CACHE_TTL"
    using round_down_ttl_le [of "now + cut" cut] c by linarith+
  then show ?thesis
    using assms c(3) bytes_at_length [OF h]
    by (auto simp: positive_data_def h Let_def ttl_def [symmetric] cut_def [symmetric] data_ok_def)
qed

lemma negative_data_ok:
  "negative_data protocol msg len ty ac v4 = Some d \<Longrightarrow> data_ok v4 \<Longrightarrow> 12 \<le> int len - protocol_offset protocol \<Longrightarrow>
     0 \<le> protocol_offset protocol \<Longrightarrow> data_ok d"
  by (auto simp: negative_data_def data_ok_def Let_def protocol_offset_def dest!: bytes_at_length split: bind_splits if_splits)

lemma parse_response_short: "parse_response buf mx a b = Some r \<Longrightarrow> mx < 12 \<Longrightarrow> pr_err r = - EINVAL"
  by (auto simp: parse_response_def Let_def split: bind_splits if_splits)

lemma dec_hits_ok: "entry_ok e \<Longrightarrow> entry_ok (dec_hits e)"
  by (simp add: dec_hits_def entry_ok_def)

lemma store_data_ok: "entry_ok e \<Longrightarrow> data_ok d \<Longrightarrow> entry_ok (store_data ty d e)"
  by (auto simp: store_data_def entry_ok_def)

lemma cache_store_inv:
  assumes "cache_inv st" "cache_tbl st = Some t" "cache_size st < MAX_CACHE_SIZE"
    and "cache_store now st msg offset r ok1 ok2 = Some (st', ret)"
  shows "cache_inv st'"
proof (cases "map_of t (pr_question r)")
  case None
  let ?e = "\<lparr>want_refresh = False, hits = 0, ipv4 = None, ipv6 = None\<rparr>"
  have new: "cache_inv ((hash_update (pr_question r) (store_data (pr_type r) d ?e) st)\<lparr>cache_size := cache_size st + 1\<rparr>)"
    if "positive_data now msg offset r = Some d" for d
    by (rule hash_insert_inv [OF assms(1,2) None _ assms(3)])
      (rule store_data_ok [OF _ positive_data_ok [OF that]], simp add: entry_ok_def)
  show ?thesis
    using assms(1,2,4) None new by (auto simp: cache_store_def Let_def split: bind_splits if_splits)
next
  case (Some e)
  have old: "cache_inv (hash_update (pr_question r) (dec_hits (store_data (pr_type r) d e)) st)"
    if "positive_data now msg offset r = Some d" for d
  proof (rule hash_update_inv [OF assms(1,2)])
    show "entry_ok (dec_hits (store_data (pr_type r) d e))"
      using table_ok_entry [OF cache_invD(4) [OF assms(1,2)] Some] positive_data_ok [OF that] by (intro dec_hits_ok store_data_ok)
  qed (use Some in simp)
  show ?thesis
    using assms(1,2,4) Some old by (auto simp: cache_store_def Let_def split: bind_splits if_splits)
qed

lemma cache_inv_next [simp]: "cache_inv (st\<lparr>next_refresh := x\<rparr>) = cache_inv st"
  by (simp add: cache_inv_def split: option.split)

lemma refresh_size: "cache_refresh now st = Some st' \<Longrightarrow> cache_size st' = cache_size st"
  by (auto simp: cache_refresh_def split: option.splits bind_splits)

lemma prepare_update_inv:
  "cache_inv st \<Longrightarrow> prepare_update now st = Some st' \<Longrightarrow> cache_inv st' \<and> cache_size st' = cache_size st"
  by (auto simp: prepare_update_def refresh_size dest: cache_refresh_inv split: bind_splits if_splits)

text \<open>The operations of the cache other than its removal keep the table.\<close>

lemma create_cache_tbl: "cache_tbl c \<noteq> None \<Longrightarrow> cache_tbl (create_cache c) \<noteq> None"
  by (simp add: create_cache_def Let_def)

lemma hash_remove_tbl: "(\<exists>t. cache_tbl (hash_remove k c) = Some t) \<longleftrightarrow> (\<exists>t. cache_tbl c = Some t)"
  by (auto simp: hash_remove_def split: option.splits)

lemma hash_update_tbl: "(\<exists>t. cache_tbl (hash_update k e c) = Some t) \<longleftrightarrow> (\<exists>t. cache_tbl c = Some t)"
  by (auto simp: hash_update_def split: option.splits)

lemma cache_check_tbl: "cache_check now c req p = Some (c', hit) \<Longrightarrow> cache_tbl c \<noteq> None \<Longrightarrow> cache_tbl c' \<noteq> None"
  by (auto simp: cache_check_def Let_def hash_remove_tbl hash_update_tbl split: option.splits bind_splits if_splits prod.splits)

lemma serve_cached_tbl: "serve_cached now c key ty sk p i = Some (c', r) \<Longrightarrow> cache_tbl c \<noteq> None \<Longrightarrow> cache_tbl c' \<noteq> None"
  by (auto simp: serve_cached_def Let_def hash_update_tbl split: option.splits bind_splits if_splits)

lemma cache_invalidate_tbl: "cache_tbl c \<noteq> None \<Longrightarrow> cache_tbl (cache_invalidate now c) \<noteq> None"
  by (auto simp: cache_invalidate_def Let_def split: option.splits prod.splits)

lemma cache_refresh_tbl: "cache_refresh now c = Some c' \<Longrightarrow> cache_tbl c \<noteq> None \<Longrightarrow> cache_tbl c' \<noteq> None"
  by (auto simp: cache_refresh_def split: option.splits bind_splits)

lemma cache_cleanup_tbl: "cache_tbl c \<noteq> None \<Longrightarrow> cache_tbl (cache_cleanup now c) \<noteq> None"
  by (auto simp: cache_cleanup_def Let_def split: option.splits prod.splits)

lemma cache_store_tbl: "cache_store now c msg off r ok1 ok2 = Some (c', ret) \<Longrightarrow> cache_tbl c \<noteq> None \<Longrightarrow> cache_tbl c' \<noteq> None"
  by (auto simp: cache_store_def Let_def hash_update_tbl split: option.splits bind_splits if_splits)

lemma prepare_update_tbl: "prepare_update now c = Some c' \<Longrightarrow> cache_tbl c \<noteq> None \<Longrightarrow> cache_tbl c' \<noteq> None"
  using cache_refresh_tbl by (auto simp: prepare_update_def split: bind_splits if_splits)

lemma cache_update_cases:
  assumes "cache_update now protocol st msg len ok1 ok2 = Some (st', ret)" "cache_inv st"
  obtains (stop) "cache_inv st'" "cache_tbl st \<noteq> None \<longrightarrow> cache_tbl st' \<noteq> None"
  | (neg) st0 t and r :: parse_result and e v4 d where "cache_inv st0" "cache_tbl st0 = Some t" "map_of t (pr_question r) = Some e" "ipv4 e = Some v4"
      "data_ok d" "st' = hash_update (pr_question r) (dec_hits (e\<lparr>ipv6 := Some d\<rparr>)) st0"
  | (pos) st0 t r where "cache_inv st0" "cache_tbl st0 = Some t" "cache_size st0 < MAX_CACHE_SIZE"
      "cache_store now st0 msg (nat (protocol_offset protocol)) r ok1 ok2 = Some (st', ret)"
proof -
  define s1 where "s1 = (if cache_size st \<ge> MAX_CACHE_SIZE then cache_cleanup now st else st)"
  have i1: "cache_inv s1" using assms(2) cache_cleanup_inv by (simp add: s1_def)
  have t1: "cache_tbl st \<noteq> None \<longrightarrow> cache_tbl s1 \<noteq> None" using cache_cleanup_tbl [of st now] by (simp add: s1_def)
  let ?off = "nat (protocol_offset protocol)"
  note upd = assms(1) [unfolded cache_update_def Let_def, folded s1_def]
  show thesis
  proof (cases "cache_size s1 \<ge> MAX_CACHE_SIZE")
    case True
    then have "st' = s1" using upd by simp
    then show thesis using i1 t1 stop by blast
  next
    case room: False
    obtain s2 where s2: "prepare_update now s1 = Some s2" using upd room by (auto split: bind_splits)
    have i2: "cache_inv s2" "cache_size s2 < MAX_CACHE_SIZE" using prepare_update_inv [OF i1 s2] room by auto
    have t2: "cache_tbl st \<noteq> None \<longrightarrow> cache_tbl s2 \<noteq> None" using t1 prepare_update_tbl [OF s2] by blast
    show thesis
    proof (cases "protocol_offset protocol < 0")
      case True
      then have "st' = s2" using upd room s2 by simp
      then show thesis using i2 t2 stop by blast
    next
      case off: False
      obtain f where f: "byte_at msg (?off + 3) = Some f" using upd room s2 off by (auto split: bind_splits)
      show thesis
      proof (cases "hdr_rcode f = 0")
        case False
        then have "st' = s2" using upd room s2 off f by simp
        then show thesis using i2 t2 stop by blast
      next
        case rc: True
        define s3 where "s3 = (if cache_tbl s2 = None then create_cache s2 else s2)"
        have i3: "cache_inv s3" "cache_size s3 < MAX_CACHE_SIZE"
          using i2 create_cache_inv [OF i2(1)] by (auto simp: s3_def create_cache_def Let_def)
        have "cache_tbl s3 \<noteq> None" using create_cache_Some [OF i2(1)] by (auto simp: s3_def)
        then obtain t where t: "cache_tbl s3 = Some t" by blast
        note upd = upd [unfolded s2 bind.bind_lunit, folded s3_def]
        obtain r where r: "parse_response (drop ?off msg) (int len - int ?off) NS_MAXDNAME NS_MAXDNAME = Some r"
          using upd room off f rc by (auto split: bind_splits)
        obtain qt where qt: "(if pr_err r = - ENOMSG \<or> pr_err r = - ENOBUFS
           then reply_query_type (drop ?off msg) (int len - int ?off) else Some 0) = Some qt"
          using upd room off f rc r by (auto split: bind_splits)
        note upd = upd [unfolded r bind.bind_lunit qt t option.case]
        show thesis
        proof (cases "if qt = 28 then negative_entry (map_of t (pr_question r)) else None")
          case None
          then show thesis
            using upd room off f rc i3 t pos [OF i3(1) t i3(2)] stop by (auto split: if_splits)
        next
          case (Some ev)
          obtain e v4 where ev: "ev = (e, v4)" by (cases ev)
          have e: "map_of t (pr_question r) = Some e" "ipv4 e = Some v4" "qt = 28"
            using Some ev by (auto simp: negative_entry_def split: option.splits if_splits)
          have "pr_err r = - ENOMSG \<or> pr_err r = - ENOBUFS" using qt e(3) by (auto split: if_splits)
          then have "\<not> int len - int ?off < 12" using parse_response_short [OF r] by fastforce
          then have d: "data_ok d" if "negative_data protocol msg len (pr_type r) ac v4 = Some d" for d ac
            using negative_data_ok [OF that] off e(2) table_ok_entry [OF cache_invD(4) [OF i3(1) t] e(1)]
            by (simp add: entry_ok_def)
          show thesis
          proof (cases ok1)
            case False
            then have "st' = s3" using upd room off f rc Some ev by simp
            then show thesis using i3 t stop by blast
          next
            case True
            then obtain ac x where "negative_data protocol msg len (pr_type r) ac v4 = Some x"
              "st' = hash_update (pr_question r) (dec_hits (e\<lparr>ipv6 := Some x\<rparr>)) s3"
              using upd room off f rc Some ev by (auto split: bind_splits)
            then show thesis using neg [OF i3(1) t e(1,2)] d by blast
          qed
        qed
      qed
    qed
  qed
qed

lemma cache_update_inv:
  assumes "cache_update now protocol st msg len ok1 ok2 = Some (st', ret)" "cache_inv st"
  shows "cache_inv st'"
  using assms
proof (cases rule: cache_update_cases)
  case (neg st0 t r e v4 d)
  have "entry_ok e" by (rule table_ok_entry [OF cache_invD(4) [OF neg(1,2)] neg(3)])
  with neg(5) have "entry_ok (dec_hits (e\<lparr>ipv6 := Some d\<rparr>))" by (intro dec_hits_ok) (simp add: entry_ok_def)
  then show ?thesis using hash_update_inv [OF neg(1,2)] neg(3,6) by simp
next
  case (pos st0 t r)
  then show ?thesis by (rule cache_store_inv)
qed

lemma cache_update_tbl:
  assumes "cache_update now p c msg len ok1 ok2 = Some (c', ret)" "cache_inv c" "cache_tbl c \<noteq> None"
  shows "cache_tbl c' \<noteq> None"
  using assms(1,2)
proof (cases rule: cache_update_cases)
  case (neg st0 t r e v4 d)
  then show ?thesis by (simp add: hash_update_def)
next
  case (pos st0 t r)
  then show ?thesis using cache_store_tbl by blast
qed (use assms(3) in blast)

lemma put_at_length: "put_at p bs m = Some m' \<Longrightarrow> length m' = length m"
  by (auto simp: put_at_def split: if_splits)

lemma ttl_loop_length: "ttl_loop buf c len t = Some buf' \<Longrightarrow> length buf' = length buf"
proof (induction buf c len t rule: ttl_loop.induct)
  case (1 buf c len t)
  show ?case
    using 1(2) 1(1) put_at_length
    by (subst (asm) ttl_loop.simps) (fastforce split: if_splits option.splits)
qed

lemma set_reply_hdr_length: "set_reply_hdr buf h rc ac = Some buf' \<Longrightarrow> length buf' = length buf"
  by (auto simp: set_reply_hdr_def dest!: put_at_length split: bind_splits)

lemma send_cached_length: "send_cached_response buf len p i a t = Some (buf', sent) \<Longrightarrow> length buf' = length buf"
  by (auto simp: send_cached_response_def update_cached_ttl_def Let_def dest!: put_at_length ttl_loop_length set_reply_hdr_length
      split: bind_splits if_splits)

lemma serve_cached_inv:
  assumes "cache_inv st" "serve_cached now st key ty sk protocol srcid = Some (st', r)"
  shows "cache_inv st'"
proof -
  obtain t e where te: "cache_tbl st = Some t" "map_of t key = Some e" using assms(2) by (auto simp: serve_cached_def split: bind_splits)
  have eok: "entry_ok e" by (rule table_ok_entry [OF cache_invD(4) [OF assms(1) te(1)] te(2)])
  have upd: "entry_ok e' \<Longrightarrow> cache_inv (hash_update key e' st)" for e'
    by (rule hash_update_inv [OF assms(1) te(1)]) (use te in simp_all)
  show ?thesis
  proof (cases "cached_data ty e")
    case None
    then show ?thesis using assms te by (simp add: serve_cached_def)
  next
    case (Some d)
    have dok: "data_ok d" using eok Some by (auto simp: entry_ok_def cached_data_def split: if_splits)
    have h: "entry_ok (e\<lparr>hits := hits e + 1\<rparr>)" using eok by (simp add: entry_ok_def)
    have "data_ok (d\<lparr>cd_data := buf\<rparr>)" if "length buf = length (cd_data d)" for buf
      using dok that by (simp add: data_ok_def)
    then show ?thesis
      using assms(2) te Some upd [OF h] upd [OF store_data_ok [OF h]]
      by (auto simp: serve_cached_def Let_def dest!: send_cached_length split: if_splits bind_splits)
  qed
qed

section \<open>Reachable states\<close>

definition cache_zero :: dns_cache where
  "cache_zero = \<lparr>cache_size = 0, cache_tbl = None, cache_refcount = 0, next_refresh = 0, max_timeout = 0, lookups = []\<rparr>"

inductive cache_reach :: "dns_cache \<Rightarrow> bool" where
  start: "cache_reach cache_zero"
| create: "cache_reach st \<Longrightarrow> cache_reach (create_cache st)"
| remove: "cache_reach st \<Longrightarrow> cache_tbl st \<noteq> None \<Longrightarrow> cache_reach (try_remove_cache st)"
| check: "cache_reach st \<Longrightarrow> cache_check now st request proto = Some (st', r) \<Longrightarrow> cache_reach st'"
| serve: "cache_reach st \<Longrightarrow> serve_cached now st key ty sk proto srcid = Some (st', s) \<Longrightarrow> cache_reach st'"
| update: "cache_reach st \<Longrightarrow> cache_update now proto st msg len ok1 ok2 = Some (st', ret) \<Longrightarrow> cache_reach st'"
| invalidate: "cache_reach st \<Longrightarrow> cache_reach (cache_invalidate now st)"
| refresh: "cache_reach st \<Longrightarrow> cache_refresh now st = Some st' \<Longrightarrow> cache_reach st'"

lemma cache_reach_inv: "cache_reach st \<Longrightarrow> cache_inv st"
proof (induction rule: cache_reach.induct)
  case start
  show ?case by (simp add: cache_inv_def cache_zero_def)
qed (blast intro: create_cache_inv try_remove_cache_inv cache_check_inv serve_cached_inv cache_update_inv
    cache_invalidate_inv cache_refresh_inv)+

section \<open>Life time and lookup\<close>

definition cut_ttl :: "int \<Rightarrow> int" where
  "cut_ttl ttl = min MAX_CACHE_TTL (max MIN_CACHE_TTL ttl)"

definition expiry :: "int \<Rightarrow> int \<Rightarrow> int" where
  "expiry now ttl = round_down_ttl (now + cut_ttl ttl) (cut_ttl ttl)"

lemma positive_data_fields:
  assumes "positive_data now msg offset r = Some d"
  shows "inserted d = now" "valid_until d = now + max MIN_CACHE_TTL (pr_ttl r)" "cache_until d = expiry now (pr_ttl r)"
    "cd_answers d = pr_answers r" "cd_type d = pr_type r"
  using assms by (auto simp: positive_data_def Let_def expiry_def cut_ttl_def split: bind_splits)

lemma round_down_ttl_gt: "30 \<le> ttl \<Longrightarrow> now < round_down_ttl (now + ttl) ttl"
proof -
  assume t: "30 \<le> ttl"
  have "now + ttl - (now + ttl) mod 10 = (now + ttl) div 10 * 10" "now + ttl - (now + ttl) mod 30 = (now + ttl) div 30 * 30"
    by (simp_all only: minus_mod_eq_div_mult)
  moreover have "(now + ttl) mod 10 < 10" "(now + ttl) mod 30 < 30" by simp_all
  ultimately show ?thesis using t unfolding round_down_ttl_def by (auto simp only: split: if_splits; linarith)
qed

lemma enforce_valid:
  "ipv4 (cache_enforce_validity now e) = (if cache_check_is_valid (ipv4 e) now then ipv4 e else None)"
  "ipv6 (cache_enforce_validity now e) = (if cache_check_is_valid (ipv6 e) now then ipv6 e else None)"
  "hits (cache_enforce_validity now e) = hits e"
  by (auto simp: cache_enforce_validity_def Let_def cache_check_is_valid_def split: option.splits)

lemma validity_data:
  "ipv4 (snd (cache_check_validity now ty e)) = ipv4 (cache_enforce_validity now e)"
  "ipv6 (snd (cache_check_validity now ty e)) = ipv6 (cache_enforce_validity now e)"
  by (auto simp: cache_check_validity_def Let_def)

lemma map_of_hash_update: "cache_tbl st = Some t \<Longrightarrow>
  \<exists>t'. cache_tbl (hash_update k e st) = Some t' \<and> map_of t' = (map_of t)(k \<mapsto> e)"
  by (simp add: hash_update_def update_conv')

lemma cache_check_hit:
  assumes "cache_check now st (Some req) proto = Some (st', Some (ty, key))"
  obtains t e where "cache_tbl st = Some t" "map_of t key = Some e" "cache_check_validity now ty e = (ty, snd (cache_check_validity now ty e))"
    "st' = hash_update key (snd (cache_check_validity now ty e)) st" "0 \<le> protocol_offset proto"
    "cstr_at req (nat (protocol_offset proto) + 12) = Some key"
    "be16_at req (nat (protocol_offset proto) + 12 + length key + 1) = Some ty" "ty = 1 \<or> ty = 28"
proof -
  obtain q t0 where q: "cstr_at req (nat (protocol_offset proto) + 12) = Some q" "0 \<le> protocol_offset proto"
    "be16_at req (nat (protocol_offset proto) + 12 + length q + 1) = Some t0" "t0 = 1 \<or> t0 = 28"
    using assms by (auto simp: cache_check_def Let_def split: bind_splits if_splits)
  obtain t e where te: "cache_tbl st = Some t" "map_of t q = Some e"
    using assms q by (auto simp: cache_check_def Let_def split: option.splits if_splits)
  have ty: "fst (cache_check_validity now t0 e) = 0 \<or> fst (cache_check_validity now t0 e) = t0"
    by (auto simp: cache_check_validity_def Let_def)
  have "ty = t0" "key = q" "st' = hash_update q (snd (cache_check_validity now t0 e)) st" "fst (cache_check_validity now t0 e) = t0"
    using assms q te ty by (auto simp: cache_check_def Let_def split: prod.splits if_splits)
  then show thesis using that [OF te(1)] te q by (metis prod.collapse)
qed

section \<open>Answering from the cache\<close>

lemma list12: "length h = 12 \<Longrightarrow> \<exists>a b c d e f g i j k l m. h = [a, b, c, d, e, f, g, i, j, k, l, m]"
  by (auto simp: length_Suc_conv numeral_eq_Suc)

definition reply_bits :: "u8 list \<Rightarrow> u16 \<Rightarrow> u16 \<Rightarrow> u8 list" where
  "reply_bits h srcid n = le16_bytes srcid @ [h ! 2 OR 0x80, h ! 3 AND 0xf0, h ! 4, h ! 5] @ be16_bytes n @ [0, 0, 0, 0]"

lemma length_reply_bits [simp]: "length (reply_bits h i n) = 12"
  by (simp add: reply_bits_def)

lemma set_hdr_bits:
  assumes "length p = 2" "length h = 12"
  shows "do { b \<leftarrow> put_at 2 (le16_bytes srcid) (p @ h @ rest); set_reply_hdr b 2 0 n } = Some (p @ reply_bits h srcid n @ rest)"
proof -
  obtain p0 p1 where p: "p = [p0, p1]" using assms(1) by (auto simp: length_Suc_conv numeral_2_eq_2)
  obtain a b c d e f g i j k l m where h: "h = [a, b, c, d, e, f, g, i, j, k, l, m]" using list12 [OF assms(2)] by blast
  show ?thesis
    by (simp add: p h put_at_def mem_write_def set_reply_hdr_def byte_at_def le16_bytes_def be16_bytes_def reply_bits_def)
qed

lemma send_cached_positive:
  assumes "length p = 2" "length h = 12" "0 \<notin> set q" "q \<noteq> []" "\<not> compressed (hd q)" "n \<noteq> 0"
    and "\<forall>a \<in> set as. length (an_rdata a) < 65536"
    and buf: "buf = p @ h @ q @ 0 # be16_bytes t @ be16_bytes c @ cached_rrs as"
    and out: "out = reply_bits h srcid n @ q @ 0 # be16_bytes t @ be16_bytes c @ cached_rrs (map (\<lambda>a. a\<lparr>an_ttl := word_of_int ttl\<rparr>) as)"
  shows "send_cached_response buf (length buf) PROTO_UDP srcid n ttl = Some (p @ out, Some out)"
proof -
  let ?tail = "q @ 0 # be16_bytes t @ be16_bytes c @ cached_rrs as"
  let ?pre = "p @ reply_bits h srcid n @ q @ 0 # be16_bytes t @ be16_bytes c"
  let ?b = "p @ reply_bits h srcid n @ ?tail"
  have s: "do { b \<leftarrow> put_at 2 (le16_bytes srcid) buf; set_reply_hdr b 2 0 n } = Some ?b"
    unfolding buf using set_hdr_bits [OF assms(1,2)] by simp
  then obtain b1 where b1: "put_at 2 (le16_bytes srcid) buf = Some b1" "set_reply_hdr b1 2 0 n = Some ?b"
    by (auto split: bind_splits)
  have "byte_at ?b 14 = Some (hd q)"
    using assms(1,4) by (cases q) (simp_all add: byte_at_def nth_append)
  moreover have "cstr_at ?b 14 = Some q"
    using cstr_at_append [OF assms(3), of "p @ reply_bits h srcid n" "be16_bytes t @ be16_bytes c @ cached_rrs as"] assms(1) by simp
  ultimately have l: "dns_name_length ?b 14 = Some (length q + 1)" using assms(5) by (simp add: dns_name_length_def)
  have "?b = ?pre @ cached_rrs as @ []" by simp
  moreover have "2 + 12 + (length q + 1) + 4 = length ?pre" using assms(1) by simp
  moreover have "int (length buf) - 2 - 12 - int (length q + 1) - 4 = int (length (cached_rrs as))"
    using assms(1,2) by (simp add: buf)
  ultimately have u: "update_cached_ttl ?b 2 (int (length buf) - 2) ttl = Some (p @ out)"
    using ttl_loop_cached [OF assms(7), of ?pre "[]" ttl] l
    unfolding update_cached_ttl_def out by simp
  have o: "bytes_at (p @ out) 2 (length buf - 2) = Some out"
  proof -
    have "length (cached_rrs (map (\<lambda>a. a\<lparr>an_ttl := word_of_int ttl\<rparr>) as)) = length (cached_rrs as)"
      by (induction as) simp_all
    then show ?thesis using assms(1,2) by (simp add: bytes_at_def out buf)
  qed
  have "14 \<le> length buf" using assms(1,2) by (simp add: buf)
  then show ?thesis
    using assms(6) u o by (simp add: send_cached_response_def b1)
qed

text \<open>A reply whose records the proxy can cache: the conditions of the parser, and a last answer of the question's type.\<close>

definition cacheable :: "u8 list \<Rightarrow> u8 list list \<Rightarrow> u16 \<Rightarrow> u16 \<Rightarrow> answer list \<Rightarrow> u8 list \<Rightarrow> bool" where
  "cacheable h q t c as junk \<longleftrightarrow>
     resp_hdr h (length as) \<and> length as < 65536 \<and> hdr_rcode (h ! 3) = 0 \<and> good_name q \<and> length (hd q) < 64 \<and> (t = 1 \<or> t = 28) \<and>
     answers_ok (dns_reply h q t c as @ junk) (int (length (dns_reply h q t c as))) (enc_name q) c (12 + length (enc_name q) + 5) as \<and>
     select (enc_name q) t c [] as \<noteq> [] \<and> length (cached_rrs (select (enc_name q) t c [] as)) \<le> NS_MAXDNAME \<and>
     an_type (last as) = t \<and> an_class (last as) = c \<and> 0 < an_ttl (last as)"

definition stored_packet :: "u8 list \<Rightarrow> u8 list list \<Rightarrow> u16 \<Rightarrow> u16 \<Rightarrow> answer list \<Rightarrow> u8 list" where
  "stored_packet h q t c kept = h @ enc_name q @ 0 # be16_bytes t @ be16_bytes c @ cached_rrs kept"

definition stored_data :: "int \<Rightarrow> u8 list \<Rightarrow> u8 list list \<Rightarrow> u16 \<Rightarrow> u16 \<Rightarrow> answer list \<Rightarrow> u32 \<Rightarrow> cache_data" where
  "stored_data now h q t c kept ttl =
     \<lparr>inserted = now, valid_until = now + max MIN_CACHE_TTL (uint ttl), cache_until = expiry now (uint ttl),
      cd_timeout = max MIN_CACHE_TTL (uint ttl), cd_type = t, cd_answers = of_nat (length kept),
      data_len = 2 + length (stored_packet h q t c kept),
      cd_data = len_prefix (length (stored_packet h q t c kept)) @ stored_packet h q t c kept\<rparr>"

lemma cache_update_positive:
  assumes cb: "cacheable h q t c as junk" and room: "cache_size st < MAX_CACHE_SIZE"
    and prep: "prepare_update now st = Some st1" "cache_tbl st1 = Some tb" "map_of tb (enc_name q) = None"
    and kept: "kept = select (enc_name q) t c [] as"
  shows "cache_update now PROTO_UDP st (dns_reply h q t c as @ junk) (length (dns_reply h q t c as)) True True =
    Some ((hash_update (enc_name q) (store_data t (stored_data now h q t c kept (an_ttl (last as)))
        \<lparr>want_refresh = False, hits = 0, ipv4 = None, ipv6 = None\<rparr>) st1)\<lparr>cache_size := cache_size st1 + 1\<rparr>, 0)"
proof -
  let ?m = "dns_reply h q t c as"
  let ?r = "\<lparr>pr_question = enc_name q, pr_type = t, pr_class = c, pr_ttl = uint (an_ttl (last as)),
     pr_response = cached_rrs kept, pr_answers = of_nat (length kept), pr_err = 0\<rparr>"
  have h: "length h = 12" "as \<noteq> []" using cb by (auto simp: cacheable_def resp_hdr_def)
  have len: "12 \<le> int (length ?m)" using h by (simp add: dns_reply_def)
  have p: "parse_response (?m @ junk) (int (length ?m)) NS_MAXDNAME NS_MAXDNAME = Some ?r"
    using parse_response_select [of "?m @ junk" h q t c as junk "int (length ?m)"] cb len h(2) by (simp add: cacheable_def kept)
  have f: "byte_at (?m @ junk) 3 = Some (h ! 3)" using h(1) by (simp add: dns_reply_def byte_at_def nth_append)
  have b: "bytes_at (?m @ junk) 0 12 = Some h" using h(1) by (simp add: dns_reply_def bytes_at_def)
  have ttl: "uint (an_ttl (last as)) \<noteq> 0" using cb by (auto simp: cacheable_def word_less_def)
  have d: "positive_data now (?m @ junk) 0 ?r = Some (stored_data now h q t c kept (an_ttl (last as)))"
    by (auto simp: positive_data_def b Let_def stored_data_def stored_packet_def expiry_def cut_ttl_def)
  have s: "cache_store now st1 (?m @ junk) 0 ?r True True =
    Some ((hash_update (enc_name q) (store_data t (stored_data now h q t c kept (an_ttl (last as)))
        \<lparr>want_refresh = False, hits = 0, ipv4 = None, ipv6 = None\<rparr>) st1)\<lparr>cache_size := cache_size st1 + 1\<rparr>, 0)"
    using prep(2,3) d by (simp add: cache_store_def)
  have o: "protocol_offset PROTO_UDP = 0" by (simp add: protocol_offset_def)
  have rc: "hdr_rcode (h ! 3) = 0" using cb by (simp add: cacheable_def)
  show ?thesis
    using room prep(2) ttl by (simp add: cache_update_def prep(1) o f rc p s)
qed

lemma cache_check_finds:
  assumes "cache_tbl st = Some tb" "map_of tb k = Some e" "cached_data t e = Some d" "now \<le> cache_until d" "t = 1 \<or> t = 28"
    and "cstr_at req 12 = Some k" "be16_at req (12 + length k + 1) = Some t"
  shows "cache_check now st (Some req) PROTO_UDP = Some (hash_update k (cache_enforce_validity now e) st, Some (t, k))"
proof -
  have v: "cache_check_is_valid (cached_data t e) now" using assms(3,4) by (simp add: cache_check_is_valid_def)
  have "cache_check_validity now t e = (t, cache_enforce_validity now e)"
    using v assms(3,5) by (auto simp: cache_check_validity_def Let_def enforce_valid cached_data_def)
  then show ?thesis
    using assms by (auto simp: cache_check_def Let_def protocol_offset_def)
qed

section \<open>Properties\<close>

text \<open>C12. In every state the cache can reach, the counter equals the number of entries and is at most 256, keys are unique,
  the table exists exactly while it is referenced, and every stored reply has its recorded length and a life time between the
  limits.\<close>

theorem cache_reachable_invariant:
  assumes "cache_reach st"
  shows "cache_size st = int (length (case cache_tbl st of None \<Rightarrow> [] | Some t \<Rightarrow> t)) \<and> cache_size st \<le> MAX_CACHE_SIZE \<and>
     (cache_tbl st = None \<longleftrightarrow> cache_refcount st = 0) \<and> (\<forall>t. cache_tbl st = Some t \<longrightarrow> table_ok t)"
  using cache_reach_inv [OF assms] by (auto simp: cache_inv_def split: option.splits)

theorem cache_reachable_invariant_witness:
  "cache_size (create_cache cache_zero) = 0 \<and> cache_refcount (create_cache cache_zero) = 1"
  using cache_reachable_invariant [OF cache_reach.create [OF cache_reach.start]]
  by (simp add: create_cache_def cache_zero_def)

text \<open>C13. A question is answered from the cache only with data that has not expired: the entry returned by
  \<^verbatim>\<open>cache_check\<close> belongs to the question of the request, and none of its data is older than its end of life, which is at
  most half an hour after it was stored.\<close>

theorem cache_check_fresh:
  assumes "cache_reach st" "cache_check now st (Some req) proto = Some (st', Some (ty, key))"
  shows "cstr_at req (nat (protocol_offset proto) + 12) = Some key \<and> (ty = 1 \<or> ty = 28) \<and>
     be16_at req (nat (protocol_offset proto) + 12 + length key + 1) = Some ty \<and>
     (\<exists>t e. cache_tbl st' = Some t \<and> map_of t key = Some e \<and>
        (\<forall>d. cached_data ty e = Some d \<longrightarrow> now \<le> cache_until d \<and> cache_until d \<le> inserted d + MAX_CACHE_TTL))"
proof -
  from assms(2) show ?thesis
  proof (cases rule: cache_check_hit)
    case (1 t e)
    let ?e = "snd (cache_check_validity now ty e)"
    obtain t' where t': "cache_tbl st' = Some t'" "map_of t' = (map_of t)(key \<mapsto> ?e)"
      using map_of_hash_update [OF 1(1)] 1(4) by blast
    have "entry_ok ?e" by (rule validity_ok [OF table_ok_entry [OF cache_invD(4) [OF cache_reach_inv [OF assms(1)] 1(1)] 1(2)]])
    then have "cache_until d \<le> inserted d + MAX_CACHE_TTL" if "cached_data ty ?e = Some d" for d
      using that by (auto simp: entry_ok_def data_ok_def cached_data_def split: if_splits)
    moreover have "now \<le> cache_until d" if "cached_data ty ?e = Some d" for d
      using that by (auto simp: cached_data_def validity_data enforce_valid cache_check_is_valid_def split: if_splits option.splits)
    ultimately show ?thesis using t' 1(6-8) by auto
  qed
qed

text \<open>C10. Storing a reply and answering from the cache fit together: after a reply with usable records has been stored, a
  query for the same name and type, asked before the stored data expires, is answered with the client's id, the
  records kept, their number, and as time to live of each the rest of the stored time.\<close>

theorem cache_roundtrip:
  assumes "cacheable h q t c as junk" "kept = select (enc_name q) t c [] as" "length kept < 65536"
    and "cache_size st < MAX_CACHE_SIZE" "prepare_update now st = Some st1" "cache_tbl st1 = Some tb" "map_of tb (enc_name q) = None"
    and "now' \<le> expiry now (uint (an_ttl (last as)))"
    and "cstr_at req 12 = Some (enc_name q)" "be16_at req (12 + length (enc_name q) + 1) = Some t"
    and "left = now + max MIN_CACHE_TTL (uint (an_ttl (last as))) - now'"
  shows "\<exists>st2 st3 st4. cache_update now PROTO_UDP st (dns_reply h q t c as @ junk) (length (dns_reply h q t c as)) True True = Some (st2, 0) \<and>
     cache_check now' st2 (Some req) PROTO_UDP = Some (st3, Some (t, enc_name q)) \<and>
     serve_cached now' st3 (enc_name q) t True PROTO_UDP srcid = Some (st4, Some (Some
       (reply_bits h srcid (of_nat (length kept)) @ enc_name q @ 0 # be16_bytes t @ be16_bytes c @
        cached_rrs (map (\<lambda>a. a\<lparr>an_ttl := word_of_int left\<rparr>) kept))))"
proof -
  let ?d = "stored_data now h q t c kept (an_ttl (last as))"
  let ?e = "store_data t ?d \<lparr>want_refresh = False, hits = 0, ipv4 = None, ipv6 = None\<rparr>"
  let ?st2 = "(hash_update (enc_name q) ?e st1)\<lparr>cache_size := cache_size st1 + 1\<rparr>"
  let ?out = "reply_bits h srcid (of_nat (length kept)) @ enc_name q @ 0 # be16_bytes t @ be16_bytes c @
        cached_rrs (map (\<lambda>a. a\<lparr>an_ttl := word_of_int left\<rparr>) kept)"
  note cb = assms(1) [unfolded cacheable_def]
  have t: "t = 1 \<or> t = 28" using cb by blast
  have u: "cache_update now PROTO_UDP st (dns_reply h q t c as @ junk) (length (dns_reply h q t c as)) True True = Some (?st2, 0)"
    by (rule cache_update_positive [OF assms(1,4-7,2)])
  obtain t2 where t2: "cache_tbl ?st2 = Some t2" "map_of t2 = (map_of tb)(enc_name q \<mapsto> ?e)"
    using map_of_hash_update [OF assms(6), of "enc_name q" ?e] by auto
  have cd: "cached_data t ?e = Some ?d" by (simp add: cached_data_def store_data_def)
  have "now' \<le> cache_until ?d" using assms(8) by (simp add: stored_data_def)
  note chk = cache_check_finds [OF t2(1) _ cd this t assms(9,10)]
  let ?e3 = "cache_enforce_validity now' ?e"
  let ?st3 = "hash_update (enc_name q) ?e3 ?st2"
  obtain t3 where t3: "cache_tbl ?st3 = Some t3" "map_of t3 = (map_of t2)(enc_name q \<mapsto> ?e3)"
    using map_of_hash_update [OF t2(1), of "enc_name q" ?e3] by blast
  have cd3: "cached_data t ?e3 = Some ?d"
    using cd \<open>now' \<le> cache_until ?d\<close> by (auto simp: cached_data_def enforce_valid cache_check_is_valid_def split: if_splits)
  have q: "0 \<notin> set (enc_name q)" "q \<noteq> []" "length (hd q) < 64" using cb by (auto simp: good_name_def)
  have nc: "\<not> compressed (hd (enc_name q))"
  proof (cases q)
    case (Cons l ls)
    have "unat (of_nat (length l) AND NS_CMPRSFLGS) \<le> unat (of_nat (length l) :: u8)"
      by (metis word_and_le2 word_le_nat_alt)
    then have "of_nat (length l) AND NS_CMPRSFLGS \<noteq> NS_CMPRSFLGS" using q(3) Cons by auto
    then show ?thesis by (simp add: Cons compressed_def)
  qed (use q in simp)
  have n: "of_nat (length kept) \<noteq> (0 :: u16)" using assms(3) cb by (metis assms(2) length_0_conv unat_0 unat_of_nat_u16)
  have sub: "set (select x y z al bs) \<subseteq> set bs" for x y z al bs by (induction bs arbitrary: al) auto
  have rd: "\<forall>a \<in> set as. length (an_rdata a) \<le> 242"
  proof -
    have "answers_ok b m x z p as \<Longrightarrow> \<forall>a \<in> set as. length (an_rdata a) \<le> 242" for b m x z p
      by (induction as arbitrary: p) (auto simp: owner_ok_def)
    then show ?thesis using cb by blast
  qed
  then have rd': "\<forall>a \<in> set kept. length (an_rdata a) < 65536" using sub assms(2) by force
  have ne: "enc_name q \<noteq> []" using q(2) by (cases q) auto
  have send: "send_cached_response (cd_data ?d) (data_len ?d) PROTO_UDP srcid (cd_answers ?d) (valid_until ?d - now') =
      Some (len_prefix (length (stored_packet h q t c kept)) @ ?out, Some ?out)"
    using send_cached_positive [OF length_len_prefix [of "length (stored_packet h q t c kept)"] _ q(1) ne nc n rd' refl refl, of h t c srcid left] cb
    by (simp add: stored_data_def stored_packet_def assms(11) resp_hdr_def)
  have "\<exists>st4. serve_cached now' ?st3 (enc_name q) t True PROTO_UDP srcid = Some (st4, Some (Some ?out))"
    by (simp add: serve_cached_def t3 cd3 send)
  then show ?thesis using u chk t2(2) by auto
qed

text \<open>The example reply is stored in a new cache at time 100, and answers a query at time 200.\<close>

lemma ex_cacheable: "cacheable ex_hdr [[97]] 1 1 [ex_answer] []"
proof -
  have "length (dns_reply ex_hdr [[97]] 1 1 [ex_answer]) = 35" by (simp add: ex_reply)
  moreover have "select [1, 97] 1 1 [] [ex_answer] = [ex_answer]"
    by (simp add: is_alias_def is_hit_def matches_def ex_answer_def)
  moreover have "an_type ex_answer = 1" "an_class ex_answer = 1" "an_ttl ex_answer = 300" "length (an_rdata ex_answer) = 4"
    by (simp_all add: ex_answer_def)
  moreover have "hdr_rcode (ex_hdr ! 3) = 0" by (simp add: hdr_rcode_def ex_hdr_def)
  ultimately show ?thesis
    using ex_answers_ok [of "[]"] ex_reply_hdr ex_good_name unfolding cacheable_def by simp
qed

definition ex_query :: "u8 list" where
  "ex_query = [0xAB, 0xCD, 1, 0, 0, 1, 0, 0, 0, 0, 0, 0, 1, 97, 0, 0, 1, 0, 1]"

lemma ex_select: "select (enc_name [[97]]) 1 1 [] [ex_answer] = [ex_answer]"
  by (simp add: is_alias_def is_hit_def matches_def ex_answer_def)

theorem cache_roundtrip_witness:
  "\<exists>st2 st3 st4. cache_update 100 PROTO_UDP (create_cache cache_zero) (dns_reply ex_hdr [[97]] 1 1 [ex_answer] @ []) 35 True True = Some (st2, 0) \<and>
     cache_check 200 st2 (Some ex_query) PROTO_UDP = Some (st3, Some (1, [1, 97])) \<and>
     serve_cached 200 st3 [1, 97] 1 True PROTO_UDP 0xCDAB = Some (st4, Some (Some
       (reply_bits ex_hdr 0xCDAB 1 @ [1, 97, 0, 0, 1, 0, 1] @ cached_rr (ex_answer\<lparr>an_ttl := 200\<rparr>))))"
proof -
  let ?st = "create_cache cache_zero"
  have st: "cache_size ?st < MAX_CACHE_SIZE" "prepare_update 100 ?st = Some (?st\<lparr>next_refresh := 130\<rparr>)"
    "cache_tbl (?st\<lparr>next_refresh := 130\<rparr>) = Some []" "map_of [] (enc_name [[97]]) = (None :: cache_entry option)"
    by (simp_all add: create_cache_def cache_zero_def prepare_update_def cache_refresh_def)
  have a: "an_ttl ex_answer = 300" by (simp add: ex_answer_def)
  have e: "(200 :: int) \<le> expiry 100 (uint (an_ttl (last [ex_answer])))"
    by (simp add: a expiry_def cut_ttl_def round_down_ttl_def)
  have r: "cstr_at ex_query 12 = Some (enc_name [[97]])" "be16_at ex_query (12 + length (enc_name [[97]]) + 1) = Some 1"
    by (simp_all add: ex_query_def cstr_at_def be16_at_def byte_at_def be16_of_def)
  have l: "length (dns_reply ex_hdr [[97]] 1 1 [ex_answer]) = 35" by (simp add: ex_reply)
  show ?thesis
    using cache_roundtrip [OF ex_cacheable ex_select [symmetric] _ st e r refl, of "0xCDAB"]
    unfolding l by (simp add: a be16_bytes_def)
qed

theorem cache_check_fresh_witness:
  "\<exists>st st' t e. cache_check 200 st (Some ex_query) PROTO_UDP = Some (st', Some (1, [1, 97])) \<and>
     cache_tbl st' = Some t \<and> map_of t [1, 97] = Some e \<and> (\<forall>d. cached_data 1 e = Some d \<longrightarrow> 200 \<le> cache_until d)"
proof -
  let ?st = "create_cache cache_zero"
  have st: "cache_size ?st < MAX_CACHE_SIZE" "prepare_update 100 ?st = Some (?st\<lparr>next_refresh := 130\<rparr>)"
    "cache_tbl (?st\<lparr>next_refresh := 130\<rparr>) = Some []" "map_of [] (enc_name [[97]]) = (None :: cache_entry option)"
    by (simp_all add: create_cache_def cache_zero_def prepare_update_def cache_refresh_def)
  note upd = cache_update_positive [OF ex_cacheable st ex_select [symmetric]]
  from cache_reach.update [OF cache_reach.create [OF cache_reach.start] upd]
  obtain st2 where st2: "cache_reach st2" "cache_tbl st2 = Some [([1, 97], store_data 1 (stored_data 100 ex_hdr [[97]] 1 1 [ex_answer] 300)
        \<lparr>want_refresh = False, hits = 0, ipv4 = None, ipv6 = None\<rparr>)]"
    using st(3) by (auto simp: hash_update_def ex_answer_def)
  have "cached_data 1 (store_data 1 (stored_data 100 ex_hdr [[97]] 1 1 [ex_answer] 300)
        \<lparr>want_refresh = False, hits = 0, ipv4 = None, ipv6 = None\<rparr>) = Some (stored_data 100 ex_hdr [[97]] 1 1 [ex_answer] 300)"
    by (simp add: cached_data_def store_data_def)
  moreover have "200 \<le> cache_until (stored_data 100 ex_hdr [[97]] 1 1 [ex_answer] 300)"
    by (simp add: stored_data_def expiry_def cut_ttl_def round_down_ttl_def)
  moreover have "cstr_at ex_query 12 = Some [1, 97]" "be16_at ex_query (12 + length ([1, 97] :: u8 list) + 1) = Some 1"
    by (simp_all add: ex_query_def cstr_at_def be16_at_def byte_at_def be16_of_def)
  ultimately obtain st' where c: "cache_check 200 st2 (Some ex_query) PROTO_UDP = Some (st', Some (1, [1, 97]))"
    using cache_check_finds [OF st2(2)] by (metis map_of_Cons_code(2))
  from cache_check_fresh [OF st2(1) c] c show ?thesis by blast
qed





definition expired :: "int \<Rightarrow> cache_entry \<Rightarrow> bool" where
  "expired now e \<longleftrightarrow> (\<exists>d. (ipv4 e = Some d \<or> ipv6 e = Some d) \<and> cd_timeout d > 0 \<and> cache_until d < now)"

lemma check_entry_keeps: "cache_check_entry now th mx e = (False, e', mx') \<Longrightarrow> \<not> expired now e'"
  by (auto simp: cache_check_entry_def data_timeout_def expired_def Let_def split: option.splits if_splits prod.splits)

lemma cache_sweep_keeps: "cache_sweep now th mx t = (t', mx', n) \<Longrightarrow> (k, e) \<in> set t' \<Longrightarrow> \<not> expired now e"
proof (induction t arbitrary: mx t' mx' n)
  case (Cons x t)
  obtain k0 e0 where x: "x = (k0, e0)" by (cases x)
  obtain rm e' m1 where ce: "cache_check_entry now th mx e0 = (rm, e', m1)" by (cases "cache_check_entry now th mx e0") auto
  obtain t1 m2 n1 where sw: "cache_sweep now th m1 t = (t1, m2, n1)" by (cases "cache_sweep now th m1 t") auto
  show ?case using Cons.prems Cons.IH [OF sw] check_entry_keeps [of now th mx e0 e' m1] ce sw x by (auto split: if_splits)
qed simp



end
