(* ===== verification/DnsProxy.thy ===== *)
theory DnsProxy
  imports DnsCache
begin

text \<open>
  The servers and requests of the DNS proxy (\<^verbatim>\<open>src/dnsproxy.c\<close>): the upstream servers with their sockets
  and search domains, the requests that wait for an answer, sending a request to a server (\<^verbatim>\<open>ns_resolv\<close>),
  the time-out of a request, and the configuration calls of the daemon.

  Servers, requests and listeners are shared objects: \<open>srv_heap\<close>, \<open>req_heap\<close> and \<open>li_heap\<close> map addresses to
  them, and the lists and tables hold addresses. TCP clients are found by socket, as in the table of the source.
  \<open>sources\<close> is the set of event sources registered with the main loop: which callback each one runs, and on which
  object. What leaves the program is recorded in \<open>acts\<close>. The answers of the kernel and of the allocator come
  from the environment \<open>dns_env\<close>: the result of a send is a function of its position in that record, the
  result of an allocation and a random number are functions of a counter that also yields addresses and source identifiers.
\<close>

section \<open>State\<close>

record server_data =
  sv_index :: int
  domains :: "u8 list list"
  sv_server :: "u8 list"
  server_addr :: "u8 list option"
  sv_protocol :: int
  channel :: "int option"
  sv_watch :: nat
  sv_timeout :: nat
  enabled :: bool
  connected :: bool
  incoming_reply :: "(nat \<times> u8 list) option"

record request_data =
  rq_sa :: "u8 list"
  client_sk :: int
  rq_protocol :: int
  rq_family :: int
  srcid :: u16
  dstid :: u16
  altid :: u16
  rq_timeout :: nat
  numserv :: nat
  numresp :: nat
  request :: "u8 list option"
  request_len :: nat
  rq_name :: "u8 list option"
  resp :: "u8 list option"
  resplen :: nat
  rq_ifdata :: nat
  append_domain :: bool

record listener_data =
  li_index :: int
  udp4_channel :: "int option"
  tcp4_channel :: "int option"
  udp4_watch :: nat
  tcp4_watch :: nat
  udp6_channel :: "int option"
  tcp6_channel :: "int option"
  udp6_watch :: nat
  tcp6_watch :: nat

record tcp_partial_client =
  tc_family :: int
  tc_ifdata :: nat
  tc_channel :: "int option"
  tc_watch :: nat
  tc_buf :: "u8 list option"
  buf_end :: nat
  tc_timeout :: nat

datatype source =
    Req_timeout nat
  | Srv_watch nat
  | Srv_idle nat
  | Client_watch int
  | Client_timeout int
  | Udp4_watch nat
  | Tcp4_watch nat
  | Udp6_watch nat
  | Tcp6_watch nat
  | Cache_timer

datatype dns_action =
    Sendto int "u8 list" "u8 list option"
  | Closed int
  | Resolvfile_append int string
  | Resolvfile_remove int string

record dns_proxy =
  dns :: dns_cache
  srv_heap :: "nat \<rightharpoonup> server_data"
  server_list :: "nat list"
  req_heap :: "nat \<rightharpoonup> request_data"
  request_list :: "nat list"
  li_heap :: "nat \<rightharpoonup> listener_data"
  listener_table :: "(int \<times> nat) list option"
  clients :: "int \<rightharpoonup> tcp_partial_client"
  cache_timer :: nat
  sources :: "nat \<rightharpoonup> source"
  next_id :: nat
  acts :: "dns_action list"

text \<open>The results of the system calls that give a server its socket, and a listener its socket.\<close>

record sock_result =
  sock_fd :: "int + int"
  bind_err :: int
  channel_ok :: bool
  connect_err :: int

record listen_result =
  ls_fd :: "int option"
  ls_device :: bool
  ls_address :: bool
  ls_bind :: bool
  ls_listen :: bool
  ls_channel :: bool

text \<open>
  \<open>getaddrinfo\<close>, \<open>dn_expand\<close> and \<open>dn_comp\<close> are the C library's; \<open>default_index\<close> is
  \<^verbatim>\<open>__connman_service_index_is_default\<close> or \<^verbatim>\<open>__connman_service_index_is_split_routing\<close>, and \<open>lo_index\<close> is
  \<^verbatim>\<open>connman_inet_ifindex("lo")\<close>. \<open>alt_init\<close> and \<open>stale\<close> are what a stack buffer holds before it is written.
\<close>

record dns_env =
  now :: int
  send_ok :: "nat \<Rightarrow> bool"
  alloc_ok :: "nat \<Rightarrow> bool"
  rand16 :: "nat \<Rightarrow> u16"
  alt_init :: "u8 list"
  stale :: "u8 list"
  getaddrinfo :: "u8 list \<Rightarrow> (int \<times> u8 list) option"
  sock_of :: "int \<Rightarrow> u8 list \<Rightarrow> int \<Rightarrow> sock_result"
  listen_of :: "int \<Rightarrow> int \<Rightarrow> int \<Rightarrow> listen_result"
  default_index :: "int \<Rightarrow> bool"
  lo_index :: int
  dn_expand :: "u8 list \<Rightarrow> nat \<Rightarrow> nat \<Rightarrow> (nat \<times> u8 list) option"
  dn_comp :: "u8 list \<Rightarrow> nat \<Rightarrow> u8 list option"

abbreviation "AF_INET \<equiv> (2 :: int)"
abbreviation "AF_INET6 \<equiv> (10 :: int)"
abbreviation "EINPROGRESS \<equiv> (115 :: int)"
abbreviation "ENOENT \<equiv> (2 :: int)"

definition act :: "dns_action \<Rightarrow> dns_proxy \<Rightarrow> dns_proxy" where
  "act a st = st\<lparr>acts := acts st @ [a]\<rparr>"

definition set_req :: "nat \<Rightarrow> request_data \<Rightarrow> dns_proxy \<Rightarrow> dns_proxy" where
  "set_req r q st = st\<lparr>req_heap := (req_heap st)(r \<mapsto> q)\<rparr>"

definition set_srv :: "nat \<Rightarrow> server_data \<Rightarrow> dns_proxy \<Rightarrow> dns_proxy" where
  "set_srv s d st = st\<lparr>srv_heap := (srv_heap st)(s \<mapsto> d)\<rparr>"

text \<open>The main loop: \<^verbatim>\<open>g_io_add_watch\<close> and \<^verbatim>\<open>g_timeout_add_seconds\<close> register a source under a new positive
  identifier, \<^verbatim>\<open>g_source_remove\<close> takes it out. Allocation takes the next number as address.\<close>

definition add_source :: "source \<Rightarrow> dns_proxy \<Rightarrow> dns_proxy \<times> nat" where
  "add_source src st =
     (let n = Suc (next_id st) in (st\<lparr>sources := (sources st)(n \<mapsto> src), next_id := n\<rparr>, n))"

definition source_remove :: "nat \<Rightarrow> dns_proxy \<Rightarrow> dns_proxy" where
  "source_remove n st = st\<lparr>sources := (sources st)(n := None)\<rparr>"

definition new_object :: "dns_env \<Rightarrow> dns_proxy \<Rightarrow> dns_proxy \<times> nat option" where
  "new_object env st =
     (let n = Suc (next_id st) in (st\<lparr>next_id := n\<rparr>, if alloc_ok env n then Some n else None))"

definition get_id :: "dns_env \<Rightarrow> dns_proxy \<Rightarrow> dns_proxy \<times> u16" where
  "get_id env st = (let n = Suc (next_id st) in (st\<lparr>next_id := n\<rparr>, rand16 env n))"

text \<open>A send through a socket: the record of it, and whether the kernel took it.\<close>

definition do_send :: "dns_env \<Rightarrow> int \<Rightarrow> u8 list \<Rightarrow> u8 list option \<Rightarrow> dns_proxy \<Rightarrow> dns_proxy \<times> bool" where
  "do_send env sk bs addr st = (act (Sendto sk bs addr) st, send_ok env (length (acts st)))"

definition send_opt :: "int \<Rightarrow> u8 list option \<Rightarrow> u8 list option \<Rightarrow> dns_proxy \<Rightarrow> dns_proxy" where
  "send_opt sk out addr st = (case out of None \<Rightarrow> st | Some bs \<Rightarrow> act (Sendto sk bs addr) st)"

definition id_bytes :: "u16 \<Rightarrow> u8 list" where
  "id_bytes i = [ucast i, ucast (drop_bit 8 i)]"

section \<open>Finding requests and servers\<close>

fun find_request_from :: "(nat \<rightharpoonup> request_data) \<Rightarrow> nat list \<Rightarrow> u16 \<Rightarrow> nat option option" where
  "find_request_from h [] i = Some None"
| "find_request_from h (r # rs) i = do {
     req \<leftarrow> h r;
     if dstid req = i \<or> altid req = i then Some (Some r) else find_request_from h rs i }"

definition find_request :: "dns_proxy \<Rightarrow> u16 \<Rightarrow> nat option option" where
  "find_request st i = find_request_from (req_heap st) (request_list st) i"

fun find_server_from :: "(nat \<rightharpoonup> server_data) \<Rightarrow> nat list \<Rightarrow> int \<Rightarrow> u8 list \<Rightarrow> int \<Rightarrow> nat option option" where
  "find_server_from h [] index server protocol = Some None"
| "find_server_from h (s # ss) index server protocol = do {
     data \<leftarrow> h s;
     if index < 0 \<and> sv_index data < 0 \<and> sv_server data = server \<and> sv_protocol data = protocol then Some (Some s)
     else if index < 0 \<or> sv_index data < 0 then find_server_from h ss index server protocol
     else if sv_index data = index \<and> sv_server data = server \<and> sv_protocol data = protocol then Some (Some s)
     else find_server_from h ss index server protocol }"

definition find_server :: "dns_proxy \<Rightarrow> int \<Rightarrow> u8 list \<Rightarrow> int \<Rightarrow> nat option option" where
  "find_server st index server protocol = find_server_from (srv_heap st) (server_list st) index server protocol"

section \<open>Requests\<close>

definition get_req_udp_socket :: "dns_proxy \<Rightarrow> request_data \<Rightarrow> int option" where
  "get_req_udp_socket st req = do {
     ifdata \<leftarrow> li_heap st (rq_ifdata req);
     Some (case if rq_family req = AF_INET then udp4_channel ifdata else udp6_channel ifdata of
             None \<Rightarrow> - 1
           | Some fd \<Rightarrow> fd) }"

definition destroy_request_data :: "nat \<Rightarrow> dns_proxy \<Rightarrow> dns_proxy option" where
  "destroy_request_data r st = do {
     req \<leftarrow> req_heap st r;
     let st = (if rq_timeout req > 0 then source_remove (rq_timeout req) st else st);
     Some (st\<lparr>req_heap := (req_heap st)(r := None)\<rparr>) }"

text \<open>Taking a client out of its table runs \<^verbatim>\<open>free_partial_reqs\<close> on it, which resets it first.\<close>

definition client_reset :: "tcp_partial_client \<Rightarrow> dns_proxy \<Rightarrow> dns_proxy" where
  "client_reset client st =
     (let st = (case tc_channel client of None \<Rightarrow> st | Some fd \<Rightarrow> act (Closed fd) st);
          st = (if tc_watch client > 0 then source_remove (tc_watch client) st else st)
      in if tc_timeout client > 0 then source_remove (tc_timeout client) st else st)"

definition free_partial_reqs :: "int \<Rightarrow> dns_proxy \<Rightarrow> dns_proxy" where
  "free_partial_reqs sk st =
     (case clients st sk of
        None \<Rightarrow> st
      | Some client \<Rightarrow> (client_reset client st)\<lparr>clients := (clients st)(sk := None)\<rparr>)"

text \<open>What a client gets when its request times out: the answer kept from a server, or the request itself
  turned into a failure.\<close>

definition timeout_answer :: "request_data \<Rightarrow> int \<Rightarrow> u8 list option option" where
  "timeout_answer req sk =
     (if resplen req > 0 \<and> resp req \<noteq> None then
        if sk \<ge> 0 then map_option Some (bytes_at (the (resp req)) 0 (resplen req)) else Some None
      else
        (case request req of
           None \<Rightarrow> Some None
         | Some bs \<Rightarrow> do {
             bs \<leftarrow> put_at (nat (protocol_offset (rq_protocol req))) (id_bytes (srcid req)) bs;
             if sk \<ge> 0 then map_option snd (send_response bs (int (request_len req)) (rq_protocol req)) else Some None }))"

definition request_timeout :: "nat \<Rightarrow> dns_proxy \<Rightarrow> dns_proxy option" where
  "request_timeout r st = do {
     req \<leftarrow> req_heap st r;
     let st = st\<lparr>request_list := g_list_remove r (request_list st)\<rparr>;
     st \<leftarrow> (if rq_protocol req = PROTO_UDP then do {
               sk \<leftarrow> get_req_udp_socket st req;
               out \<leftarrow> timeout_answer req sk;
               Some (send_opt sk out (Some (rq_sa req)) st) }
             else if rq_protocol req = PROTO_TCP then do {
               out \<leftarrow> timeout_answer req (client_sk req);
               Some (free_partial_reqs (client_sk req) (send_opt (client_sk req) out None st)) }
             else Some st);
     destroy_request_data r (set_req r (req\<lparr>rq_timeout := 0\<rparr>) st) }"

section \<open>Asking a server\<close>

text \<open>
  The query with a search domain appended, built in the stack buffer \<open>alt\<close>; \<open>Inl\<close> is an early return. The
  number of bytes copied behind the name is unsigned, so a negative number is a fault. The count of questions is
  written through a pointer to the start of the buffer, whatever the offset of the header is.
\<close>

definition alt_query :: "u8 list \<Rightarrow> int \<Rightarrow> u16 \<Rightarrow> u8 list \<Rightarrow> nat \<Rightarrow> u8 list \<Rightarrow> u8 list \<Rightarrow> (int + u8 list) option" where
  "alt_query alt protocol i req len name domain =
     (let offset = nat (protocol_offset protocol); domlen = length domain + 1 in
      if protocol_offset protocol < 0 then Some (Inl (protocol_offset protocol))
      else if domlen < 5 then Some (Inl (- EINVAL))
      else do {
        alt \<leftarrow> put_at offset (id_bytes i) alt;
        flags \<leftarrow> bytes_at req (offset + 2) 10;
        alt \<leftarrow> put_at (offset + 2) flags alt;
        alt \<leftarrow> put_at 4 [0, 1] alt;
        (alt, n) \<leftarrow> append_query alt (offset + 12) (Some name) (Some domain);
        let altlen = n + 12;
        if offset + altlen < domlen \<or> len + domlen < offset + altlen then None
        else do {
          rest \<leftarrow> bytes_at req (offset + altlen - domlen) (len + domlen - (offset + altlen));
          alt \<leftarrow> put_at (offset + altlen) rest alt;
          alt \<leftarrow> (if protocol = PROTO_TCP then put_at 0 [of_nat ((len + domlen - 2) div 256), of_nat (len + domlen - 2)] alt else Some alt);
          out \<leftarrow> bytes_at alt 0 (len + domlen);
          Some (Inr out) } })"

fun send_domains ::
  "dns_env \<Rightarrow> int \<Rightarrow> int \<Rightarrow> nat \<Rightarrow> u8 list \<Rightarrow> u8 list \<Rightarrow> u8 list list \<Rightarrow> dns_proxy \<Rightarrow> (dns_proxy \<times> int) option" where
  "send_domains env sk protocol r bs name [] st = Some (st, 0)"
| "send_domains env sk protocol r bs name (d # ds) st = do {
     req \<leftarrow> req_heap st r;
     a \<leftarrow> alt_query (alt_init env) protocol (altid req) bs (request_len req) name d;
     (case a of
        Inl e \<Rightarrow> Some (st, e)
      | Inr out \<Rightarrow>
        let (st, ok) = do_send env sk out None st in
        if \<not> ok then Some (st, - EIO)
        else send_domains env sk protocol r bs name ds (set_req r (req\<lparr>numserv := numserv req + 1\<rparr>) st)) }"

text \<open>The answer from the cache: \<open>None\<close> in the second place when there is none.\<close>

definition resolv_cached ::
  "dns_env \<Rightarrow> dns_proxy \<Rightarrow> request_data \<Rightarrow> (u16 \<times> u8 list) option \<Rightarrow> (dns_proxy \<times> int option) option" where
  "resolv_cached env st req hit =
     (case hit of
        None \<Rightarrow> Some (st, None)
      | Some (typ, key) \<Rightarrow> do {
          (c, found) \<leftarrow> serve_cached (now env) (dns st) key typ False (rq_protocol req) (srcid req);
          if found = None then Some (st, None)
          else if rq_protocol req = PROTO_TCP then do {
            (c, out) \<leftarrow> serve_cached (now env) (dns st) key typ True (rq_protocol req) (srcid req);
            Some (send_opt (client_sk req) (Option.bind out id) None (st\<lparr>dns := c\<rparr>), Some 1) }
          else if rq_protocol req = PROTO_UDP then do {
            sk \<leftarrow> get_req_udp_socket st req;
            if sk < 0 then Some (st\<lparr>dns := c\<rparr>, Some (- EIO))
            else do {
              (c, out) \<leftarrow> serve_cached (now env) (dns st) key typ True (rq_protocol req) (srcid req);
              Some (send_opt sk (Option.bind out id) (Some (rq_sa req)) (st\<lparr>dns := c\<rparr>), Some 1) } }
          else Some (st\<lparr>dns := c\<rparr>, None) })"

text \<open>A name with a dot before its last character is not completed with search domains.\<close>

definition has_inner_dot :: "u8 list \<Rightarrow> bool" where
  "has_inner_dot name \<longleftrightarrow> DOT \<in> set name \<and> length (takeWhile (\<lambda>b. b \<noteq> DOT) name) \<noteq> length name - 1"

definition ns_resolv ::
  "dns_env \<Rightarrow> nat \<Rightarrow> nat \<Rightarrow> u8 list option \<Rightarrow> u8 list option \<Rightarrow> dns_proxy \<Rightarrow> (dns_proxy \<times> int) option" where
  "ns_resolv env s r req_bytes name st = do {
     server \<leftarrow> srv_heap st s;
     req \<leftarrow> req_heap st r;
     (c, hit) \<leftarrow> cache_check (now env) (dns st) req_bytes (rq_protocol req);
     (st, ret) \<leftarrow> resolv_cached env (st\<lparr>dns := c\<rparr>) req hit;
     (case ret of
        Some x \<Rightarrow> Some (st, x)
      | None \<Rightarrow> do {
          sk \<leftarrow> channel server;
          bs \<leftarrow> req_bytes;
          out \<leftarrow> bytes_at bs 0 (request_len req);
          let (st, ok) = do_send env sk out (server_addr server) st;
          if \<not> ok then Some (st, - EIO)
          else do {
            let req = req\<lparr>numserv := numserv req + 1\<rparr>;
            lookup \<leftarrow> name;
            if has_inner_dot lookup then Some (set_req r req st, 0)
            else
              let req = (if domains server \<noteq> [] then req\<lparr>append_domain := True\<rparr> else req) in
              send_domains env sk (sv_protocol server) r bs lookup (domains server) (set_req r req st) } }) }"

section \<open>Servers\<close>

definition server_destroy_socket :: "nat \<Rightarrow> dns_proxy \<Rightarrow> dns_proxy option" where
  "server_destroy_socket s st = do {
     data \<leftarrow> srv_heap st s;
     let st = (if sv_watch data > 0 then source_remove (sv_watch data) st else st);
     let st = (if sv_timeout data > 0 then source_remove (sv_timeout data) st else st);
     let st = (case channel data of None \<Rightarrow> st | Some fd \<Rightarrow> act (Closed fd) st);
     Some (set_srv s (data\<lparr>sv_watch := 0, sv_timeout := 0, channel := None, incoming_reply := None\<rparr>) st) }"

definition destroy_server :: "nat \<Rightarrow> dns_proxy \<Rightarrow> dns_proxy option" where
  "destroy_server s st = do {
     st \<leftarrow> server_destroy_socket s (st\<lparr>server_list := g_list_remove s (server_list st)\<rparr>);
     let st = (if cache_tbl (dns st) \<noteq> None \<and> cache_timer st = 0 then
                 let (st, n) = add_source Cache_timer st in st\<lparr>cache_timer := n\<rparr>
               else st);
     Some (st\<lparr>srv_heap := (srv_heap st)(s := None)\<rparr>) }"

definition cache_timeout :: "dns_proxy \<Rightarrow> dns_proxy" where
  "cache_timeout st = st\<lparr>cache_timer := 0, dns := try_remove_cache (dns st)\<rparr>"

definition tcp_idle_timeout :: "nat \<Rightarrow> dns_proxy \<Rightarrow> dns_proxy option" where
  "tcp_idle_timeout s st = destroy_server s st"

text \<open>The watch of the new channel, and for TCP the timer of an idle connection.\<close>

definition watch_server :: "nat \<Rightarrow> server_data \<Rightarrow> dns_proxy \<Rightarrow> dns_proxy" where
  "watch_server s data st =
     (let (st, w) = add_source (Srv_watch s) st in
      if sv_protocol data = PROTO_TCP then
        let (st, t) = add_source (Srv_idle s) st in set_srv s (data\<lparr>sv_watch := w, sv_timeout := t\<rparr>) st
      else set_srv s (data\<lparr>sv_watch := w\<rparr>) st)"

definition server_create_socket :: "dns_env \<Rightarrow> nat \<Rightarrow> dns_proxy \<Rightarrow> (dns_proxy \<times> int) option" where
  "server_create_socket env s st = do {
     data \<leftarrow> srv_heap st s;
     addr \<leftarrow> server_addr data;
     let io = sock_of env (sv_index data) (sv_server data) (sv_protocol data);
     (case sock_fd io of
        Inl e \<Rightarrow> do { st \<leftarrow> server_destroy_socket s st; Some (st, - e) }
      | Inr sk \<Rightarrow>
        if bind_err io \<noteq> 0 then do {
          st \<leftarrow> server_destroy_socket s (act (Closed sk) st);
          Some (st, - bind_err io) }
        else if \<not> channel_ok io then do {
          st \<leftarrow> server_destroy_socket s (act (Closed sk) st);
          Some (st, - ENOMEM) }
        else
          let st = watch_server s (data\<lparr>channel := Some sk\<rparr>) st in
          if connect_err io \<noteq> 0 \<and>
             (sv_protocol data = PROTO_TCP \<and> connect_err io \<noteq> EINPROGRESS \<or> sv_protocol data = PROTO_UDP) then do {
            st \<leftarrow> server_destroy_socket s st;
            Some (st, - connect_err io) }
          else Some (st\<lparr>dns := create_cache (dns st)\<rparr>, 0)) }"

definition set_enabled :: "bool \<Rightarrow> (server_data \<Rightarrow> bool) \<Rightarrow> nat \<Rightarrow> dns_proxy \<Rightarrow> dns_proxy option" where
  "set_enabled b P s st = do {
     data \<leftarrow> srv_heap st s;
     Some (if P data then set_srv s (data\<lparr>enabled := b\<rparr>) st else st) }"

fun each_server :: "(nat \<Rightarrow> dns_proxy \<Rightarrow> dns_proxy option) \<Rightarrow> nat list \<Rightarrow> dns_proxy \<Rightarrow> dns_proxy option" where
  "each_server f [] st = Some st"
| "each_server f (s # ss) st = do { st \<leftarrow> f s st; each_server f ss st }"

definition enable_fallback :: "bool \<Rightarrow> dns_proxy \<Rightarrow> dns_proxy option" where
  "enable_fallback enable st = each_server (set_enabled enable (\<lambda>data. sv_index data = - 1)) (server_list st) st"

definition new_server :: "int \<Rightarrow> u8 list option \<Rightarrow> u8 list \<Rightarrow> int \<Rightarrow> server_data" where
  "new_server index domain server protocol =
     \<lparr>sv_index = index, domains = (case domain of None \<Rightarrow> [] | Some d \<Rightarrow> [d]), sv_server = server, server_addr = None,
      sv_protocol = protocol, channel = None, sv_watch = 0, sv_timeout = 0, enabled = False, connected = False,
      incoming_reply = None\<rparr>"

text \<open>\<^verbatim>\<open>getaddrinfo\<close> gives the family and the socket address; an address of another family than IPv4 and IPv6 gets no memory.\<close>

definition server_address :: "dns_env \<Rightarrow> u8 list \<Rightarrow> dns_proxy \<Rightarrow> dns_proxy \<times> u8 list option" where
  "server_address env server st =
     (case getaddrinfo env server of
        None \<Rightarrow> (st, None)
      | Some (family, addr) \<Rightarrow>
        if family = AF_INET \<or> family = AF_INET6 then
          let (st, a) = new_object env st in (st, if a = None then None else Some addr)
        else (st, None))"

definition create_server ::
  "dns_env \<Rightarrow> int \<Rightarrow> u8 list option \<Rightarrow> u8 list \<Rightarrow> int \<Rightarrow> dns_proxy \<Rightarrow> (dns_proxy \<times> nat option) option" where
  "create_server env index domain server protocol st =
     (case new_object env st of
        (st, None) \<Rightarrow> Some (st, None)
      | (st, Some s) \<Rightarrow>
        let data = new_server index domain server protocol; st = set_srv s data st in
        if protocol \<noteq> PROTO_UDP \<and> protocol \<noteq> PROTO_TCP then do { st \<leftarrow> destroy_server s st; Some (st, None) }
        else
          (case server_address env server st of
             (st, None) \<Rightarrow> do { st \<leftarrow> destroy_server s st; Some (st, None) }
           | (st, Some addr) \<Rightarrow> do {
               (st, ret) \<leftarrow> server_create_socket env s (set_srv s (data\<lparr>server_addr := Some addr\<rparr>) st);
               if ret \<noteq> 0 then do { st \<leftarrow> destroy_server s st; Some (st, None) }
               else if protocol = PROTO_UDP then do {
                 st \<leftarrow> (if default_index env index then do {
                          st \<leftarrow> set_enabled True (\<lambda>_. True) s st;
                          enable_fallback False st }
                        else Some st);
                 Some (st\<lparr>server_list := server_list st @ [s]\<rparr>, Some s) }
               else Some (st, Some s) }))"

fun resolv_from ::
  "dns_env \<Rightarrow> nat list \<Rightarrow> nat \<Rightarrow> u8 list option \<Rightarrow> u8 list option \<Rightarrow> dns_proxy \<Rightarrow> (dns_proxy \<times> bool) option" where
  "resolv_from env [] r req_bytes name st = Some (st, False)"
| "resolv_from env (s # ss) r req_bytes name st = do {
     data \<leftarrow> srv_heap st s;
     if sv_protocol data = PROTO_TCP \<or> \<not> enabled data then resolv_from env ss r req_bytes name st
     else do {
       (st, err) \<leftarrow> (if channel data = None \<and> sv_protocol data = PROTO_UDP then server_create_socket env s st else Some (st, 0));
       if err < 0 then resolv_from env ss r req_bytes name st
       else do {
         (st, ret) \<leftarrow> ns_resolv env s r req_bytes name st;
         if ret > 0 then Some (st, True) else resolv_from env ss r req_bytes name st } } }"

definition resolv :: "dns_env \<Rightarrow> nat \<Rightarrow> u8 list option \<Rightarrow> u8 list option \<Rightarrow> dns_proxy \<Rightarrow> (dns_proxy \<times> bool) option" where
  "resolv env r req_bytes name st = resolv_from env (server_list st) r req_bytes name st"

section \<open>Configuration\<close>

definition update_domain_of :: "int \<Rightarrow> u8 list \<Rightarrow> bool \<Rightarrow> nat \<Rightarrow> dns_proxy \<Rightarrow> dns_proxy option" where
  "update_domain_of index domain add s st = do {
     data \<leftarrow> srv_heap st s;
     let dom_found = (domain \<in> set (domains data));
     Some (if sv_index data < 0 \<or> sv_index data \<noteq> index then st
           else if \<not> dom_found \<and> add then set_srv s (data\<lparr>domains := domains data @ [domain]\<rparr>) st
           else if dom_found \<and> \<not> add then set_srv s (data\<lparr>domains := g_list_remove domain (domains data)\<rparr>) st
           else st) }"

definition update_domain :: "int \<Rightarrow> u8 list option \<Rightarrow> bool \<Rightarrow> dns_proxy \<Rightarrow> dns_proxy option" where
  "update_domain index domain add st =
     (case domain of
        None \<Rightarrow> Some st
      | Some d \<Rightarrow> each_server (update_domain_of index d add) (server_list st) st)"

text \<open>\<^verbatim>\<open>g_timeout_add_seconds\<close> for a request, replacing the timer it has.\<close>

definition restart_timeout :: "nat \<Rightarrow> dns_proxy \<Rightarrow> dns_proxy option" where
  "restart_timeout r st = do {
     req \<leftarrow> req_heap st r;
     let st = (if rq_timeout req > 0 then source_remove (rq_timeout req) st else st);
     let (st, n) = add_source (Req_timeout r) st;
     Some (set_req r (req\<lparr>rq_timeout := n\<rparr>) st) }"

definition release_request :: "nat \<Rightarrow> dns_proxy \<Rightarrow> dns_proxy option" where
  "release_request r st = destroy_request_data r (st\<lparr>request_list := g_list_remove r (request_list st)\<rparr>)"

fun flush_from :: "dns_env \<Rightarrow> nat \<Rightarrow> nat list \<Rightarrow> dns_proxy \<Rightarrow> dns_proxy option" where
  "flush_from env s [] st = Some st"
| "flush_from env s (r # rs) st = do {
     req \<leftarrow> req_heap st r;
     (st, ret) \<leftarrow> ns_resolv env s r (request req) (rq_name req) st;
     st \<leftarrow> (if ret \<noteq> 0 then release_request r st else restart_timeout r st);
     flush_from env s rs st }"

definition flush_requests :: "dns_env \<Rightarrow> nat \<Rightarrow> dns_proxy \<Rightarrow> dns_proxy option" where
  "flush_requests env s st = flush_from env s (request_list st) st"

abbreviation "LOCALHOST4 \<equiv> (map (of_nat \<circ> of_char) ''127.0.0.1'' :: u8 list)"
abbreviation "LOCALHOST6 \<equiv> (map (of_nat \<circ> of_char) ''::1'' :: u8 list)"

definition connman_dnsproxy_append ::
  "dns_env \<Rightarrow> int \<Rightarrow> u8 list option \<Rightarrow> u8 list option \<Rightarrow> dns_proxy \<Rightarrow> (dns_proxy \<times> int) option" where
  "connman_dnsproxy_append env index domain server st =
     (case server of
        None \<Rightarrow>
          if domain = None then Some (st, - EINVAL)
          else do { st \<leftarrow> update_domain index domain True st; Some (st, 0) }
      | Some srv \<Rightarrow>
          if srv = LOCALHOST4 \<or> srv = LOCALHOST6 then Some (st, - ENODEV)
          else do {
            found \<leftarrow> find_server st index srv PROTO_UDP;
            if found \<noteq> None then do { st \<leftarrow> update_domain index domain True st; Some (st, 0) }
            else do {
              (st, data) \<leftarrow> create_server env index domain srv PROTO_UDP st;
              (case data of
                 None \<Rightarrow> Some (st, - EIO)
               | Some s \<Rightarrow> do { st \<leftarrow> flush_requests env s st; Some (st, 0) }) } })"

fun some_enabled :: "(nat \<rightharpoonup> server_data) \<Rightarrow> nat list \<Rightarrow> bool option" where
  "some_enabled h [] = Some False"
| "some_enabled h (s # ss) = do {
     data \<leftarrow> h s;
     if sv_index data \<noteq> - 1 \<and> enabled data then Some True else some_enabled h ss }"

definition remove_server :: "int \<Rightarrow> u8 list \<Rightarrow> int \<Rightarrow> dns_proxy \<Rightarrow> dns_proxy option" where
  "remove_server index server protocol st = do {
     found \<leftarrow> find_server st index server protocol;
     (case found of
        None \<Rightarrow> Some st
      | Some s \<Rightarrow> do {
          st \<leftarrow> destroy_server s st;
          left \<leftarrow> some_enabled (srv_heap st) (server_list st);
          if left then Some st else enable_fallback True st }) }"

definition connman_dnsproxy_remove ::
  "int \<Rightarrow> u8 list option \<Rightarrow> u8 list option \<Rightarrow> dns_proxy \<Rightarrow> (dns_proxy \<times> int) option" where
  "connman_dnsproxy_remove index domain server st =
     (case server of
        None \<Rightarrow>
          if domain = None then Some (st, - EINVAL)
          else do { st \<leftarrow> update_domain index domain False st; Some (st, 0) }
      | Some srv \<Rightarrow>
          if srv = LOCALHOST4 \<or> srv = LOCALHOST6 then Some (st, - ENODEV)
          else do {
            st \<leftarrow> remove_server index srv PROTO_UDP st;
            st \<leftarrow> remove_server index srv PROTO_TCP st;
            Some (st, 0) })"

definition offline_server :: "dns_env \<Rightarrow> bool \<Rightarrow> nat \<Rightarrow> dns_proxy \<Rightarrow> dns_proxy option" where
  "offline_server env offline s st = do {
     st \<leftarrow> set_enabled (\<not> offline) (\<lambda>_. True) s st;
     let c = cache_invalidate (now env) (dns st);
     c \<leftarrow> (if offline then Some c else cache_refresh (now env) c);
     Some (st\<lparr>dns := c\<rparr>) }"

definition dnsproxy_offline_mode :: "dns_env \<Rightarrow> bool \<Rightarrow> dns_proxy \<Rightarrow> dns_proxy option" where
  "dnsproxy_offline_mode env offline st = each_server (offline_server env offline) (server_list st) st"

text \<open>The service that became the default one is given by its interface index.\<close>

definition select_server :: "int \<Rightarrow> nat \<Rightarrow> dns_proxy \<Rightarrow> dns_proxy option" where
  "select_server index s st = do {
     data \<leftarrow> srv_heap st s;
     Some (set_srv s (data\<lparr>enabled := (sv_index data = index)\<rparr>) st) }"

definition has_index :: "dns_proxy \<Rightarrow> int \<Rightarrow> nat \<Rightarrow> bool" where
  "has_index st index s = (map_option sv_index (srv_heap st s) = Some index)"

definition dnsproxy_default_changed :: "dns_env \<Rightarrow> int option \<Rightarrow> dns_proxy \<Rightarrow> dns_proxy option" where
  "dnsproxy_default_changed env service st =
     (let st = st\<lparr>dns := cache_invalidate (now env) (dns st)\<rparr> in
      case service of
        None \<Rightarrow> dnsproxy_offline_mode env True st
      | Some index \<Rightarrow>
        if index < 0 then Some st
        else do {
          st \<leftarrow> each_server (select_server index) (server_list st) st;
          st \<leftarrow> (if list_ex (has_index st index) (server_list st) then Some st else enable_fallback True st);
          c \<leftarrow> cache_refresh (now env) (dns st);
          Some (st\<lparr>dns := c\<rparr>) })"

end
