(* ===== verification/DnsReply.thy ===== *)
theory DnsReply
  imports DnsProxy
begin

text \<open>
  The replies of the servers (\<^verbatim>\<open>src/dnsproxy.c\<close>): uncompressing the resource records, taking the search domain
  out of the answers, forwarding a reply to the client that asked (\<^verbatim>\<open>forward_dns_reply\<close>), and the handlers of the
  server sockets with the reassembly of replies over TCP.

  A received packet is a buffer with more room than the packet has; the handlers read beyond its length, so the
  buffer and the length are separate arguments.
\<close>

section \<open>Uncompressing\<close>

text \<open>
  \<^verbatim>\<open>convert_label\<close> expands a name of the packet into dotted form and writes it back without compression. The
  result is what the packet uses and the bytes written; \<open>None\<close> inside when one of the calls fails. Here \<open>char\<close> is signed.
\<close>

definition convert_label :: "dns_env \<Rightarrow> u8 list \<Rightarrow> nat \<Rightarrow> nat \<Rightarrow> nat \<Rightarrow> nat \<Rightarrow> (nat \<times> u8 list) option" where
  "convert_label env mem start eom p room =
     (case dn_expand env (take (eom - start) (drop start mem)) (p - start) NS_MAXLABEL of
        None \<Rightarrow> None
      | Some (pos, name) \<Rightarrow> map_option (\<lambda>w. (pos, w)) (dn_comp env name room))"

definition char_pair_int :: "u8 \<Rightarrow> u8 \<Rightarrow> int" where
  "char_pair_int a b = push_bit 8 (sint a) OR sint b"

text \<open>\<^verbatim>\<open>strncpy\<close> into the rest of the result buffer pads with zero bytes; then the string is closed.\<close>

definition copy_owner :: "u8 list \<Rightarrow> nat \<Rightarrow> u8 list \<Rightarrow> (u8 list \<times> nat) option" where
  "copy_owner ubuf u name = do {
     nm \<leftarrow> cstr_at name 0;
     let n = NS_MAXDNAME - u;
     ubuf \<leftarrow> put_at u (take n (nm @ replicate n 0)) ubuf;
     ubuf \<leftarrow> put_at (u + length nm) [0] ubuf;
     Some (ubuf, u + length nm + 1) }"

text \<open>The data of a record by type; the position in the packet and in the result move on. Inner \<open>None\<close> is the
  early return.\<close>

definition uncompress_name ::
  "dns_env \<Rightarrow> u8 list \<Rightarrow> nat \<Rightarrow> nat \<Rightarrow> nat \<times> u8 list \<times> nat \<Rightarrow> (nat \<times> u8 list \<times> nat \<times> nat) option option" where
  "uncompress_name env mem start eom = (\<lambda>(p, ubuf, u).
     (case convert_label env mem start eom p (NS_MAXDNAME - u) of
        None \<Rightarrow> Some None
      | Some (pos, w) \<Rightarrow> do {
          ubuf \<leftarrow> put_at u w ubuf;
          Some (Some (p + pos, ubuf, u + length w, length w)) }))"

definition uncompress_cname ::
  "dns_env \<Rightarrow> u8 list \<Rightarrow> nat \<Rightarrow> nat \<Rightarrow> nat \<times> u8 list \<times> nat \<Rightarrow> (nat \<times> u8 list \<times> nat) option option" where
  "uncompress_cname env mem start eom = (\<lambda>(p, ubuf, u). do {
     r \<leftarrow> uncompress_name env mem start eom (p, ubuf, u);
     (case r of
        None \<Rightarrow> Some None
      | Some (p, ubuf, u', n) \<Rightarrow> do {
          ubuf \<leftarrow> put_at (u - 2) [0, of_nat n] ubuf;
          Some (Some (p, ubuf, u')) }) })"

definition uncompress_address ::
  "u8 list \<Rightarrow> nat \<Rightarrow> nat \<times> u8 list \<times> nat \<Rightarrow> (nat \<times> u8 list \<times> nat) option option" where
  "uncompress_address mem eom = (\<lambda>(p, ubuf, u). do {
     a \<leftarrow> byte_at ubuf (u - 2);
     b \<leftarrow> byte_at ubuf (u - 1);
     let dlen = char_pair_int a b;
     if int p + dlen > int eom then Some None
     else if dlen < 0 then None
     else do {
       bs \<leftarrow> bytes_at mem p (nat dlen);
       ubuf \<leftarrow> put_at u bs ubuf;
       Some (Some (p + nat dlen, ubuf, u + nat dlen)) } })"

definition uncompress_soa ::
  "dns_env \<Rightarrow> u8 list \<Rightarrow> nat \<Rightarrow> nat \<Rightarrow> nat \<times> u8 list \<times> nat \<Rightarrow> (nat \<times> u8 list \<times> nat) option option" where
  "uncompress_soa env mem start eom = (\<lambda>(p, ubuf, u). do {
     r \<leftarrow> uncompress_name env mem start eom (p, ubuf, u);
     (case r of
        None \<Rightarrow> Some None
      | Some (p, ubuf, u1, n1) \<Rightarrow> do {
          r \<leftarrow> uncompress_name env mem start eom (p, ubuf, u1);
          (case r of
             None \<Rightarrow> Some None
           | Some (p, ubuf, u2, n2) \<Rightarrow> do {
               bs \<leftarrow> bytes_at mem p 20;
               ubuf \<leftarrow> put_at u2 bs ubuf;
               ubuf \<leftarrow> put_at (u - 2) [0, of_nat (n1 + n2 + 20)] ubuf;
               Some (Some (p + 20, ubuf, u2 + 20)) }) }) })"

definition uncompress_rr ::
  "dns_env \<Rightarrow> u8 list \<Rightarrow> nat \<Rightarrow> nat \<Rightarrow> nat \<times> u8 list \<times> nat \<Rightarrow> (nat \<times> u8 list \<times> nat) option option" where
  "uncompress_rr env mem start eom = (\<lambda>(p, ubuf, u).
     (case convert_label env mem start eom p NS_MAXLABEL of
        None \<Rightarrow> Some None
      | Some (pos, name) \<Rightarrow> do {
          (ubuf, u) \<leftarrow> copy_owner ubuf u name;
          let p = p + pos;
          fixed \<leftarrow> bytes_at mem p 10;
          ubuf \<leftarrow> put_at u fixed ubuf;
          let dns_type = char_pair (fixed ! 0) (fixed ! 1);
          let dns_class = char_pair (fixed ! 2) (fixed ! 3);
          if dns_class \<noteq> 1 then Some None
          else if dns_type = 5 then uncompress_cname env mem start eom (p + 10, ubuf, u + 10)
          else if dns_type = 1 \<or> dns_type = 28 then uncompress_address mem eom (p + 10, ubuf, u + 10)
          else if dns_type = 6 then uncompress_soa env mem start eom (p + 10, ubuf, u + 10)
          else Some (Some (p + 10, ubuf, u + 10)) }))"

fun uncompress ::
  "dns_env \<Rightarrow> nat \<Rightarrow> u8 list \<Rightarrow> nat \<Rightarrow> nat \<Rightarrow> nat \<times> u8 list \<times> nat \<Rightarrow> (nat \<times> u8 list \<times> nat) option option" where
  "uncompress env 0 mem start eom pos = Some (Some pos)"
| "uncompress env (Suc n) mem start eom pos =
     (if fst pos < eom then do {
        r \<leftarrow> uncompress_rr env mem start eom pos;
        (case r of None \<Rightarrow> Some None | Some pos \<Rightarrow> uncompress env n mem start eom pos) }
      else Some (Some pos))"

section \<open>Taking the search domain out of a reply\<close>

text \<open>
  \<^verbatim>\<open>strstr\<close>, on the C strings at two positions: where the second one first occurs in the first. The loop
  subtracts that pointer from the current one even when nothing was found; a null pointer there is undefined and is the outer \<open>None\<close>.
  The result is the buffer with the end of the answers, or \<open>None\<close> when a record does not fit.
\<close>

fun strstr_at :: "nat \<Rightarrow> u8 list \<Rightarrow> u8 list \<Rightarrow> nat option" where
  "strstr_at i [] name = (if name = [] then Some i else None)"
| "strstr_at i (x # xs) name = (if take (length name) (x # xs) = name then Some i else strstr_at (i + 1) xs name)"

definition drop_domain :: "u8 list \<Rightarrow> nat \<Rightarrow> nat \<Rightarrow> nat \<Rightarrow> nat \<Rightarrow> (u8 list \<times> nat) option" where
  "drop_domain ubuf answers nlen found eoa = do {
     dom \<leftarrow> cstr_at ubuf (found + nlen);
     let rest = found + nlen + length dom;
     if dom = [] then Some (ubuf, eoa)
     else if eoa < rest then None
     else do {
       bs \<leftarrow> bytes_at ubuf rest (eoa - rest);
       ubuf \<leftarrow> put_at (answers + nlen) bs ubuf;
       Some (ubuf, eoa - length dom) } }"

partial_function (option) strip_loop ::
  "u8 list \<Rightarrow> u8 list \<Rightarrow> nat \<Rightarrow> nat \<Rightarrow> int \<Rightarrow> (u8 list \<times> nat) option option" where
  "strip_loop name ubuf answers eoa maxlen =
     (if maxlen \<le> 0 then Some (Some (ubuf, eoa))
      else Option.bind (cstr_at ubuf answers) (\<lambda>hay.
        Option.bind (case strstr_at answers hay name of
                       None \<Rightarrow> Some (ubuf, eoa)
                     | Some found \<Rightarrow> drop_domain ubuf answers (length name) found eoa) (\<lambda>(ubuf, eoa').
        Option.bind (cstr_at ubuf answers) (\<lambda>owner.
        Option.bind (bytes_at ubuf (answers + length owner + 9) 2) (\<lambda>lenb.
          let data_len = unat (char_pair (lenb ! 0) (lenb ! 1));
              answers' = answers + length owner + 11
          in if answers' + data_len > eoa' then Some None
             else Option.bind (strstr_at answers hay name) (\<lambda>found.
               strip_loop name ubuf (answers' + data_len) eoa'
                 (maxlen - int (eoa - eoa') - int (answers' + data_len - found))))))))"

declare strip_loop.simps [code]

definition strip_domains :: "u8 list \<Rightarrow> nat \<Rightarrow> nat \<Rightarrow> (u8 list \<times> int) option" where
  "strip_domains ubuf answers maxlen = do {
     name \<leftarrow> cstr_at ubuf 0;
     r \<leftarrow> strip_loop name ubuf answers (answers + maxlen) (int maxlen);
     Some (case r of None \<Rightarrow> (ubuf, - EINVAL) | Some (ubuf, eoa) \<Rightarrow> (ubuf, int eoa - int answers)) }"

text \<open>\<^verbatim>\<open>strnlen\<close>: reads up to a zero byte or the bound, which is unsigned.\<close>

definition strnlen_at :: "u8 list \<Rightarrow> nat \<Rightarrow> nat \<Rightarrow> nat option" where
  "strnlen_at mem p n =
     (let s = takeWhile (\<lambda>b. b \<noteq> 0) (drop p mem) in
      if 0 \<in> set (drop p mem) \<or> p + n \<le> length mem then Some (min (length s) n) else None)"

text \<open>
  The outcomes of the part of \<^verbatim>\<open>forward_dns_reply\<close> that rips the search domain off: pass the message as it is, take the
  new one, give the message up, or return with an error. The position of the type is kept in eight bits.
\<close>

datatype ripped = Pass | Stripped "u8 list" | Give_up | Corrupted

definition uncompress_all ::
  "dns_env \<Rightarrow> u8 list \<Rightarrow> nat \<Rightarrow> nat \<Rightarrow> nat \<times> u8 list \<times> nat \<Rightarrow> (nat \<times> u8 list \<times> nat) option option" where
  "uncompress_all env mem offset eom pos = do {
     an \<leftarrow> be16_at mem (offset + 6);
     ns \<leftarrow> be16_at mem (offset + 8);
     ar \<leftarrow> be16_at mem (offset + 10);
     r \<leftarrow> uncompress env (nat (sint an)) mem offset eom pos;
     (case r of
        None \<Rightarrow> Some None
      | Some pos \<Rightarrow> do {
          r \<leftarrow> uncompress env (nat (sint ns)) mem offset eom pos;
          (case r of
             None \<Rightarrow> Some None
           | Some pos \<Rightarrow> uncompress env (nat (sint ar)) mem offset eom pos) }) }"

definition rip_domain :: "dns_env \<Rightarrow> u8 list \<Rightarrow> nat \<Rightarrow> nat \<Rightarrow> ripped option" where
  "rip_domain env mem reply_len offset = do {
     let header_len = offset + 12;
     host_len \<leftarrow> byte_at mem header_len;
     domain_len \<leftarrow> (if host_len > 0
                     then strnlen_at mem (header_len + 1 + unat host_len)
                            (nat ((int reply_len - int header_len) mod 2 ^ 64))
                     else Some 0);
     let domain_len = domain_len mod 65536;
     let pos = header_len + (unat host_len + 1 + domain_len + 1) mod 256;
     q \<leftarrow> bytes_at mem pos 4;
     let dns_type = char_pair (q ! 0) (q ! 1);
     let dns_class = char_pair (q ! 2) (q ! 3);
     if dns_type \<noteq> 1 \<and> dns_type \<noteq> 28 \<and> dns_class \<noteq> 1 then Some Pass
     else if domain_len = 0 then Some Pass
     else do {
       let len = unat host_len + 1;
       host \<leftarrow> bytes_at mem header_len len;
       let p = header_len + len + domain_len + 1;
       qfixed \<leftarrow> bytes_at mem p 4;
       ubuf \<leftarrow> put_at 0 (host @ [0] @ qfixed) (take NS_MAXDNAME (stale env));
       let answers = len + 5;
       r \<leftarrow> uncompress_all env mem offset reply_len (p + 4, ubuf, answers);
       (case r of
          None \<Rightarrow> Some Give_up
        | Some (p, ubuf, u) \<Rightarrow> do {
            (ubuf, new_len) \<leftarrow> strip_domains ubuf answers (u - answers);
            if new_len < 0 then Some Corrupted
            else do {
              hd \<leftarrow> bytes_at mem 0 header_len;
              body \<leftarrow> bytes_at ubuf 0 (nat new_len + answers);
              Some (Stripped (hd @ body)) } }) } }"

section \<open>Forwarding\<close>

text \<open>Keep a reply in the request and offer it to the cache; \<open>False\<close> when there is no memory for it.\<close>

definition keep_reply ::
  "dns_env \<Rightarrow> nat \<Rightarrow> nat \<Rightarrow> u8 list \<Rightarrow> nat \<Rightarrow> dns_proxy \<Rightarrow> (dns_proxy \<times> bool) option" where
  "keep_reply env s r bs len st = do {
     req \<leftarrow> req_heap st r;
     server \<leftarrow> srv_heap st s;
     (case new_object env st of
        (st, None) \<Rightarrow> Some (set_req r (req\<lparr>resp := None, resplen := 0\<rparr>) st, False)
      | (st, Some a) \<Rightarrow> do {
          kept \<leftarrow> bytes_at bs 0 len;
          (c, ret) \<leftarrow> cache_update (now env) (sv_protocol server) (dns st) bs len (alloc_ok env (a + 1)) (alloc_ok env (a + 2));
          Some (set_req r (req\<lparr>resp := Some kept, resplen := len\<rparr>) (st\<lparr>dns := c, next_id := a + 2\<rparr>), True) }) }"

text \<open>The first half: find what to keep. The integer is a return value when the function returns here.\<close>

definition take_reply ::
  "dns_env \<Rightarrow> nat \<Rightarrow> nat \<Rightarrow> u8 list \<Rightarrow> nat \<Rightarrow> nat \<Rightarrow> dns_proxy \<Rightarrow> (dns_proxy \<times> int option) option" where
  "take_reply env s r mem reply_len offset st = do {
     req \<leftarrow> req_heap st r;
     qdcount \<leftarrow> be16_at mem (offset + 4);
     rip \<leftarrow> (if append_domain req \<and> qdcount = 1 then rip_domain env mem reply_len offset else Some Pass);
     (case rip of
        Give_up \<Rightarrow> Some (st, None)
      | Corrupted \<Rightarrow> Some (st, Some (- EINVAL))
      | Pass \<Rightarrow> do {
          (st, ok) \<leftarrow> keep_reply env s r mem reply_len st;
          Some (st, if ok then None else Some (- ENOMEM)) }
      | Stripped bs \<Rightarrow>
          (case new_object env st of
             (st, None) \<Rightarrow> Some (st, Some (- ENOMEM))
           | (st, Some a) \<Rightarrow> do {
               (st, ok) \<leftarrow> keep_reply env s r bs (length bs) st;
               Some (st, if ok then None else Some (- ENOMEM)) })) }"

text \<open>The second half: answer the client and release the request.\<close>

definition answer_client :: "dns_env \<Rightarrow> nat \<Rightarrow> int \<Rightarrow> dns_proxy \<Rightarrow> (dns_proxy \<times> int) option" where
  "answer_client env r protocol st = do {
     req \<leftarrow> req_heap st r;
     let st = st\<lparr>request_list := g_list_remove r (request_list st)\<rparr>;
     sk \<leftarrow> (if protocol = PROTO_UDP then get_req_udp_socket st req else Some (client_sk req));
     (st, err) \<leftarrow> (if protocol = PROTO_UDP \<and> sk < 0 then Some (st, - EIO)
        else do {
          out \<leftarrow> (case resp req of None \<Rightarrow> Some [] | Some bs \<Rightarrow> bytes_at bs 0 (resplen req));
          let (st, ok) = do_send env sk out (if protocol = PROTO_UDP then Some (rq_sa req) else None) st;
          Some (st, if ok then int (resplen req) else - 1) });
     st \<leftarrow> destroy_request_data r st;
     Some (st, err) }"

definition forward_dns_reply ::
  "dns_env \<Rightarrow> nat \<Rightarrow> u8 list \<Rightarrow> nat \<Rightarrow> int \<Rightarrow> dns_proxy \<Rightarrow> (dns_proxy \<times> int) option" where
  "forward_dns_reply env s mem reply_len protocol st =
     (let offset = nat (protocol_offset protocol) in
      if protocol_offset protocol < 0 then Some (st, protocol_offset protocol)
      else do {
        lo \<leftarrow> byte_at mem offset;
        hi \<leftarrow> byte_at mem (offset + 1);
        found \<leftarrow> find_request st (be16_of hi lo);
        (case found of
           None \<Rightarrow> Some (st, - EINVAL)
         | Some r \<Rightarrow> do {
             req \<leftarrow> req_heap st r;
             mem \<leftarrow> put_at offset (id_bytes (srcid req)) mem;
             let st = set_req r (req\<lparr>numresp := numresp req + 1\<rparr>) st;
             flags \<leftarrow> byte_at mem (offset + 3);
             (st, ret) \<leftarrow> (if hdr_rcode flags = 0 \<or> resp req = None
                           then take_reply env s r mem reply_len offset st
                           else Some (st, None));
             (case ret of
                Some e \<Rightarrow> Some (st, e)
              | None \<Rightarrow> do {
                  ancount \<leftarrow> be16_at mem (offset + 6);
                  if numresp req + 1 < numserv req \<and> (hdr_rcode flags > 0 \<or> ancount = 0 \<and> append_domain req)
                  then Some (st, - EINVAL)
                  else answer_client env r protocol st }) }) })"

section \<open>Server sockets\<close>

text \<open>What the main loop reports, and the result of a read: bytes (none at the end of the stream), nothing to read
  yet, or another error. A handler returns whether its source stays.\<close>

record io_cond =
  io_err :: bool
  io_out :: bool
  io_in :: bool

datatype recv_result = Recv "u8 list" | Would_block | Recv_error

definition udp_server_event :: "dns_env \<Rightarrow> nat \<Rightarrow> bool \<Rightarrow> recv_result \<Rightarrow> dns_proxy \<Rightarrow> (dns_proxy \<times> bool) option" where
  "udp_server_event env s err rcv st =
     (if err then do { st \<leftarrow> server_destroy_socket s st; Some (st, False) }
      else
        (case rcv of
           Recv bs \<Rightarrow>
             if length bs < 12 then Some (st, True)
             else do {
               (st, ret) \<leftarrow> forward_dns_reply env s (bs @ take (4096 - length bs) (stale env)) (length bs) PROTO_UDP st;
               Some (st, True) }
         | _ \<Rightarrow> Some (st, True)))"

fun hangup_requests :: "nat list \<Rightarrow> dns_proxy \<Rightarrow> dns_proxy option" where
  "hangup_requests [] st = Some st"
| "hangup_requests (r # rs) st = do {
     req \<leftarrow> req_heap st r;
     (case request req of
        None \<Rightarrow> hangup_requests rs st
      | Some bs \<Rightarrow>
        if rq_protocol req = PROTO_UDP then hangup_requests rs st
        else if numserv req > 1 then hangup_requests rs (set_req r (req\<lparr>numserv := numserv req - 1\<rparr>) st)
        else do {
          bs \<leftarrow> put_at 2 (id_bytes (srcid req)) bs;
          (bs, out) \<leftarrow> send_response bs (int (request_len req)) PROTO_TCP;
          let st = send_opt (client_sk req) out None (set_req r (req\<lparr>numserv := 0, request := Some bs\<rparr>) st);
          hangup_requests rs (st\<lparr>request_list := g_list_remove r (request_list st)\<rparr>) }) }"

definition tcp_hangup :: "nat \<Rightarrow> dns_proxy \<Rightarrow> dns_proxy option" where
  "tcp_hangup s st = do {
     server \<leftarrow> srv_heap st s;
     st \<leftarrow> hangup_requests (request_list st) (set_srv s (server\<lparr>incoming_reply := None\<rparr>) st);
     destroy_server s st }"

fun connect_requests :: "dns_env \<Rightarrow> nat \<Rightarrow> nat list \<Rightarrow> bool \<Rightarrow> dns_proxy \<Rightarrow> (dns_proxy \<times> bool) option" where
  "connect_requests env s [] sent st = Some (st, sent)"
| "connect_requests env s (r # rs) sent st = do {
     req \<leftarrow> req_heap st r;
     if rq_protocol req = PROTO_UDP then connect_requests env s rs sent st
     else do {
       (st, status) \<leftarrow> ns_resolv env s r (request req) (rq_name req) st;
       if status > 0 then do { st \<leftarrow> release_request r st; connect_requests env s rs sent st }
       else if status < 0 then connect_requests env s rs sent st
       else do { st \<leftarrow> restart_timeout r st; connect_requests env s rs True st } } }"

definition tcp_connected :: "dns_env \<Rightarrow> nat \<Rightarrow> dns_proxy \<Rightarrow> (dns_proxy \<times> bool) option" where
  "tcp_connected env s st = do {
     server \<leftarrow> srv_heap st s;
     found \<leftarrow> find_server st (sv_index server) (sv_server server) PROTO_UDP;
     udp_domains \<leftarrow> (case found of None \<Rightarrow> Some [] | Some u \<Rightarrow> map_option domains (srv_heap st u));
     let server = server\<lparr>domains := domains server @ udp_domains, connected := True\<rparr>;
     let st = st\<lparr>server_list := server_list st @ [s]\<rparr>;
     let st = (if sv_timeout server > 0 then source_remove (sv_timeout server) st else st);
     (st, sent) \<leftarrow> connect_requests env s (request_list st) False (set_srv s (server\<lparr>sv_timeout := 0\<rparr>) st);
     if sent then Some (st, True) else do { st \<leftarrow> destroy_server s st; Some (st, False) } }"

text \<open>The loop over \<^verbatim>\<open>recv\<close>: what has arrived, and whether the loop was left without waiting for more.\<close>

fun tcp_read :: "nat \<Rightarrow> u8 list \<Rightarrow> recv_result list \<Rightarrow> u8 list \<times> bool" where
  "tcp_read len got rs =
     (if length got \<ge> len then (got, True)
      else
        (case rs of
           Recv bs # rs' \<Rightarrow> if bs = [] then (got, True) else tcp_read len (got @ take (len - length got) bs) rs'
         | Recv_error # rs' \<Rightarrow> (got, True)
         | _ \<Rightarrow> (got, False)))"

declare tcp_read.simps [simp del]

definition tcp_reply :: "dns_env \<Rightarrow> nat \<Rightarrow> recv_result list \<Rightarrow> dns_proxy \<Rightarrow> (dns_proxy \<times> bool) option" where
  "tcp_reply env s rs st = do {
     server \<leftarrow> srv_heap st s;
     (len, got) \<leftarrow> incoming_reply server;
     let (got, complete) = tcp_read len got rs;
     let st = set_srv s (server\<lparr>incoming_reply := Some (len, got)\<rparr>) st;
     if \<not> complete then Some (st, True)
     else do {
       (st, ret) \<leftarrow> forward_dns_reply env s (got @ take (len + 2 - length got) (stale env)) (length got) PROTO_TCP st;
       st \<leftarrow> destroy_server s st;
       Some (st, False) } }"

definition tcp_server_event ::
  "dns_env \<Rightarrow> nat \<Rightarrow> io_cond \<Rightarrow> recv_result \<Rightarrow> recv_result list \<Rightarrow> dns_proxy \<Rightarrow> (dns_proxy \<times> bool) option" where
  "tcp_server_event env s cond peek rs st = do {
     server \<leftarrow> srv_heap st s;
     if channel server = Some 0 then Some (st, False)
     else if io_err cond then do { st \<leftarrow> tcp_hangup s st; Some (st, False) }
     else if io_out cond \<and> \<not> connected server then tcp_connected env s st
     else if io_in cond then
       if incoming_reply server \<noteq> None then tcp_reply env s rs st
       else
         (case peek of
            Would_block \<Rightarrow> Some (st, True)
          | Recv_error \<Rightarrow> do { st \<leftarrow> tcp_hangup s st; Some (st, False) }
          | Recv bs \<Rightarrow>
              if bs = [] then do { st \<leftarrow> tcp_hangup s st; Some (st, False) }
              else if length bs < 2 then Some (st, True)
              else
                let reply_len = be16_of (bs ! 0) (bs ! 1) + 2 in
                (case new_object env st of
                   (st, None) \<Rightarrow> Some (st, True)
                 | (st, Some a) \<Rightarrow>
                     tcp_reply env s rs (set_srv s (server\<lparr>incoming_reply := Some (unat reply_len, [])\<rparr>) st)))
     else Some (st, True) }"

end
