(* ===== verification/DnsListener.thy ===== *)
theory DnsListener
  imports DnsReply
begin

text \<open>
  The clients of the DNS proxy (\<^verbatim>\<open>src/dnsproxy.c\<close>): the listening sockets of an interface, questions over UDP,
  connections and the reassembly of questions over TCP, and the start and end of the proxy.
\<close>

section \<open>Questions over UDP\<close>

text \<open>A fresh request: zeroed memory with the fields the handlers fill in before anything else happens.\<close>

definition new_request :: "u8 list \<Rightarrow> int \<Rightarrow> int \<Rightarrow> int \<Rightarrow> u16 \<Rightarrow> u16 \<Rightarrow> u16 \<Rightarrow> nat \<Rightarrow> nat \<Rightarrow> request_data" where
  "new_request sa sk protocol family src dst alt len ifdata =
     \<lparr>rq_sa = sa, client_sk = sk, rq_protocol = protocol, rq_family = family, srcid = src, dstid = dst, altid = alt,
      rq_timeout = 0, numserv = 0, numresp = 0, request = None, request_len = len, rq_name = None, resp = None,
      resplen = 0, rq_ifdata = ifdata, append_domain = False\<rparr>"

text \<open>The request enters the list: its copy of the question, its name and its timer.\<close>

definition queue_request :: "nat \<Rightarrow> u8 list \<Rightarrow> u8 list \<Rightarrow> dns_proxy \<Rightarrow> dns_proxy option" where
  "queue_request r bs query st = do {
     req \<leftarrow> req_heap st r;
     let (st, n) = add_source (Req_timeout r) st;
     let st = set_req r (req\<lparr>rq_name := Some query, request := Some bs, rq_timeout := n\<rparr>) st;
     Some (st\<lparr>request_list := request_list st @ [r]\<rparr>) }"

text \<open>The handler of the UDP sockets of the listener \<open>l\<close>. The received bytes, with the address of their
  sender, are at the start of a buffer of 768 bytes.\<close>

definition udp_listener_event ::
  "dns_env \<Rightarrow> nat \<Rightarrow> int \<Rightarrow> bool \<Rightarrow> (recv_result \<times> u8 list) \<Rightarrow> dns_proxy \<Rightarrow> (dns_proxy \<times> bool) option" where
  "udp_listener_event env l family err rcv st = do {
     ifdata \<leftarrow> li_heap st l;
     if err then
       Some (st\<lparr>li_heap := (li_heap st)(l \<mapsto>
               (if family = AF_INET then ifdata\<lparr>udp4_watch := 0\<rparr> else ifdata\<lparr>udp6_watch := 0\<rparr>))\<rparr>, False)
     else
       (case rcv of
          (Recv bs, addr) \<Rightarrow>
            if length bs < 2 then Some (st, True)
            else do {
              sk \<leftarrow> (if family = AF_INET then udp4_channel ifdata else udp6_channel ifdata);
              let len = length bs;
              (buf, query, e) \<leftarrow> parse_request (bs @ take (768 - len) (stale env)) 0 (int len) 512;
              if e < 0 \<or> server_list st = [] then do {
                (buf, out) \<leftarrow> send_response buf (int len) PROTO_UDP;
                Some (send_opt sk out (Some addr) st, True) }
              else
                (case new_object env st of
                   (st, None) \<Rightarrow> Some (st, True)
                 | (st, Some r) \<Rightarrow>
                   let (st, dst) = get_id env st; (st, alt) = get_id env st;
                       req = new_request addr 0 PROTO_UDP family (be16_of (buf ! 1) (buf ! 0)) dst alt len l
                   in do {
                     buf \<leftarrow> put_at 0 (id_bytes dst) buf;
                     (st, cached) \<leftarrow> resolv env r (Some buf) (Some query) (set_req r req st);
                     if cached then Some (st\<lparr>req_heap := (req_heap st)(r := None)\<rparr>, True)
                     else do {
                       st \<leftarrow> queue_request r (take len buf) query st;
                       Some (st, True) } }) }
        | _ \<Rightarrow> Some (st, True)) }"

section \<open>Questions over TCP\<close>

abbreviation "TCP_MAX_BUF_LEN \<equiv> (4096 :: nat)"

definition set_client :: "int \<Rightarrow> tcp_partial_client \<Rightarrow> dns_proxy \<Rightarrow> dns_proxy" where
  "set_client sk c st = st\<lparr>clients := (clients st)(sk \<mapsto> c)\<rparr>"

text \<open>One TCP server per enabled UDP server; the list does not change before a connection is made.\<close>

fun connect_servers :: "dns_env \<Rightarrow> nat list \<Rightarrow> bool \<Rightarrow> dns_proxy \<Rightarrow> (dns_proxy \<times> bool) option" where
  "connect_servers env [] waiting st = Some (st, waiting)"
| "connect_servers env (s # ss) waiting st = do {
     data \<leftarrow> srv_heap st s;
     if sv_protocol data \<noteq> PROTO_UDP \<or> \<not> enabled data then connect_servers env ss waiting st
     else do {
       (st, new) \<leftarrow> create_server env (sv_index data) None (sv_server data) PROTO_TCP st;
       connect_servers env ss (waiting \<or> new \<noteq> None) st } }"

text \<open>
  One question of a client. \<open>True\<close> in the second place is the jump to \<^verbatim>\<open>out\<close>, where the question is taken out of the
  buffer; \<open>False\<close> is a return that leaves the buffer as it is.
\<close>

definition tcp_send_failure :: "int \<Rightarrow> u8 list \<Rightarrow> nat \<Rightarrow> dns_proxy \<Rightarrow> (u8 list \<times> dns_proxy) option" where
  "tcp_send_failure sk buf len st = do {
     (buf, out) \<leftarrow> send_response buf (int len) PROTO_TCP;
     Some (buf, send_opt sk out None st) }"

definition set_buf :: "int \<Rightarrow> u8 list \<Rightarrow> dns_proxy \<Rightarrow> dns_proxy option" where
  "set_buf sk buf st = map_option (\<lambda>c. set_client sk (c\<lparr>tc_buf := Some buf\<rparr>) st) (clients st sk)"

definition queue_tcp ::
  "dns_env \<Rightarrow> int \<Rightarrow> nat \<Rightarrow> u8 list \<Rightarrow> u8 list \<Rightarrow> nat \<Rightarrow> dns_proxy \<Rightarrow> (dns_proxy \<times> bool) option" where
  "queue_tcp env sk r buf query len st = do {
     (st, waiting) \<leftarrow> connect_servers env (server_list st) False st;
     let dropped = st\<lparr>req_heap := (req_heap st)(r := None)\<rparr>;
     if \<not> waiting then do {
       (buf, st) \<leftarrow> tcp_send_failure sk buf len dropped;
       st \<leftarrow> set_buf sk buf st;
       Some (st, False) }
     else
       let (st, a) = new_object env st; (st, b) = new_object env st in
       if a = None \<or> b = None then do {
         (buf, st) \<leftarrow> tcp_send_failure sk buf len (st\<lparr>req_heap := (req_heap st)(r := None)\<rparr>);
         st \<leftarrow> set_buf sk buf st;
         Some (st, True) }
       else do {
         bs \<leftarrow> bytes_at buf 0 len;
         st \<leftarrow> queue_request r bs query st;
         st \<leftarrow> set_buf sk buf st;
         Some (st, True) } }"

definition tcp_question ::
  "dns_env \<Rightarrow> int \<Rightarrow> u8 list \<Rightarrow> nat \<Rightarrow> dns_proxy \<Rightarrow> (dns_proxy \<times> bool) option" where
  "tcp_question env sk addr msg_len st = do {
     client \<leftarrow> clients st sk;
     buf \<leftarrow> tc_buf client;
     (buf, query, e) \<leftarrow> parse_request buf 2 (int msg_len) TCP_MAX_BUF_LEN;
     if e < 0 \<or> server_list st = [] then do {
       (buf, st) \<leftarrow> tcp_send_failure sk buf (msg_len + 2) st;
       st \<leftarrow> set_buf sk buf st;
       Some (st, False) }
     else
       (case new_object env st of
          (st, None) \<Rightarrow> do { st \<leftarrow> set_buf sk buf st; Some (st, False) }
        | (st, Some r) \<Rightarrow>
          let (st, dst) = get_id env st; (st, alt) = get_id env st;
              req = new_request addr sk PROTO_TCP (tc_family client) (be16_of (buf ! 3) (buf ! 2)) dst alt
                      (msg_len + 2) (tc_ifdata client);
              st = set_req r req st
          in do {
            buf \<leftarrow> put_at 2 (id_bytes dst) buf;
            st \<leftarrow> set_buf sk buf st;
            (c, hit) \<leftarrow> cache_check (now env) (dns st) (Some buf) PROTO_TCP;
            (st, ret) \<leftarrow> resolv_cached env (st\<lparr>dns := c\<rparr>) req hit;
            if ret \<noteq> None then Some (st\<lparr>req_heap := (req_heap st)(r := None)\<rparr>, True)
            else queue_tcp env sk r buf query (msg_len + 2) st }) }"

text \<open>
  \<^verbatim>\<open>out\<close>: what follows the question is moved to the front, as many bytes as the buffer has left behind
  \<open>buf_end\<close>; or the buffer is cleared and the timer stopped. \<open>True\<close> when one more question is complete.
\<close>

definition tcp_shift :: "int \<Rightarrow> nat \<Rightarrow> dns_proxy \<Rightarrow> (dns_proxy \<times> nat option) option" where
  "tcp_shift sk msg_len st = do {
     client \<leftarrow> clients st sk;
     buf \<leftarrow> tc_buf client;
     if buf_end client > msg_len + 2 then do {
       bs \<leftarrow> bytes_at buf (msg_len + 2) (TCP_MAX_BUF_LEN - buf_end client);
       buf \<leftarrow> put_at 0 bs buf;
       let left = buf_end client - (msg_len + 2);
       n \<leftarrow> get_msg_len buf;
       Some (set_client sk (client\<lparr>tc_buf := Some buf, buf_end := left\<rparr>) st,
             if unat n + 2 = left then Some (unat n) else None) }
     else
       Some (set_client sk (client\<lparr>tc_buf := Some (replicate TCP_MAX_BUF_LEN 0), buf_end := 0, tc_timeout := 0\<rparr>)
               (source_remove (tc_timeout client) st), None) }"

partial_function (option) read_messages ::
  "dns_env \<Rightarrow> int \<Rightarrow> u8 list \<Rightarrow> nat \<Rightarrow> dns_proxy \<Rightarrow> dns_proxy option" where
  "read_messages env sk addr msg_len st =
     Option.bind (clients st sk) (\<lambda>client.
       if buf_end client < msg_len + 2 then Some st
       else Option.bind (tcp_question env sk addr msg_len st) (\<lambda>(st, out).
         if \<not> out then Some st
         else Option.bind (tcp_shift sk msg_len st) (\<lambda>(st, more).
           case more of None \<Rightarrow> Some st | Some n \<Rightarrow> read_messages env sk addr n st)))"

declare read_messages.simps [code]

definition read_tcp_data :: "dns_env \<Rightarrow> int \<Rightarrow> u8 list \<Rightarrow> nat \<Rightarrow> dns_proxy \<Rightarrow> (dns_proxy \<times> bool) option" where
  "read_tcp_data env sk addr read_len st =
     (if read_len = 0 then Some (free_partial_reqs sk st, False)
      else do {
        client \<leftarrow> clients st sk;
        buf \<leftarrow> tc_buf client;
        let client = client\<lparr>buf_end := buf_end client + read_len\<rparr>;
        let st = set_client sk client st;
        if buf_end client < 2 then Some (st, True)
        else do {
          n \<leftarrow> get_msg_len buf;
          if unat n > TCP_MAX_BUF_LEN then Some (free_partial_reqs sk st, False)
          else do { st \<leftarrow> read_messages env sk addr (unat n) st; Some (st, True) } } })"

text \<open>\<^verbatim>\<open>recvfrom\<close> writes behind what is in the buffer, at most up to its end.\<close>

definition tcp_client_event ::
  "dns_env \<Rightarrow> int \<Rightarrow> bool \<Rightarrow> recv_result \<times> u8 list \<Rightarrow> dns_proxy \<Rightarrow> (dns_proxy \<times> bool) option" where
  "tcp_client_event env sk err rcv st =
     (if err then Some (free_partial_reqs sk st, False)
      else do {
        client \<leftarrow> clients st sk;
        if tc_family client \<noteq> AF_INET \<and> tc_family client \<noteq> AF_INET6 then Some (free_partial_reqs sk st, False)
        else
          (case rcv of
             (Recv bs, addr) \<Rightarrow> do {
               let bs = take (TCP_MAX_BUF_LEN - buf_end client) bs;
               buf \<leftarrow> tc_buf client;
               buf \<leftarrow> put_at (buf_end client) bs buf;
               st \<leftarrow> set_buf sk buf st;
               read_tcp_data env sk addr (length bs) st }
           | (Would_block, addr) \<Rightarrow> Some (st, True)
           | (Recv_error, addr) \<Rightarrow> Some (free_partial_reqs sk st, False)) })"

definition client_timeout :: "int \<Rightarrow> dns_proxy \<Rightarrow> dns_proxy" where
  "client_timeout sk st = free_partial_reqs sk st"

text \<open>
  A new connection: \<open>accepted\<close> is \<open>None\<close> when there is nothing to accept, and otherwise the socket. The
  client of the socket is created, or used again if the table has one.
\<close>

definition set_tcp_watch :: "int \<Rightarrow> nat \<Rightarrow> listener_data \<Rightarrow> listener_data" where
  "set_tcp_watch family n ifdata =
     (if family = AF_INET then ifdata\<lparr>tcp4_watch := n\<rparr> else ifdata\<lparr>tcp6_watch := n\<rparr>)"

definition tcp_watch :: "int \<Rightarrow> listener_data \<Rightarrow> nat" where
  "tcp_watch family ifdata = (if family = AF_INET then tcp4_watch ifdata else tcp6_watch ifdata)"

definition accept_client :: "dns_env \<Rightarrow> nat \<Rightarrow> int \<Rightarrow> dns_proxy \<Rightarrow> dns_proxy \<times> bool" where
  "accept_client env l sk st =
     (case clients st sk of
        Some client \<Rightarrow> (st, True)
      | None \<Rightarrow>
        (case new_object env st of
           (st, None) \<Rightarrow> (act (Closed sk) st, False)
         | (st, Some a) \<Rightarrow>
             let (st, w) = add_source (Client_watch sk) st in
             (set_client sk \<lparr>tc_family = 0, tc_ifdata = l, tc_channel = Some sk, tc_watch = w, tc_buf = None,
                             buf_end = 0, tc_timeout = 0\<rparr> st, True)))"

definition prepare_client :: "dns_env \<Rightarrow> int \<Rightarrow> int \<Rightarrow> dns_proxy \<Rightarrow> (dns_proxy \<times> bool) option" where
  "prepare_client env family sk st = do {
     client \<leftarrow> clients st sk;
     let (st, a) = (if tc_buf client = None then new_object env st else (st, Some 0));
     if a = None then Some (st, False)
     else
       let (st, t) = (if tc_timeout client = 0 then add_source (Client_timeout sk) st else (st, tc_timeout client)) in
       Some (set_client sk (client\<lparr>tc_buf := Some (replicate TCP_MAX_BUF_LEN 0), buf_end := 0, tc_family := family,
                                  tc_timeout := t\<rparr>) st, True) }"

definition first_data ::
  "dns_env \<Rightarrow> int \<Rightarrow> recv_result \<Rightarrow> u8 list \<Rightarrow> dns_proxy \<Rightarrow> (dns_proxy \<times> bool) option" where
  "first_data env sk rcv addr st =
     (case rcv of
        Would_block \<Rightarrow> Some (st, True)
      | Recv_error \<Rightarrow> Some (free_partial_reqs sk st, True)
      | Recv bs \<Rightarrow> do {
          let bs = take TCP_MAX_BUF_LEN bs;
          client \<leftarrow> clients st sk;
          buf \<leftarrow> tc_buf client;
          buf \<leftarrow> put_at 0 bs buf;
          let waiting = set_client sk (client\<lparr>tc_buf := Some buf, buf_end := length bs\<rparr>) st;
          if length bs < 2 then Some (waiting, True)
          else do {
            n \<leftarrow> get_msg_len buf;
            if unat n > TCP_MAX_BUF_LEN then Some (free_partial_reqs sk st, True)
            else if unat n \<noteq> length bs - 2 then Some (waiting, True)
            else do {
              st \<leftarrow> set_buf sk buf st;
              read_tcp_data env sk addr (length bs) st } } })"

definition tcp_listener_event ::
  "dns_env \<Rightarrow> nat \<Rightarrow> int \<Rightarrow> bool \<Rightarrow> (int \<times> u8 list) option \<Rightarrow> recv_result \<Rightarrow> dns_proxy \<Rightarrow> (dns_proxy \<times> bool) option" where
  "tcp_listener_event env l family err accepted rcv st = do {
     ifdata \<leftarrow> li_heap st l;
     let cleared = (\<lambda>st. st\<lparr>li_heap := (li_heap st)(l \<mapsto> set_tcp_watch family 0 ifdata)\<rparr>);
     if err then
       Some (cleared (if tcp_watch family ifdata > 0 then source_remove (tcp_watch family ifdata) st else st), False)
     else
       (case accepted of
          None \<Rightarrow> Some (st, True)
        | Some (sk, addr) \<Rightarrow>
          if sk < 0 then Some (cleared st, False)
          else
            (case accept_client env l sk st of
               (st, False) \<Rightarrow> Some (st, False)
             | (st, True) \<Rightarrow> do {
                 (st, ok) \<leftarrow> prepare_client env family sk st;
                 if \<not> ok then Some (st, False) else first_data env sk rcv addr st })) }"

section \<open>Listeners\<close>

definition get_listener :: "dns_env \<Rightarrow> int \<Rightarrow> int \<Rightarrow> int \<Rightarrow> dns_proxy \<Rightarrow> dns_proxy \<times> int option" where
  "get_listener env family protocol index st =
     (let io = listen_of env family protocol index in
      if protocol \<noteq> PROTO_UDP \<and> protocol \<noteq> PROTO_TCP then (st, None)
      else
        (case ls_fd io of
           None \<Rightarrow> (st, None)
         | Some sk \<Rightarrow>
             if \<not> ls_device io \<or> family \<noteq> AF_INET \<and> family \<noteq> AF_INET6 \<or> \<not> ls_address io \<or> \<not> ls_bind io \<or>
                protocol = PROTO_TCP \<and> \<not> ls_listen io \<or> \<not> ls_channel io
             then (act (Closed sk) st, None)
             else (st, Some sk)))"

abbreviation "UDP_IPv4_FAILED \<equiv> (1 :: u8)"
abbreviation "TCP_IPv4_FAILED \<equiv> (2 :: u8)"
abbreviation "UDP_IPv6_FAILED \<equiv> (4 :: u8)"
abbreviation "TCP_IPv6_FAILED \<equiv> (8 :: u8)"
abbreviation "UDP_FAILED \<equiv> (5 :: u8)"
abbreviation "TCP_FAILED \<equiv> (10 :: u8)"
abbreviation "IPv6_FAILED \<equiv> (12 :: u8)"
abbreviation "IPv4_FAILED \<equiv> (3 :: u8)"

definition watch_opt :: "source \<Rightarrow> int option \<Rightarrow> nat \<Rightarrow> dns_proxy \<Rightarrow> dns_proxy \<times> nat" where
  "watch_opt src fd old st = (if fd = None then (st, old) else add_source src st)"

definition create_dns_listener ::
  "dns_env \<Rightarrow> int \<Rightarrow> nat \<Rightarrow> listener_data \<Rightarrow> dns_proxy \<Rightarrow> dns_proxy \<times> listener_data \<times> u8" where
  "create_dns_listener env protocol l ifdata st =
     (let (st, c4) = get_listener env AF_INET protocol (li_index ifdata) st in
      if protocol = PROTO_TCP then
        let (st, w4) = watch_opt (Tcp4_watch l) c4 (tcp4_watch ifdata) st;
            (st, c6) = get_listener env AF_INET6 protocol (li_index ifdata) st;
            (st, w6) = watch_opt (Tcp6_watch l) c6 (tcp6_watch ifdata) st
        in (st, ifdata\<lparr>tcp4_channel := c4, tcp4_watch := w4, tcp6_channel := c6, tcp6_watch := w6\<rparr>,
            (if c4 = None then TCP_IPv4_FAILED else 0) OR (if c6 = None then TCP_IPv6_FAILED else 0))
      else
        let (st, w4) = watch_opt (Udp4_watch l) c4 (udp4_watch ifdata) st;
            (st, c6) = get_listener env AF_INET6 protocol (li_index ifdata) st;
            (st, w6) = watch_opt (Udp6_watch l) c6 (udp6_watch ifdata) st
        in (st, ifdata\<lparr>udp4_channel := c4, udp4_watch := w4, udp6_channel := c6, udp6_watch := w6\<rparr>,
            (if c4 = None then UDP_IPv4_FAILED else 0) OR (if c6 = None then UDP_IPv6_FAILED else 0)))"

definition remove_watch :: "nat \<Rightarrow> dns_proxy \<Rightarrow> dns_proxy" where
  "remove_watch n st = (if n > 0 then source_remove n st else st)"

definition close_channel :: "int option \<Rightarrow> dns_proxy \<Rightarrow> dns_proxy" where
  "close_channel c st = (case c of None \<Rightarrow> st | Some fd \<Rightarrow> act (Closed fd) st)"

definition destroy_udp_listener :: "listener_data \<Rightarrow> dns_proxy \<Rightarrow> dns_proxy" where
  "destroy_udp_listener ifdata st =
     (let st = remove_watch (udp6_watch ifdata) (remove_watch (udp4_watch ifdata) st)
      in close_channel (udp6_channel ifdata) (close_channel (udp4_channel ifdata) st))"

definition destroy_tcp_listener :: "listener_data \<Rightarrow> dns_proxy \<Rightarrow> dns_proxy" where
  "destroy_tcp_listener ifdata st =
     (let st = remove_watch (tcp6_watch ifdata) (remove_watch (tcp4_watch ifdata) st)
      in close_channel (tcp6_channel ifdata) (close_channel (tcp4_channel ifdata) st))"

definition create_listener ::
  "dns_env \<Rightarrow> nat \<Rightarrow> listener_data \<Rightarrow> dns_proxy \<Rightarrow> dns_proxy \<times> listener_data \<times> int" where
  "create_listener env l ifdata st =
     (let (st, ifdata, e1) = create_dns_listener env PROTO_UDP l ifdata st in
      if e1 AND UDP_FAILED = UDP_FAILED then (st, ifdata, - EIO)
      else
        let (st, ifdata, e2) = create_dns_listener env PROTO_TCP l ifdata st; err = e1 OR e2 in
        if err AND TCP_FAILED = TCP_FAILED then (destroy_udp_listener ifdata st, ifdata, - EIO)
        else
          let lo = lo_index env;
              st = (if li_index ifdata = lo \<and> err AND IPv6_FAILED \<noteq> IPv6_FAILED
                    then act (Resolvfile_append lo ''::1'') st else st);
              st = (if li_index ifdata = lo \<and> err AND IPv4_FAILED \<noteq> IPv4_FAILED
                    then act (Resolvfile_append lo ''127.0.0.1'') st else st)
          in (st, ifdata, 0))"

fun drop_requests :: "nat list \<Rightarrow> dns_proxy \<Rightarrow> dns_proxy option" where
  "drop_requests [] st = Some st"
| "drop_requests (r # rs) st = do { st \<leftarrow> destroy_request_data r st; drop_requests rs st }"

definition destroy_listener :: "dns_env \<Rightarrow> listener_data \<Rightarrow> dns_proxy \<Rightarrow> dns_proxy option" where
  "destroy_listener env ifdata st = do {
     let lo = lo_index env;
     let st = (if li_index ifdata = lo
               then act (Resolvfile_remove lo ''::1'') (act (Resolvfile_remove lo ''127.0.0.1'') st) else st);
     st \<leftarrow> drop_requests (request_list st) st;
     Some (destroy_udp_listener ifdata (destroy_tcp_listener ifdata (st\<lparr>request_list := []\<rparr>))) }"

definition new_listener :: "int \<Rightarrow> listener_data" where
  "new_listener index =
     \<lparr>li_index = index, udp4_channel = None, tcp4_channel = None, udp4_watch = 0, tcp4_watch = 0, udp6_channel = None,
      tcp6_channel = None, udp6_watch = 0, tcp6_watch = 0\<rparr>"

definition connman_dnsproxy_add_listener :: "dns_env \<Rightarrow> int \<Rightarrow> dns_proxy \<Rightarrow> dns_proxy \<times> int" where
  "connman_dnsproxy_add_listener env index st =
     (if index < 0 then (st, - EINVAL)
      else
        (case listener_table st of
           None \<Rightarrow> (st, - ENOENT)
         | Some t \<Rightarrow>
           if map_of t index \<noteq> None then (st, 0)
           else
             (case new_object env st of
                (st, None) \<Rightarrow> (st, - ENOMEM)
              | (st, Some l) \<Rightarrow>
                let (st, ifdata, err) = create_listener env l (new_listener index) st in
                if err < 0 then (st, err)
                else (st\<lparr>li_heap := (li_heap st)(l \<mapsto> ifdata), listener_table := Some ((index, l) # t)\<rparr>, 0))))"

definition free_listener :: "dns_env \<Rightarrow> nat \<Rightarrow> dns_proxy \<Rightarrow> dns_proxy option" where
  "free_listener env l st = do {
     ifdata \<leftarrow> li_heap st l;
     st \<leftarrow> destroy_listener env ifdata st;
     Some (st\<lparr>li_heap := (li_heap st)(l := None)\<rparr>) }"

definition connman_dnsproxy_remove_listener :: "dns_env \<Rightarrow> int \<Rightarrow> dns_proxy \<Rightarrow> dns_proxy option" where
  "connman_dnsproxy_remove_listener env index st =
     (case listener_table st of
        None \<Rightarrow> Some st
      | Some t \<Rightarrow>
        (case map_of t index of
           None \<Rightarrow> Some st
         | Some l \<Rightarrow> do {
             st \<leftarrow> free_listener env l st;
             Some (st\<lparr>listener_table := Some (AList.delete index t)\<rparr>) }))"

section \<open>Start and end\<close>

text \<open>\<open>registered\<close> is the result of \<^verbatim>\<open>connman_notifier_register\<close>. Destroying the table of clients frees each of
  them; the sockets with a client are listed in \<open>sks\<close>, as a map has no enumeration.\<close>

definition connman_dnsproxy_init :: "dns_env \<Rightarrow> int \<Rightarrow> dns_proxy \<Rightarrow> (dns_proxy \<times> int) option" where
  "connman_dnsproxy_init env registered st =
     (let (st, err) = connman_dnsproxy_add_listener env (lo_index env)
                        (st\<lparr>listener_table := Some [], clients := Map.empty\<rparr>) in
      if err < 0 then Some (st, err)
      else if registered < 0 then do {
        st \<leftarrow> connman_dnsproxy_remove_listener env (lo_index env) st;
        Some (st, registered) }
      else Some (st, 0))"

definition cache_destroy :: "dns_cache \<Rightarrow> dns_cache" where
  "cache_destroy c =
     (case cache_tbl c of
        None \<Rightarrow> c
      | Some t \<Rightarrow> c\<lparr>cache_tbl := None, cache_size := (cache_element_destroy ^^ length t) (cache_size c)\<rparr>)"

fun free_listeners :: "dns_env \<Rightarrow> (int \<times> nat) list \<Rightarrow> dns_proxy \<Rightarrow> dns_proxy option" where
  "free_listeners env [] st = Some st"
| "free_listeners env ((index, l) # t) st = do { st \<leftarrow> free_listener env l st; free_listeners env t st }"

definition connman_dnsproxy_cleanup :: "dns_env \<Rightarrow> int list \<Rightarrow> dns_proxy \<Rightarrow> dns_proxy option" where
  "connman_dnsproxy_cleanup env sks st = do {
     let st = (if cache_timer st > 0 then (source_remove (cache_timer st) st)\<lparr>cache_timer := 0\<rparr> else st);
     let st = st\<lparr>dns := cache_destroy (dns st)\<rparr>;
     t \<leftarrow> listener_table st;
     st \<leftarrow> free_listeners env t st;
     Some (fold free_partial_reqs sks (st\<lparr>listener_table := Some []\<rparr>)) }"

section \<open>The main loop\<close>

text \<open>
  What can happen next: a registered source runs its callback, which stays registered only if the callback says
  so; or the daemon calls the proxy. What the callback is given by the kernel is arbitrary.
\<close>

definition after :: "nat \<Rightarrow> dns_proxy \<times> bool \<Rightarrow> dns_proxy" where
  "after n = (\<lambda>(st, keep). if keep then st else source_remove n st)"

record io_data =
  io_cond :: io_cond
  io_recv :: recv_result
  io_more :: "recv_result list"
  io_addr :: "u8 list"
  io_accept :: "(int \<times> u8 list) option"

definition server_event :: "dns_env \<Rightarrow> nat \<Rightarrow> io_data \<Rightarrow> dns_proxy \<Rightarrow> (dns_proxy \<times> bool) option" where
  "server_event env s io st = do {
     data \<leftarrow> srv_heap st s;
     if sv_protocol data = PROTO_TCP then tcp_server_event env s (io_cond io) (io_recv io) (io_more io) st
     else udp_server_event env s (io_err (io_cond io)) (io_recv io) st }"

definition run_source :: "dns_env \<Rightarrow> io_data \<Rightarrow> source \<Rightarrow> dns_proxy \<Rightarrow> (dns_proxy \<times> bool) option" where
  "run_source env io src st =
     (let err = io_err (io_cond io) in
      case src of
        Req_timeout r \<Rightarrow> map_option (\<lambda>st. (st, False)) (request_timeout r st)
      | Srv_watch s \<Rightarrow> server_event env s io st
      | Srv_idle s \<Rightarrow> map_option (\<lambda>st. (st, False)) (tcp_idle_timeout s st)
      | Client_watch sk \<Rightarrow> tcp_client_event env sk err (io_recv io, io_addr io) st
      | Client_timeout sk \<Rightarrow> Some (client_timeout sk st, False)
      | Udp4_watch l \<Rightarrow> udp_listener_event env l AF_INET err (io_recv io, io_addr io) st
      | Udp6_watch l \<Rightarrow> udp_listener_event env l AF_INET6 err (io_recv io, io_addr io) st
      | Tcp4_watch l \<Rightarrow> tcp_listener_event env l AF_INET err (io_accept io) (io_recv io) st
      | Tcp6_watch l \<Rightarrow> tcp_listener_event env l AF_INET6 err (io_accept io) (io_recv io) st
      | Cache_timer \<Rightarrow> Some (cache_timeout st, False))"

inductive proxy_step :: "dns_proxy \<Rightarrow> dns_proxy \<Rightarrow> bool" where
  dispatch: "sources st n = Some src \<Longrightarrow> run_source env io src st = Some res \<Longrightarrow> proxy_step st (after n res)"
| append: "connman_dnsproxy_append env index domain server st = Some (st', ret) \<Longrightarrow> proxy_step st st'"
| remove: "connman_dnsproxy_remove index domain server st = Some (st', ret) \<Longrightarrow> proxy_step st st'"
| offline: "dnsproxy_offline_mode env b st = Some st' \<Longrightarrow> proxy_step st st'"
| default: "dnsproxy_default_changed env service st = Some st' \<Longrightarrow> proxy_step st st'"
| add_listener: "connman_dnsproxy_add_listener env index st = (st', ret) \<Longrightarrow> proxy_step st st'"
| remove_listener: "connman_dnsproxy_remove_listener env index st = Some st' \<Longrightarrow> proxy_step st st'"

definition proxy_zero :: dns_proxy where
  "proxy_zero =
     \<lparr>dns = cache_zero, srv_heap = Map.empty, server_list = [], req_heap = Map.empty, request_list = [],
      li_heap = Map.empty, listener_table = None, clients = Map.empty, cache_timer = 0, sources = Map.empty,
      next_id = 0, acts = []\<rparr>"

inductive proxy_reach :: "dns_proxy \<Rightarrow> bool" where
  start: "connman_dnsproxy_init env registered proxy_zero = Some (st, ret) \<Longrightarrow> proxy_reach st"
| step: "proxy_reach st \<Longrightarrow> proxy_step st st' \<Longrightarrow> proxy_reach st'"

end
