(* ===== verification/DnsInvariant.thy ===== *)
theory DnsInvariant
  imports DnsListener
begin

text \<open>
  The invariant of the DNS proxy and its reachable states: every event source of the main loop belongs to a live
  object that knows its identifier, the lists hold live objects without repetition, a request over UDP stays in
  the list with its listener alive, and the cache is only used as its own invariant asks.
\<close>

section \<open>Invariant\<close>

text \<open>The field of an object in which the identifier of a source is kept.\<close>

fun stored :: "dns_proxy \<Rightarrow> source \<Rightarrow> nat option" where
  "stored st (Req_timeout r) = map_option rq_timeout (req_heap st r)"
| "stored st (Srv_watch s) = map_option sv_watch (srv_heap st s)"
| "stored st (Srv_idle s) = map_option sv_timeout (srv_heap st s)"
| "stored st (Client_watch sk) = map_option tc_watch (clients st sk)"
| "stored st (Client_timeout sk) = map_option tc_timeout (clients st sk)"
| "stored st (Udp4_watch l) = map_option udp4_watch (li_heap st l)"
| "stored st (Tcp4_watch l) = map_option tcp4_watch (li_heap st l)"
| "stored st (Udp6_watch l) = map_option udp6_watch (li_heap st l)"
| "stored st (Tcp6_watch l) = map_option tcp6_watch (li_heap st l)"
| "stored st Cache_timer = Some (cache_timer st)"

definition src_inv :: "dns_proxy \<Rightarrow> bool" where
  "src_inv st \<longleftrightarrow> (\<forall>n src. sources st n = Some src \<longrightarrow> 0 < n \<and> n \<le> next_id st \<and> stored st src = Some n)"

definition srv_ok :: "bool \<Rightarrow> server_data \<Rightarrow> bool" where
  "srv_ok listed d \<longleftrightarrow>
     (if channel d = None then sv_watch d = 0 \<and> sv_timeout d = 0 else server_addr d \<noteq> None) \<and>
     (sv_protocol d = PROTO_UDP \<or> sv_protocol d = PROTO_TCP) \<and>
     (listed \<longrightarrow> server_addr d \<noteq> None \<and> (sv_protocol d = PROTO_TCP \<longrightarrow> connected d))"

definition srv_inv :: "dns_proxy \<Rightarrow> bool" where
  "srv_inv st \<longleftrightarrow> distinct (server_list st) \<and> set (server_list st) \<subseteq> dom (srv_heap st) \<and>
     (\<forall>s d. srv_heap st s = Some d \<longrightarrow> s \<le> next_id st \<and> srv_ok (s \<in> set (server_list st)) d)"

definition queued_ok :: "bool \<Rightarrow> nat set \<Rightarrow> request_data \<Rightarrow> bool" where
  "queued_ok listed L q \<longleftrightarrow>
     rq_name q \<noteq> None \<and> (\<exists>bs. request q = Some bs \<and> length bs = request_len q) \<and>
     (rq_protocol q = PROTO_UDP \<and> 12 \<le> request_len q \<and> listed \<and> rq_ifdata q \<in> L \<or>
      rq_protocol q = PROTO_TCP \<and> 14 \<le> request_len q)"

definition fresh_ok :: "bool \<Rightarrow> request_data \<Rightarrow> bool" where
  "fresh_ok listed q \<longleftrightarrow> rq_timeout q = 0 \<and> \<not> listed"

definition resp_ok :: "request_data \<Rightarrow> bool" where
  "resp_ok q \<longleftrightarrow> resplen q = (case resp q of None \<Rightarrow> 0 | Some bs \<Rightarrow> length bs)"

text \<open>\<open>X\<close> are the requests under construction: in memory, not yet in the list, without timer.\<close>

definition req_ok :: "bool \<Rightarrow> bool \<Rightarrow> nat set \<Rightarrow> request_data \<Rightarrow> bool" where
  "req_ok fresh listed L q \<longleftrightarrow> resp_ok q \<and> (if fresh then fresh_ok listed q else queued_ok listed L q)"

definition req_inv :: "nat set \<Rightarrow> dns_proxy \<Rightarrow> bool" where
  "req_inv X st \<longleftrightarrow> distinct (request_list st) \<and> set (request_list st) \<subseteq> dom (req_heap st) \<and>
     (\<forall>r q. req_heap st r = Some q \<longrightarrow>
        r \<le> next_id st \<and> req_ok (r \<in> X) (r \<in> set (request_list st)) (dom (li_heap st)) q)"

definition li_inv :: "dns_proxy \<Rightarrow> bool" where
  "li_inv st \<longleftrightarrow> (\<forall>l d. li_heap st l = Some d \<longrightarrow> l \<le> next_id st) \<and>
     (\<forall>t. listener_table st = Some t \<longrightarrow> distinct (map fst t) \<and> distinct (map snd t) \<and> snd ` set t \<subseteq> dom (li_heap st))"

definition client_ok :: "tcp_partial_client \<Rightarrow> bool" where
  "client_ok c \<longleftrightarrow> buf_end c \<le> TCP_MAX_BUF_LEN \<and> (\<forall>b. tc_buf c = Some b \<longrightarrow> length b = TCP_MAX_BUF_LEN)"

definition client_inv :: "dns_proxy \<Rightarrow> bool" where
  "client_inv st \<longleftrightarrow> (\<forall>sk c. clients st sk = Some c \<longrightarrow> client_ok c)"

definition cache_part :: "dns_proxy \<Rightarrow> bool" where
  "cache_part st \<longleftrightarrow> cache_reach (dns st) \<and> ((\<exists>n. sources st n = Some Cache_timer) \<longrightarrow> cache_tbl (dns st) \<noteq> None)"

definition proxy_inv :: "nat set \<Rightarrow> dns_proxy \<Rightarrow> bool" where
  "proxy_inv X st \<longleftrightarrow> src_inv st \<and> srv_inv st \<and> req_inv X st \<and> li_inv st \<and> client_inv st \<and> cache_part st"

lemmas inv_defs = proxy_inv_def src_inv_def srv_inv_def req_inv_def li_inv_def client_inv_def cache_part_def

section \<open>The primitives\<close>

lemma stored_act [simp]: "stored (act a st) src = stored st src"
  by (cases src) (simp_all add: act_def)

lemma act_fields [simp]:
  "dns (act a st) = dns st" "srv_heap (act a st) = srv_heap st" "server_list (act a st) = server_list st"
  "req_heap (act a st) = req_heap st" "request_list (act a st) = request_list st" "li_heap (act a st) = li_heap st"
  "listener_table (act a st) = listener_table st" "clients (act a st) = clients st"
  "cache_timer (act a st) = cache_timer st" "sources (act a st) = sources st" "next_id (act a st) = next_id st"
  by (simp_all add: act_def)

lemma act_inv [simp]: "proxy_inv X (act a st) = proxy_inv X st"
  by (simp add: inv_defs)

lemma send_opt_inv [simp]: "proxy_inv X (send_opt sk out addr st) = proxy_inv X st"
  by (simp add: send_opt_def split: option.split)

lemma stored_sources [simp]: "stored (st\<lparr>sources := m\<rparr>) src = stored st src"
  by (cases src) simp_all

lemma stored_next_id [simp]: "stored (st\<lparr>next_id := n\<rparr>) src = stored st src"
  by (cases src) simp_all

lemma source_remove_inv [intro]: "proxy_inv X st \<Longrightarrow> proxy_inv X (source_remove n st)"
  by (auto simp: inv_defs source_remove_def)

lemma proxy_invD:
  assumes "proxy_inv X st"
  shows "src_inv st" "srv_inv st" "req_inv X st" "li_inv st" "client_inv st" "cache_part st"
  using assms by (simp_all add: proxy_inv_def)

lemma req_invD:
  "proxy_inv X st \<Longrightarrow> req_heap st r = Some q \<Longrightarrow>
     r \<le> next_id st \<and> req_ok (r \<in> X) (r \<in> set (request_list st)) (dom (li_heap st)) q"
  using proxy_invD(3) [of X st] by (simp add: req_inv_def)

lemma req_inv_insertD:
  "proxy_inv (insert r X) st \<Longrightarrow> req_heap st r' = Some q \<Longrightarrow> r' \<noteq> r \<Longrightarrow>
     r' \<le> next_id st \<and> req_ok (r' \<in> X) (r' \<in> set (request_list st)) (dom (li_heap st)) q"
  by (drule (1) req_invD) simp

lemma srv_invD: "proxy_inv X st \<Longrightarrow> srv_heap st s = Some d \<Longrightarrow> s \<le> next_id st \<and> srv_ok (s \<in> set (server_list st)) d"
  using proxy_invD(2) [of X st] by (simp add: srv_inv_def)

lemma next_id_inv:
  assumes "proxy_inv X st" "next_id st \<le> n"
  shows "proxy_inv X (st\<lparr>next_id := n\<rparr>)"
  unfolding proxy_inv_def
proof (intro conjI)
  show "src_inv (st\<lparr>next_id := n\<rparr>)" using proxy_invD(1) [OF assms(1)] assms(2) by (fastforce simp: src_inv_def)
  show "srv_inv (st\<lparr>next_id := n\<rparr>)" using proxy_invD(2) [OF assms(1)] assms(2) by (fastforce simp: srv_inv_def)
  show "req_inv X (st\<lparr>next_id := n\<rparr>)" using proxy_invD(3) [OF assms(1)] assms(2) unfolding req_inv_def
    by (auto dest: le_trans)
  show "li_inv (st\<lparr>next_id := n\<rparr>)" using proxy_invD(4) [OF assms(1)] assms(2) by (fastforce simp: li_inv_def)
qed (use proxy_invD(5,6) [OF assms(1)] in \<open>simp_all add: client_inv_def cache_part_def\<close>)

lemma dns_inv:
  assumes "proxy_inv X st" "cache_reach c" "cache_tbl (dns st) \<noteq> None \<Longrightarrow> cache_tbl c \<noteq> None"
  shows "proxy_inv X (st\<lparr>dns := c\<rparr>)"
proof -
  have "stored (st\<lparr>dns := c\<rparr>) src = stored st src" for src by (cases src) simp_all
  then show ?thesis using assms by (auto simp: inv_defs)
qed

lemma stored_set_req: "req_heap st r = Some q \<Longrightarrow> rq_timeout q' = rq_timeout q \<Longrightarrow> stored (set_req r q' st) src = stored st src"
  by (cases src) (simp_all add: set_req_def)

lemma stored_set_srv:
  "srv_heap st s = Some d \<Longrightarrow> sv_watch d' = sv_watch d \<Longrightarrow> sv_timeout d' = sv_timeout d \<Longrightarrow>
     stored (set_srv s d' st) src = stored st src"
  by (cases src) (simp_all add: set_srv_def)

lemma stored_set_client:
  "clients st sk = Some c \<Longrightarrow> tc_watch c' = tc_watch c \<Longrightarrow> tc_timeout c' = tc_timeout c \<Longrightarrow>
     stored (set_client sk c' st) src = stored st src"
  by (cases src) (simp_all add: set_client_def)

lemma set_fields [simp]:
  "sources (set_req r q st) = sources st" "next_id (set_req r q st) = next_id st" "dns (set_req r q st) = dns st"
  "srv_heap (set_req r q st) = srv_heap st" "server_list (set_req r q st) = server_list st"
  "req_heap (set_req r q st) = (req_heap st)(r \<mapsto> q)" "request_list (set_req r q st) = request_list st"
  "li_heap (set_req r q st) = li_heap st" "listener_table (set_req r q st) = listener_table st"
  "clients (set_req r q st) = clients st" "cache_timer (set_req r q st) = cache_timer st" "acts (set_req r q st) = acts st"
  "sources (set_srv s d st) = sources st" "next_id (set_srv s d st) = next_id st" "dns (set_srv s d st) = dns st"
  "srv_heap (set_srv s d st) = (srv_heap st)(s \<mapsto> d)" "server_list (set_srv s d st) = server_list st"
  "req_heap (set_srv s d st) = req_heap st" "request_list (set_srv s d st) = request_list st"
  "li_heap (set_srv s d st) = li_heap st" "listener_table (set_srv s d st) = listener_table st"
  "clients (set_srv s d st) = clients st" "cache_timer (set_srv s d st) = cache_timer st" "acts (set_srv s d st) = acts st"
  "sources (set_client sk c st) = sources st" "next_id (set_client sk c st) = next_id st" "dns (set_client sk c st) = dns st"
  "srv_heap (set_client sk c st) = srv_heap st" "server_list (set_client sk c st) = server_list st"
  "req_heap (set_client sk c st) = req_heap st" "request_list (set_client sk c st) = request_list st"
  "li_heap (set_client sk c st) = li_heap st" "listener_table (set_client sk c st) = listener_table st"
  "clients (set_client sk c st) = (clients st)(sk \<mapsto> c)" "cache_timer (set_client sk c st) = cache_timer st"
  "acts (set_client sk c st) = acts st"
  by (simp_all add: set_req_def set_srv_def set_client_def)

lemma set_req_inv:
  assumes "proxy_inv X st" "req_heap st r = Some q" "rq_timeout q' = rq_timeout q" "resp_ok q'"
    and "\<And>b L. queued_ok b L q \<Longrightarrow> queued_ok b L q'"
  shows "proxy_inv X (set_req r q' st)"
  unfolding proxy_inv_def
proof (intro conjI)
  show "src_inv (set_req r q' st)"
    using proxy_invD(1) [OF assms(1)] by (simp add: src_inv_def stored_set_req [OF assms(2,3)])
  have "req_ok b l L q'" if "req_ok b l L q" for b l L
    using that assms(3-5) by (auto simp: req_ok_def fresh_ok_def)
  then show "req_inv X (set_req r q' st)"
    using proxy_invD(3) [OF assms(1)] assms(2) by (auto simp: req_inv_def)
qed (use proxy_invD [OF assms(1)] in \<open>simp_all add: srv_inv_def li_inv_def client_inv_def cache_part_def\<close>)

lemma set_srv_inv:
  assumes "proxy_inv X st" "srv_heap st s = Some d" "sv_watch d' = sv_watch d" "sv_timeout d' = sv_timeout d"
    and "\<And>b. srv_ok b d \<Longrightarrow> srv_ok b d'"
  shows "proxy_inv X (set_srv s d' st)"
  unfolding proxy_inv_def
proof (intro conjI)
  show "src_inv (set_srv s d' st)"
    using proxy_invD(1) [OF assms(1)] by (simp add: src_inv_def stored_set_srv [OF assms(2-4)])
  show "srv_inv (set_srv s d' st)"
    using proxy_invD(2) [OF assms(1)] assms(2-5) by (auto simp: srv_inv_def)
qed (use proxy_invD [OF assms(1)] in \<open>simp_all add: req_inv_def li_inv_def client_inv_def cache_part_def\<close>)

lemma set_client_inv:
  assumes "proxy_inv X st" "clients st sk = Some c" "tc_watch c' = tc_watch c" "tc_timeout c' = tc_timeout c" "client_ok c'"
  shows "proxy_inv X (set_client sk c' st)"
  unfolding proxy_inv_def
proof (intro conjI)
  show "src_inv (set_client sk c' st)"
    using proxy_invD(1) [OF assms(1)] by (simp add: src_inv_def stored_set_client [OF assms(2-4)])
  show "client_inv (set_client sk c' st)"
    using proxy_invD(5) [OF assms(1)] assms(2-5) by (auto simp: client_inv_def)
qed (use proxy_invD [OF assms(1)] in \<open>simp_all add: req_inv_def li_inv_def srv_inv_def cache_part_def\<close>)

text \<open>New objects, and a source for an object without one.\<close>

lemma new_object_inv:
  assumes "new_object env st = (st', a)" "proxy_inv X st"
  shows "proxy_inv X st'" "st' = st\<lparr>next_id := Suc (next_id st)\<rparr>"
    "a = Some n \<Longrightarrow> n = next_id st'" "a = Some n \<Longrightarrow> srv_heap st' n = None" "a = Some n \<Longrightarrow> req_heap st' n = None"
    "a = Some n \<Longrightarrow> li_heap st' n = None"
proof -
  show eq: "st' = st\<lparr>next_id := Suc (next_id st)\<rparr>" using assms(1) by (simp add: new_object_def Let_def)
  show "proxy_inv X st'" unfolding eq by (rule next_id_inv [OF assms(2)]) simp
  have n: "a = Some n \<Longrightarrow> n = Suc (next_id st)" using assms(1) by (auto simp: new_object_def Let_def split: if_splits)
  then show "a = Some n \<Longrightarrow> n = next_id st'" by (simp add: eq)
  have "srv_heap st (Suc (next_id st)) = None" using proxy_invD(2) [OF assms(2)] unfolding srv_inv_def
    by (meson Suc_n_not_le_n not_Some_eq)
  then show "a = Some n \<Longrightarrow> srv_heap st' n = None" using n by (simp add: eq)
  have "req_heap st (Suc (next_id st)) = None" using proxy_invD(3) [OF assms(2)] unfolding req_inv_def
    by (meson Suc_n_not_le_n not_Some_eq)
  then show "a = Some n \<Longrightarrow> req_heap st' n = None" using n by (simp add: eq)
  have "li_heap st (Suc (next_id st)) = None" using proxy_invD(4) [OF assms(2)] unfolding li_inv_def
    by (meson Suc_n_not_le_n not_Some_eq)
  then show "a = Some n \<Longrightarrow> li_heap st' n = None" using n by (simp add: eq)
qed

lemma new_srv_inv:
  assumes "proxy_inv X st" "srv_heap st s = None" "s \<le> next_id st" "srv_ok False d"
  shows "proxy_inv X (set_srv s d st)"
  unfolding proxy_inv_def
proof (intro conjI)
  have "stored (set_srv s d st) src = stored st src \<or> stored st src = None" for src
    using assms(2) by (cases src) (auto simp: set_srv_def)
  then show "src_inv (set_srv s d st)"
    using proxy_invD(1) [OF assms(1)] unfolding src_inv_def by (metis option.distinct(1) set_fields(13,14))
  have "s \<notin> set (server_list st)" using assms(2) proxy_invD(2) [OF assms(1)] by (auto simp: srv_inv_def)
  then show "srv_inv (set_srv s d st)"
    using proxy_invD(2) [OF assms(1)] assms(3,4) by (auto simp: srv_inv_def)
qed (use proxy_invD [OF assms(1)] in \<open>simp_all add: req_inv_def li_inv_def client_inv_def cache_part_def\<close>)

lemma new_req_inv:
  assumes "proxy_inv X st" "req_heap st r = None" "r \<le> next_id st" "rq_timeout q = 0" "resp_ok q"
  shows "proxy_inv (insert r X) (set_req r q st)"
  unfolding proxy_inv_def
proof (intro conjI)
  have "stored (set_req r q st) src = stored st src \<or> stored st src = None" for src
    using assms(2) by (cases src) (auto simp: set_req_def)
  then show "src_inv (set_req r q st)"
    using proxy_invD(1) [OF assms(1)] unfolding src_inv_def by (metis option.distinct(1) set_fields(1,2))
  have "r \<notin> set (request_list st)" using assms(2) proxy_invD(3) [OF assms(1)] by (auto simp: req_inv_def)
  moreover have "req_ok True False L q" for L using assms(4,5) by (simp add: req_ok_def fresh_ok_def)
  ultimately show "req_inv (insert r X) (set_req r q st)"
    using proxy_invD(3) [OF assms(1)] assms(3) by (auto simp: req_inv_def)
qed (use proxy_invD [OF assms(1)] in \<open>simp_all add: srv_inv_def li_inv_def client_inv_def cache_part_def\<close>)

lemma src_invD: "proxy_inv X st \<Longrightarrow> sources st n = Some src \<Longrightarrow> 0 < n \<and> n \<le> next_id st \<and> stored st src = Some n"
  using proxy_invD(1) [of X st] by (simp add: src_inv_def)

lemma src_invI:
  assumes "proxy_inv X st" "next_id st \<le> next_id st'"
    and "\<And>n src. sources st' n = Some src \<Longrightarrow>
      sources st n = Some src \<and> stored st' src = stored st src \<or> 0 < n \<and> n \<le> next_id st' \<and> stored st' src = Some n"
  shows "src_inv st'"
  unfolding src_inv_def using src_invD [OF assms(1)] assms(2,3) by (metis le_trans)

lemma src_inv_sub:
  assumes "proxy_inv X st" "next_id st \<le> next_id st'"
    and "\<And>n src. sources st' n = Some src \<Longrightarrow> sources st n = Some src \<and> stored st' src = stored st src"
  shows "src_inv st'"
  by (rule src_invI [OF assms(1,2)]) (use assms(3) in blast)

lemma src_inv_add:
  assumes "proxy_inv X st" "sources st' = (sources st)(n \<mapsto> src0)" "0 < n" "n \<le> next_id st'" "next_id st \<le> next_id st'"
    and "\<And>m. sources st m \<noteq> Some src0" "\<And>src. stored st' src = (if src = src0 then Some n else stored st src)"
  shows "src_inv st'"
proof (rule src_invI [OF assms(1,5)])
  fix m src assume "sources st' m = Some src"
  then show "sources st m = Some src \<and> stored st' src = stored st src \<or> 0 < m \<and> m \<le> next_id st' \<and> stored st' src = Some m"
    using assms(2-4,6,7) by (cases "m = n") auto
qed

lemma req_source_unique: "proxy_inv X st \<Longrightarrow> sources st n = Some (Req_timeout r) \<Longrightarrow> req_heap st r = Some q \<Longrightarrow> n = rq_timeout q"
  by (drule (1) src_invD) simp

text \<open>A request that leaves the list and the memory, with its timer.\<close>

definition drop_req :: "nat \<Rightarrow> nat \<Rightarrow> dns_proxy \<Rightarrow> dns_proxy" where
  "drop_req r n st = st\<lparr>request_list := g_list_remove r (request_list st), req_heap := (req_heap st)(r := None),
     sources := (sources st)(n := None)\<rparr>"

lemma drop_req_inv:
  assumes "proxy_inv X st" "req_heap st r = Some q"
  shows "proxy_inv X (drop_req r (rq_timeout q) st)"
  unfolding proxy_inv_def
proof (intro conjI)
  let ?st = "drop_req r (rq_timeout q) st"
  have S: "stored ?st src = stored st src" if "src \<noteq> Req_timeout r" for src
    using that by (cases src) (auto simp: drop_req_def)
  have "sources st n = Some src \<and> src \<noteq> Req_timeout r" if "sources ?st n = Some src" for n src
    using that req_source_unique [OF assms(1) _ assms(2), of n] by (auto simp: drop_req_def split: if_splits)
  then show "src_inv ?st" using S by (intro src_invI [OF assms(1)]) (simp add: drop_req_def, blast)
  have "set (g_list_remove r (request_list st)) = set (request_list st) - {r}"
    using proxy_invD(3) [OF assms(1)] by (simp add: req_inv_def)
  then show "req_inv X ?st"
    using proxy_invD(3) [OF assms(1)] by (auto simp: req_inv_def drop_req_def)
qed (use proxy_invD [OF assms(1)] in \<open>auto simp: srv_inv_def li_inv_def client_inv_def cache_part_def drop_req_def\<close>)

lemma src_inv_0: "proxy_inv X st \<Longrightarrow> sources st 0 = None"
  by (rule ccontr) (use src_invD [of X st 0] in auto)

lemma release_request_inv:
  assumes "release_request r st = Some st'" "proxy_inv X st"
  shows "proxy_inv X st'" "sources st' = (sources st)(rq_timeout (the (req_heap st r)) := None)"
proof -
  obtain q where q: "req_heap st r = Some q" using assms(1) by (auto simp: release_request_def destroy_request_data_def split: bind_splits)
  have st': "st' = drop_req r (rq_timeout q) st"
    using assms q src_inv_0 [OF assms(2)]
    by (auto simp: release_request_def destroy_request_data_def drop_req_def source_remove_def fun_upd_idem split: if_splits)
  show "proxy_inv X st'" unfolding st' by (rule drop_req_inv [OF assms(2) q])
  show "sources st' = (sources st)(rq_timeout (the (req_heap st r)) := None)" using st' q by (simp add: drop_req_def)
qed

lemma restart_timeout_inv:
  assumes "restart_timeout r st = Some st'" "proxy_inv X st" "r \<notin> X"
  shows "proxy_inv X st'"
proof -
  obtain q where q: "req_heap st r = Some q" using assms(1) by (auto simp: restart_timeout_def split: bind_splits)
  define n where "n = Suc (next_id st)"
  define st1 where "st1 = st\<lparr>sources := (sources st)(rq_timeout q := None), next_id := n\<rparr>"
  have st': "st' = set_req r (q\<lparr>rq_timeout := n\<rparr>) (st1\<lparr>sources := (sources st1)(n \<mapsto> Req_timeout r)\<rparr>)"
    using assms(1) q src_inv_0 [OF assms(2)]
    by (auto simp: restart_timeout_def add_source_def source_remove_def st1_def n_def Let_def fun_upd_idem split: if_splits)
  have inv1: "proxy_inv X st1"
    using next_id_inv [OF source_remove_inv [OF assms(2), of "rq_timeout q"], of n] by (simp add: st1_def source_remove_def n_def)
  have none: "sources st1 m \<noteq> Some (Req_timeout r)" for m
    using req_source_unique [OF assms(2), of m r q] q by (auto simp: st1_def)
  have S: "stored st' src = (if src = Req_timeout r then Some n else stored st1 src)" for src
    unfolding st' by (cases src) (auto simp: set_req_def)
  show ?thesis unfolding proxy_inv_def
  proof (intro conjI)
    show "src_inv st'" by (rule src_inv_add [OF inv1 _ _ _ _ none S]) (simp_all add: st' st1_def n_def)
    have "req_ok False (r \<in> set (request_list st)) (dom (li_heap st)) (q\<lparr>rq_timeout := n\<rparr>)"
      using req_invD [OF assms(2) q] assms(3) by (simp add: req_ok_def resp_ok_def queued_ok_def)
    then show "req_inv X st'"
      using proxy_invD(3) [OF inv1] q assms(3) by (auto simp: req_inv_def st' st1_def)
  qed (use proxy_invD [OF inv1] in \<open>auto simp: srv_inv_def li_inv_def client_inv_def cache_part_def st'\<close>)
qed

text \<open>A request under construction enters the list, or is dropped.\<close>

lemma queue_request_inv:
  assumes "queue_request r bs query st = Some st'" "proxy_inv (insert r X) st" "r \<notin> X"
    and "req_heap st r = Some q" "length bs = request_len q"
    and "rq_protocol q = PROTO_UDP \<and> 12 \<le> request_len q \<and> rq_ifdata q \<in> dom (li_heap st) \<or>
         rq_protocol q = PROTO_TCP \<and> 14 \<le> request_len q"
  shows "proxy_inv X st'"
proof -
  define n where "n = Suc (next_id st)"
  define q' where "q' = q\<lparr>rq_name := Some query, request := Some bs, rq_timeout := n\<rparr>"
  have st': "st' = st\<lparr>sources := (sources st)(n \<mapsto> Req_timeout r), next_id := n, req_heap := (req_heap st)(r \<mapsto> q'),
      request_list := request_list st @ [r]\<rparr>"
    using assms(1,4) by (simp add: queue_request_def add_source_def Let_def set_req_def n_def q'_def)
  have inv1: "proxy_inv (insert r X) (st\<lparr>next_id := n\<rparr>)" by (rule next_id_inv [OF assms(2)]) (simp add: n_def)
  have fresh: "rq_timeout q = 0" "resp_ok q" "r \<notin> set (request_list st)"
    using req_invD [OF assms(2,4)] by (auto simp: req_ok_def fresh_ok_def)
  have none: "sources st m \<noteq> Some (Req_timeout r)" for m
    using req_source_unique [OF assms(2), of m r q] src_inv_0 [OF assms(2)] assms(4) fresh(1) by auto
  have S: "stored st' src = (if src = Req_timeout r then Some n else stored st src)" for src
    unfolding st' by (cases src) (auto simp: q'_def)
  show ?thesis unfolding proxy_inv_def
  proof (intro conjI)
    show "src_inv st'" by (rule src_inv_add [OF assms(2) _ _ _ _ none S]) (simp_all add: st' n_def)
    have "req_ok False True (dom (li_heap st)) q'"
      using fresh assms(5,6) by (auto simp: req_ok_def resp_ok_def queued_ok_def q'_def)
    moreover have "r' \<le> n \<and> req_ok (r' \<in> X) (r' \<in> set (request_list st)) (dom (li_heap st)) p"
      if "req_heap st r' = Some p" "r' \<noteq> r" for r' p
      using req_inv_insertD [OF inv1, of r' p] that by simp
    moreover have "r \<le> n" using proxy_invD(3) [OF inv1] assms(4) by (auto simp: req_inv_def)
    moreover have "distinct (request_list st)" "set (request_list st) \<subseteq> dom (req_heap st)"
      using proxy_invD(3) [OF assms(2)] by (simp_all add: req_inv_def)
    ultimately show "req_inv X st'" using fresh(3) assms(3) by (auto simp: req_inv_def st')
  qed (use proxy_invD [OF inv1] in \<open>auto simp: srv_inv_def li_inv_def client_inv_def cache_part_def st'\<close>)
qed

lemma drop_fresh_inv:
  assumes "proxy_inv (insert r X) st" "r \<notin> X"
  shows "proxy_inv X (st\<lparr>req_heap := (req_heap st)(r := None)\<rparr>)"
  unfolding proxy_inv_def
proof (intro conjI)
  let ?st = "st\<lparr>req_heap := (req_heap st)(r := None)\<rparr>"
  have none: "sources st m \<noteq> Some (Req_timeout r)" for m
  proof
    assume a: "sources st m = Some (Req_timeout r)"
    then obtain q where q: "req_heap st r = Some q" "rq_timeout q = m" "0 < m"
      using src_invD [OF assms(1) a] by auto
    then show False using req_invD [OF assms(1) q(1)] by (auto simp: req_ok_def fresh_ok_def)
  qed
  have S: "stored ?st src = stored st src" if "src \<noteq> Req_timeout r" for src using that by (cases src) auto
  show "src_inv ?st" by (rule src_inv_sub [OF assms(1)]) (use none S in \<open>auto, metis\<close>)
  have "r \<notin> set (request_list st)"
    using proxy_invD(3) [OF assms(1)] req_invD [OF assms(1), of r] by (auto simp: req_inv_def req_ok_def fresh_ok_def)
  then show "req_inv X ?st"
    using proxy_invD(3) [OF assms(1)] req_inv_insertD [OF assms(1)] by (auto simp del: insert_iff simp: req_inv_def)
qed (use proxy_invD [OF assms(1)] in \<open>auto simp: srv_inv_def li_inv_def client_inv_def cache_part_def\<close>)

text \<open>A client that leaves its table.\<close>

lemma client_reset_fields [simp]:
  "dns (client_reset c st) = dns st" "srv_heap (client_reset c st) = srv_heap st" "server_list (client_reset c st) = server_list st"
  "req_heap (client_reset c st) = req_heap st" "request_list (client_reset c st) = request_list st"
  "li_heap (client_reset c st) = li_heap st" "listener_table (client_reset c st) = listener_table st"
  "clients (client_reset c st) = clients st" "cache_timer (client_reset c st) = cache_timer st" "next_id (client_reset c st) = next_id st"
  by (simp_all add: client_reset_def source_remove_def Let_def split: option.split)

lemma client_reset_sources:
  "sources st 0 = None \<Longrightarrow> sources (client_reset c st) = (sources st)(tc_watch c := None, tc_timeout c := None)"
  by (auto simp: client_reset_def source_remove_def Let_def fun_upd_idem split: option.split)

lemma free_partial_reqs_inv:
  assumes "proxy_inv X st"
  shows "proxy_inv X (free_partial_reqs sk st)"
proof (cases "clients st sk")
  case None
  then show ?thesis using assms by (simp add: free_partial_reqs_def)
next
  case (Some c)
  let ?st = "(client_reset c st)\<lparr>clients := (clients st)(sk := None)\<rparr>"
  have S: "stored ?st src = stored st src" if "src \<noteq> Client_watch sk" "src \<noteq> Client_timeout sk" for src
    using that by (cases src) auto
  have src: "sources ?st = (sources st)(tc_watch c := None, tc_timeout c := None)"
    using client_reset_sources [OF src_inv_0 [OF assms]] by simp
  have sub: "sources st n = Some src \<and> stored ?st src = stored st src" if "sources ?st n = Some src" for n src
  proof -
    have n: "sources st n = Some src" "n \<noteq> tc_watch c" "n \<noteq> tc_timeout c" using that unfolding src by (auto split: if_splits)
    then have "src \<noteq> Client_watch sk" "src \<noteq> Client_timeout sk" using src_invD [OF assms n(1)] Some by auto
    then show ?thesis using n(1) S by blast
  qed
  have "proxy_inv X ?st" unfolding proxy_inv_def
  proof (intro conjI)
    show "src_inv ?st" by (rule src_inv_sub [OF assms _ sub]) simp_all
    show "cache_part ?st" using proxy_invD(6) [OF assms] sub by (auto simp: cache_part_def)
  qed (use proxy_invD [OF assms] in \<open>auto simp: srv_inv_def req_inv_def li_inv_def client_inv_def\<close>)
  then show ?thesis using Some by (simp add: free_partial_reqs_def)
qed

text \<open>Servers: leaving the list, losing the socket, leaving the memory.\<close>

lemma unlist_server_inv:
  assumes "proxy_inv X st"
  shows "proxy_inv X (st\<lparr>server_list := g_list_remove s (server_list st)\<rparr>)"
  unfolding proxy_inv_def
proof (intro conjI)
  let ?st = "st\<lparr>server_list := g_list_remove s (server_list st)\<rparr>"
  have "stored ?st src = stored st src" for src by (cases src) simp_all
  then show "src_inv ?st" using proxy_invD(1) [OF assms] by (simp add: src_inv_def)
  have "srv_ok (s' \<in> set (g_list_remove s (server_list st))) d" if "srv_heap st s' = Some d" for s' d
    using srv_invD [OF assms that] set_remove1_subset [of s "server_list st"] by (auto simp: srv_ok_def)
  then show "srv_inv ?st" using proxy_invD(2) [OF assms] set_remove1_subset [of s "server_list st"] by (auto simp: srv_inv_def)
qed (use proxy_invD [OF assms] in \<open>simp_all add: req_inv_def li_inv_def client_inv_def cache_part_def\<close>)

lemma server_destroy_socket_inv:
  assumes "server_destroy_socket s st = Some st'" "proxy_inv X st"
  shows "proxy_inv X st'"
proof -
  obtain d where d: "srv_heap st s = Some d" using assms(1) by (auto simp: server_destroy_socket_def split: bind_splits)
  define d' where "d' = d\<lparr>sv_watch := 0, sv_timeout := 0, channel := None, incoming_reply := None\<rparr>"
  have st': "sources st' = (sources st)(sv_watch d := None, sv_timeout d := None)" "srv_heap st' = (srv_heap st)(s \<mapsto> d')"
    "next_id st' = next_id st" "server_list st' = server_list st" "req_heap st' = req_heap st" "request_list st' = request_list st"
    "li_heap st' = li_heap st" "listener_table st' = listener_table st" "clients st' = clients st" "dns st' = dns st"
    "cache_timer st' = cache_timer st"
    using assms(1) d src_inv_0 [OF assms(2)]
    by (auto simp: server_destroy_socket_def source_remove_def d'_def Let_def fun_upd_idem split: if_splits option.splits)
  have S: "stored st' src = stored st src" if "src \<noteq> Srv_watch s" "src \<noteq> Srv_idle s" for src
    using that by (cases src) (auto simp: st')
  have sub: "sources st n = Some src \<and> stored st' src = stored st src" if "sources st' n = Some src" for n src
  proof -
    have n: "sources st n = Some src" "n \<noteq> sv_watch d" "n \<noteq> sv_timeout d" using that unfolding st' by (auto split: if_splits)
    then have "src \<noteq> Srv_watch s" "src \<noteq> Srv_idle s" using src_invD [OF assms(2) n(1)] d by auto
    then show ?thesis using n(1) S by blast
  qed
  show ?thesis unfolding proxy_inv_def
  proof (intro conjI)
    show "src_inv st'" by (rule src_inv_sub [OF assms(2) _ sub]) (simp_all add: st')
    have "srv_ok (s \<in> set (server_list st)) d'" using srv_invD [OF assms(2) d] by (auto simp: srv_ok_def d'_def)
    then show "srv_inv st'" using proxy_invD(2) [OF assms(2)] d by (auto simp: srv_inv_def st')
    show "cache_part st'" using proxy_invD(6) [OF assms(2)] sub [of _ Cache_timer] unfolding cache_part_def st'(10) by blast
  qed (use proxy_invD [OF assms(2)] in \<open>simp_all add: req_inv_def li_inv_def client_inv_def st'\<close>)
qed

lemma cache_timer_inv:
  assumes "proxy_inv X st" "cache_tbl (dns st) \<noteq> None" "cache_timer st = 0"
  shows "proxy_inv X (let (st, n) = add_source Cache_timer st in st\<lparr>cache_timer := n\<rparr>)"
proof -
  let ?n = "Suc (next_id st)"
  let ?st = "st\<lparr>sources := (sources st)(?n \<mapsto> Cache_timer), next_id := ?n, cache_timer := ?n\<rparr>"
  have none: "sources st m \<noteq> Some Cache_timer" for m using src_invD [OF assms(1), of m Cache_timer] assms(3) by auto
  have S: "stored ?st src = (if src = Cache_timer then Some ?n else stored st src)" for src by (cases src) simp_all
  have "proxy_inv X ?st" unfolding proxy_inv_def
  proof (intro conjI)
    show "src_inv ?st" by (rule src_inv_add [OF assms(1) _ _ _ _ none S]) simp_all
    show "srv_inv ?st" using proxy_invD(2) [OF next_id_inv [OF assms(1), of ?n]] by (simp add: srv_inv_def)
    show "req_inv X ?st" using proxy_invD(3) [OF next_id_inv [OF assms(1), of ?n]] by (simp add: req_inv_def)
    show "li_inv ?st" using proxy_invD(4) [OF next_id_inv [OF assms(1), of ?n]] by (simp add: li_inv_def)
  qed (use proxy_invD [OF assms(1)] assms(2) in \<open>simp_all add: client_inv_def cache_part_def\<close>)
  then show ?thesis by (simp add: add_source_def Let_def)
qed

lemma free_server_inv:
  assumes "proxy_inv X st" "srv_heap st s = Some d" "sv_watch d = 0" "sv_timeout d = 0" "s \<notin> set (server_list st)"
  shows "proxy_inv X (st\<lparr>srv_heap := (srv_heap st)(s := None)\<rparr>)"
  unfolding proxy_inv_def
proof (intro conjI)
  let ?st = "st\<lparr>srv_heap := (srv_heap st)(s := None)\<rparr>"
  have S: "stored ?st src = stored st src" if "src \<noteq> Srv_watch s" "src \<noteq> Srv_idle s" for src using that by (cases src) auto
  have sub: "sources st n = Some src \<and> stored ?st src = stored st src" if "sources ?st n = Some src" for n src
  proof -
    have n: "sources st n = Some src" using that by simp
    then have "src \<noteq> Srv_watch s" "src \<noteq> Srv_idle s" using src_invD [OF assms(1) n] assms(2-4) by auto
    then show ?thesis using n S by blast
  qed
  show "src_inv ?st" by (rule src_inv_sub [OF assms(1) _ sub]) simp_all
  show "srv_inv ?st" using proxy_invD(2) [OF assms(1)] assms(5) by (auto simp: srv_inv_def)
qed (use proxy_invD [OF assms(1)] in \<open>simp_all add: req_inv_def li_inv_def client_inv_def cache_part_def\<close>)

section \<open>Servers\<close>

text \<open>Steps that leave the requests, the clients and the listeners as they are, apart from the count of servers
  asked and the note that domains were appended.\<close>

definition req_core :: "request_data \<Rightarrow> request_data" where
  "req_core q = q\<lparr>numserv := 0, append_domain := False\<rparr>"

definition quiet :: "dns_proxy \<Rightarrow> dns_proxy \<Rightarrow> bool" where
  "quiet st st' \<longleftrightarrow> li_heap st' = li_heap st \<and> listener_table st' = listener_table st \<and> request_list st' = request_list st \<and>
     clients st' = clients st \<and> (\<forall>r. map_option req_core (req_heap st' r) = map_option req_core (req_heap st r))"

lemma quiet_refl [simp, intro]: "quiet st st"
  by (simp add: quiet_def)

lemma quiet_trans [trans]: "quiet st st' \<Longrightarrow> quiet st' st'' \<Longrightarrow> quiet st st''"
  by (simp add: quiet_def)

lemma quiet_upd [simp]:
  "quiet st (act a u) = quiet st u" "quiet (act a u) st = quiet u st"
  "quiet st (u\<lparr>dns := c\<rparr>) = quiet st u" "quiet (u\<lparr>dns := c\<rparr>) st = quiet u st"
  "quiet st (u\<lparr>next_id := n\<rparr>) = quiet st u" "quiet (u\<lparr>next_id := n\<rparr>) st = quiet u st"
  "quiet st (set_srv s d u) = quiet st u" "quiet (set_srv s d u) st = quiet u st"
  "quiet st (source_remove n u) = quiet st u" "quiet (source_remove n u) st = quiet u st"
  "quiet st (u\<lparr>server_list := ss\<rparr>) = quiet st u" "quiet (u\<lparr>server_list := ss\<rparr>) st = quiet u st"
  "quiet st (u\<lparr>srv_heap := h\<rparr>) = quiet st u" "quiet (u\<lparr>srv_heap := h\<rparr>) st = quiet u st"
  "quiet st (u\<lparr>cache_timer := n\<rparr>) = quiet st u" "quiet (u\<lparr>cache_timer := n\<rparr>) st = quiet u st"
  "quiet st (u\<lparr>sources := m\<rparr>) = quiet st u" "quiet (u\<lparr>sources := m\<rparr>) st = quiet u st"
  "quiet st (send_opt sk out addr u) = quiet st u" "quiet (send_opt sk out addr u) st = quiet u st"
  by (simp_all add: quiet_def source_remove_def send_opt_def split: option.split)

lemma quiet_set_req: "req_heap st r = Some q \<Longrightarrow> req_core q' = req_core q \<Longrightarrow> quiet st (set_req r q' st)"
  by (simp add: quiet_def)

lemma server_destroy_socket_quiet: "server_destroy_socket s st = Some st' \<Longrightarrow> quiet st st' \<and> server_list st' = server_list st"
  by (auto simp: server_destroy_socket_def Let_def quiet_def source_remove_def split: bind_splits option.splits if_splits)

lemma server_destroy_socket_result:
  assumes "server_destroy_socket s st = Some st'"
  obtains d where "srv_heap st' = (srv_heap st)(s \<mapsto> d)" "sv_watch d = 0" "sv_timeout d = 0" "channel d = None"
    "server_list st' = server_list st"
  using assms by (auto simp: server_destroy_socket_def Let_def source_remove_def split: bind_splits option.splits if_splits)

lemma destroy_server_cases:
  assumes "destroy_server s st = Some st'" "proxy_inv X st"
  shows "proxy_inv X st'" "quiet st st'" "server_list st' = g_list_remove s (server_list st)" "srv_heap st' = (srv_heap st)(s := None)"
proof -
  let ?u = "st\<lparr>server_list := g_list_remove s (server_list st)\<rparr>"
  obtain st1 where st1: "server_destroy_socket s ?u = Some st1"
    using assms(1) by (auto simp: destroy_server_def split: bind_splits)
  have inv1: "proxy_inv X st1" by (rule server_destroy_socket_inv [OF st1 unlist_server_inv [OF assms(2)]])
  define st2 where "st2 = (if cache_tbl (dns st1) \<noteq> None \<and> cache_timer st1 = 0 then
                 let (st, n) = add_source Cache_timer st1 in st\<lparr>cache_timer := n\<rparr> else st1)"
  have st': "st' = st2\<lparr>srv_heap := (srv_heap st2)(s := None)\<rparr>"
    using assms(1) st1 by (simp add: destroy_server_def st2_def Let_def)
  have inv2: "proxy_inv X st2" using inv1 cache_timer_inv [OF inv1] by (simp add: st2_def)
  have f2: "srv_heap st2 = srv_heap st1" "server_list st2 = server_list st1" "quiet st1 st2"
    by (simp_all add: st2_def add_source_def Let_def quiet_def)
  from st1 obtain d where d: "srv_heap st1 = (srv_heap st)(s \<mapsto> d)" "sv_watch d = 0" "sv_timeout d = 0"
    "server_list st1 = server_list ?u" by (rule server_destroy_socket_result) auto
  have "s \<notin> set (g_list_remove s (server_list st))" using proxy_invD(2) [OF assms(2)] by (simp add: srv_inv_def)
  then show "proxy_inv X st'" unfolding st' using d f2 by (intro free_server_inv [OF inv2]) auto
  have "quiet ?u st1" using server_destroy_socket_quiet [OF st1] by simp
  then show "quiet st st'" using f2(3) by (simp add: st' quiet_def)
  show "server_list st' = g_list_remove s (server_list st)" "srv_heap st' = (srv_heap st)(s := None)"
    using d f2 by (simp_all add: st')
qed

lemma watch_server_inv:
  assumes "proxy_inv X st" "srv_heap st s = Some d" "sv_watch d = 0" "sv_timeout d = 0" "server_addr d \<noteq> None"
  shows "proxy_inv X (watch_server s (d\<lparr>channel := Some sk\<rparr>) st)"
proof -
  let ?n = "Suc (next_id st)"
  let ?d1 = "d\<lparr>channel := Some sk, sv_watch := ?n\<rparr>"
  let ?st1 = "st\<lparr>sources := (sources st)(?n \<mapsto> Srv_watch s), next_id := ?n, srv_heap := (srv_heap st)(s \<mapsto> ?d1)\<rparr>"
  have none: "sources st m \<noteq> Some (Srv_watch s)" "sources st m \<noteq> Some (Srv_idle s)" for m
    using src_invD [OF assms(1), of m] assms(2-4) by auto
  have ok: "s \<le> next_id st" "srv_ok (s \<in> set (server_list st)) ?d1"
    using srv_invD [OF assms(1,2)] assms(5) by (auto simp: srv_ok_def)
  have next1: "proxy_inv X (st\<lparr>next_id := n\<rparr>)" if "next_id st \<le> n" for n by (rule next_id_inv [OF assms(1) that])
  have S1: "stored ?st1 src = (if src = Srv_watch s then Some ?n else stored st src)" for src
    by (cases src) (use assms in auto)
  have inv1: "proxy_inv X ?st1" unfolding proxy_inv_def
  proof (intro conjI)
    show "src_inv ?st1" by (rule src_inv_add [OF assms(1) _ _ _ _ none(1) S1]) simp_all
    show "srv_inv ?st1" using proxy_invD(2) [OF next1 [of ?n]] ok assms(2) by (auto simp: srv_inv_def)
    show "req_inv X ?st1" using proxy_invD(3) [OF next1 [of ?n]] by (simp add: req_inv_def)
    show "li_inv ?st1" using proxy_invD(4) [OF next1 [of ?n]] by (simp add: li_inv_def)
  qed (use proxy_invD [OF assms(1)] in \<open>auto simp: client_inv_def cache_part_def\<close>)
  let ?m = "Suc ?n"
  let ?d2 = "?d1\<lparr>sv_timeout := ?m\<rparr>"
  let ?st2 = "?st1\<lparr>sources := (sources ?st1)(?m \<mapsto> Srv_idle s), next_id := ?m, srv_heap := (srv_heap ?st1)(s \<mapsto> ?d2)\<rparr>"
  have S2: "stored ?st2 src = (if src = Srv_idle s then Some ?m else stored ?st1 src)" for src by (cases src) auto
  have none2: "sources ?st1 k \<noteq> Some (Srv_idle s)" for k using none(2) [of k] by auto
  have "proxy_inv X ?st2" unfolding proxy_inv_def
  proof (intro conjI)
    show "src_inv ?st2" by (rule src_inv_add [OF inv1 _ _ _ _ none2 S2]) simp_all
    have "srv_ok (s \<in> set (server_list st)) ?d2" using ok(2) by (simp add: srv_ok_def)
    then show "srv_inv ?st2" using proxy_invD(2) [OF next1 [of ?m]] ok assms(2) by (auto simp: srv_inv_def)
    show "req_inv X ?st2" using proxy_invD(3) [OF next1 [of ?m]] by (simp add: req_inv_def)
    show "li_inv ?st2" using proxy_invD(4) [OF next1 [of ?m]] by (simp add: li_inv_def)
  qed (use proxy_invD [OF assms(1)] in \<open>auto simp: client_inv_def cache_part_def\<close>)
  then show ?thesis using inv1 by (simp add: watch_server_def add_source_def Let_def set_srv_def)
qed

text \<open>The proxy uses the cache through its operations.\<close>

lemma cache_reachD: "proxy_inv X st \<Longrightarrow> cache_reach (dns st)"
  using proxy_invD(6) [of X st] by (simp add: cache_part_def)

lemma dns_create_inv: "proxy_inv X st \<Longrightarrow> proxy_inv X (st\<lparr>dns := create_cache (dns st)\<rparr>)"
  by (rule dns_inv [OF _ _ create_cache_tbl]) (auto intro: cache_reach.create cache_reachD)

lemma dns_check_inv: "proxy_inv X st \<Longrightarrow> cache_check tm (dns st) req p = Some (c, hit) \<Longrightarrow> proxy_inv X (st\<lparr>dns := c\<rparr>)"
  by (rule dns_inv [OF _ _ cache_check_tbl]) (auto intro: cache_reach.check cache_reachD)

lemma dns_serve_inv: "proxy_inv X st \<Longrightarrow> serve_cached tm (dns st) key ty sk p i = Some (c, r) \<Longrightarrow> proxy_inv X (st\<lparr>dns := c\<rparr>)"
  by (rule dns_inv [OF _ _ serve_cached_tbl]) (auto intro: cache_reach.serve cache_reachD)

lemma dns_invalidate_inv: "proxy_inv X st \<Longrightarrow> proxy_inv X (st\<lparr>dns := cache_invalidate tm (dns st)\<rparr>)"
  by (rule dns_inv [OF _ _ cache_invalidate_tbl]) (auto intro: cache_reach.invalidate cache_reachD)

lemma dns_refresh_inv: "proxy_inv X st \<Longrightarrow> cache_refresh tm (dns st) = Some c \<Longrightarrow> proxy_inv X (st\<lparr>dns := c\<rparr>)"
  by (rule dns_inv [OF _ _ cache_refresh_tbl]) (auto intro: cache_reach.refresh cache_reachD)

lemma dns_update_inv:
  assumes "proxy_inv X st" "cache_update tm p (dns st) msg len ok1 ok2 = Some (c, ret)"
  shows "proxy_inv X (st\<lparr>dns := c\<rparr>)"
proof (rule dns_inv [OF assms(1)])
  show "cache_reach c" using cache_reach.update [OF cache_reachD [OF assms(1)] assms(2)] .
  show "cache_tbl c \<noteq> None" if "cache_tbl (dns st) \<noteq> None"
    by (rule cache_update_tbl [OF assms(2) cache_reach_inv [OF cache_reachD [OF assms(1)]] that])
qed

lemma watch_server_quiet: "quiet st (watch_server s d st) \<and> server_list (watch_server s d st) = server_list st \<and>
    (\<forall>s'. s' \<noteq> s \<longrightarrow> srv_heap (watch_server s d st) s' = srv_heap st s')"
  by (simp add: watch_server_def add_source_def Let_def quiet_def)

text \<open>What the socket operations keep of a server.\<close>

definition srv_core :: "server_data \<Rightarrow> server_data" where
  "srv_core d = d\<lparr>channel := None, sv_watch := 0, sv_timeout := 0, incoming_reply := None\<rparr>"

definition same_servers :: "dns_proxy \<Rightarrow> dns_proxy \<Rightarrow> bool" where
  "same_servers st st' \<longleftrightarrow> server_list st' = server_list st \<and>
     (\<forall>s. map_option srv_core (srv_heap st' s) = map_option srv_core (srv_heap st s))"

lemma same_servers_refl [simp]: "same_servers st st"
  by (simp add: same_servers_def)

lemma same_servers_trans [trans]: "same_servers st st' \<Longrightarrow> same_servers st' st'' \<Longrightarrow> same_servers st st''"
  by (simp add: same_servers_def)

lemma same_servers_upd [simp]:
  "same_servers st (act a u) = same_servers st u" "same_servers (act a u) st = same_servers u st"
  "same_servers st (u\<lparr>dns := c\<rparr>) = same_servers st u" "same_servers (u\<lparr>dns := c\<rparr>) st = same_servers u st"
  "same_servers st (u\<lparr>next_id := n\<rparr>) = same_servers st u" "same_servers (u\<lparr>next_id := n\<rparr>) st = same_servers u st"
  "same_servers st (set_req r q u) = same_servers st u" "same_servers (set_req r q u) st = same_servers u st"
  "same_servers st (source_remove n u) = same_servers st u" "same_servers (source_remove n u) st = same_servers u st"
  "same_servers st (u\<lparr>cache_timer := n\<rparr>) = same_servers st u" "same_servers (u\<lparr>cache_timer := n\<rparr>) st = same_servers u st"
  "same_servers st (u\<lparr>sources := m\<rparr>) = same_servers st u" "same_servers (u\<lparr>sources := m\<rparr>) st = same_servers u st"
  "same_servers st (send_opt sk out addr u) = same_servers st u" "same_servers (send_opt sk out addr u) st = same_servers u st"
  by (simp_all add: same_servers_def source_remove_def send_opt_def split: option.split)

lemma server_destroy_socket_same: "server_destroy_socket s st = Some st' \<Longrightarrow> same_servers st st'"
  by (auto simp: server_destroy_socket_def Let_def same_servers_def srv_core_def source_remove_def
      split: bind_splits option.splits if_splits)

lemma watch_server_same: "srv_heap st s = Some d0 \<Longrightarrow> srv_core d = srv_core d0 \<Longrightarrow> same_servers st (watch_server s d st)"
  by (auto simp: watch_server_def add_source_def Let_def same_servers_def srv_core_def)

lemma server_create_socket_inv:
  assumes "server_create_socket env s st = Some (st', ret)" "proxy_inv X st"
    and "\<And>d. srv_heap st s = Some d \<Longrightarrow> sv_watch d = 0 \<and> sv_timeout d = 0"
  shows "proxy_inv X st'"
proof -
  obtain d where d: "srv_heap st s = Some d" "server_addr d \<noteq> None"
    using assms(1) by (auto simp: server_create_socket_def split: bind_splits)
  have w: "proxy_inv X (watch_server s (d\<lparr>channel := Some sk\<rparr>) st)" for sk
    by (rule watch_server_inv [OF assms(2) d(1)]) (use assms(3) [OF d(1)] d(2) in auto)
  show ?thesis
    using assms(1,2) d(1) w dns_create_inv [OF w]
    by (auto simp: server_create_socket_def Let_def elim!: server_destroy_socket_inv split: bind_splits sum.splits if_splits)
qed

lemma server_create_socket_quiet:
  assumes "server_create_socket env s st = Some (st', ret)"
  shows "quiet st st'" "same_servers st st'"
proof -
  obtain d where d: "srv_heap st s = Some d" using assms by (auto simp: server_create_socket_def split: bind_splits)
  have w: "quiet st (watch_server s (d\<lparr>channel := Some sk\<rparr>) st)" "same_servers st (watch_server s (d\<lparr>channel := Some sk\<rparr>) st)" for sk
    using watch_server_quiet watch_server_same [OF d] by (auto simp: srv_core_def)
  show "quiet st st'"
    using assms d w by (auto simp: server_create_socket_def Let_def dest!: server_destroy_socket_quiet intro: quiet_trans
        split: bind_splits sum.splits if_splits)
  show "same_servers st st'"
    using assms d w by (auto simp: server_create_socket_def Let_def dest!: server_destroy_socket_same intro: same_servers_trans
        split: bind_splits sum.splits if_splits)
qed

lemma new_server_ok [simp]:
  "protocol = PROTO_UDP \<or> protocol = PROTO_TCP \<Longrightarrow> srv_ok False (new_server index domain server protocol)"
  "protocol = PROTO_UDP \<or> protocol = PROTO_TCP \<Longrightarrow> srv_ok False (new_server index domain server protocol\<lparr>server_addr := a\<rparr>)"
  by (auto simp: srv_ok_def new_server_def)

text \<open>What configuration changes keep of the servers.\<close>

definition srv_id :: "server_data \<Rightarrow> int \<times> u8 list \<times> u8 list option \<times> int \<times> bool" where
  "srv_id d = (sv_index d, sv_server d, server_addr d, sv_protocol d, connected d)"

definition same_ids :: "dns_proxy \<Rightarrow> dns_proxy \<Rightarrow> bool" where
  "same_ids st st' \<longleftrightarrow> server_list st' = server_list st \<and>
     (\<forall>s. map_option srv_id (srv_heap st' s) = map_option srv_id (srv_heap st s))"

lemma same_ids_refl [simp]: "same_ids st st"
  by (simp add: same_ids_def)

lemma same_ids_trans [trans]: "same_ids st st' \<Longrightarrow> same_ids st' st'' \<Longrightarrow> same_ids st st''"
  by (simp add: same_ids_def)

lemma same_ids_dns [simp]: "same_ids st (u\<lparr>dns := c\<rparr>) = same_ids st u" "same_ids (u\<lparr>dns := c\<rparr>) st = same_ids u st"
  by (simp_all add: same_ids_def)

lemma same_ids_at:
  assumes "same_ids st st'" "srv_heap st s = Some d"
  obtains d' where "srv_heap st' s = Some d'" "srv_id d' = srv_id d"
  using assms by (fastforce simp: same_ids_def dest!: spec [of _ s])

lemma same_servers_ids: "same_servers st st' \<Longrightarrow> same_ids st st'"
proof -
  have "map_option srv_id x = map_option srv_id y" if "map_option srv_core x = map_option srv_core y" for x y
  proof -
    have "srv_id d = srv_id (srv_core d)" for d by (simp add: srv_id_def srv_core_def)
    then have "map_option srv_id z = map_option srv_id (map_option srv_core z)" for z by (cases z) auto
    then show ?thesis using that by metis
  qed
  then show "same_servers st st' \<Longrightarrow> same_ids st st'" unfolding same_servers_def same_ids_def by blast
qed

text \<open>A change of a server that keeps its identity, its channel and its sources.\<close>

lemma set_srv_same:
  assumes "srv_heap st s = Some d" "srv_id d' = srv_id d" "channel d' = channel d" "sv_watch d' = sv_watch d" "sv_timeout d' = sv_timeout d"
  shows "proxy_inv X st \<longrightarrow> proxy_inv X (set_srv s d' st)" "quiet st (set_srv s d' st)" "same_ids st (set_srv s d' st)"
  using set_srv_inv [of X st s d d'] assms by (auto simp: srv_ok_def srv_id_def same_ids_def)

definition config_step :: "nat set \<Rightarrow> (nat \<Rightarrow> dns_proxy \<Rightarrow> dns_proxy option) \<Rightarrow> bool" where
  "config_step X f \<longleftrightarrow>
     (\<forall>s st st'. f s st = Some st' \<longrightarrow> (proxy_inv X st \<longrightarrow> proxy_inv X st') \<and> quiet st st' \<and> same_ids st st')"

lemma each_server_inv:
  assumes "config_step X f" "each_server f ss st = Some st'"
  shows "proxy_inv X st \<longrightarrow> proxy_inv X st'" "quiet st st'" "same_ids st st'"
proof -
  have "(proxy_inv X st \<longrightarrow> proxy_inv X st') \<and> quiet st st' \<and> same_ids st st'"
    using assms(2)
  proof (induction ss arbitrary: st)
    case (Cons s ss)
    then obtain u where u: "f s st = Some u" "each_server f ss u = Some st'" by (auto split: bind_splits)
    have "(proxy_inv X st \<longrightarrow> proxy_inv X u) \<and> quiet st u \<and> same_ids st u" using assms(1) u(1) by (simp add: config_step_def)
    then show ?case using Cons.IH [OF u(2)] quiet_trans same_ids_trans by blast
  qed simp
  then show "proxy_inv X st \<longrightarrow> proxy_inv X st'" "quiet st st'" "same_ids st st'" by auto
qed

lemma set_enabled_step: "config_step X (set_enabled b P)"
  unfolding config_step_def
proof (intro allI impI)
  fix s st st' assume "set_enabled b P s st = Some st'"
  then obtain d where d: "srv_heap st s = Some d" "st' = (if P d then set_srv s (d\<lparr>enabled := b\<rparr>) st else st)"
    by (auto simp: set_enabled_def split: bind_splits)
  show "(proxy_inv X st \<longrightarrow> proxy_inv X st') \<and> quiet st st' \<and> same_ids st st'"
    using set_srv_same [OF d(1), of "d\<lparr>enabled := b\<rparr>"] d(2) by (simp add: srv_id_def)
qed

lemma enable_fallback_inv:
  assumes "enable_fallback b st = Some st'"
  shows "proxy_inv X st \<longrightarrow> proxy_inv X st'" "quiet st st'" "same_ids st st'"
  using each_server_inv [OF set_enabled_step assms [unfolded enable_fallback_def]] .

text \<open>A server that has a socket enters the list.\<close>

lemma list_server_inv:
  assumes "proxy_inv X st" "srv_heap st s = Some d" "s \<notin> set (server_list st)" "srv_ok True d"
  shows "proxy_inv X (st\<lparr>server_list := server_list st @ [s]\<rparr>)"
  unfolding proxy_inv_def
proof (intro conjI)
  let ?st = "st\<lparr>server_list := server_list st @ [s]\<rparr>"
  have "stored ?st src = stored st src" for src by (cases src) simp_all
  then show "src_inv ?st" using proxy_invD(1) [OF assms(1)] by (simp add: src_inv_def)
  have "srv_ok (s' \<in> set (server_list st @ [s])) d'" if "srv_heap st s' = Some d'" for s' d'
    using srv_invD [OF assms(1) that] assms(2,4) that by (cases "s' = s") auto
  then show "srv_inv ?st" using proxy_invD(2) [OF assms(1)] assms(2,3) by (auto simp: srv_inv_def)
qed (use proxy_invD [OF assms(1)] in \<open>simp_all add: req_inv_def li_inv_def client_inv_def cache_part_def\<close>)

lemma server_address_cases:
  assumes "server_address env server st = (st', a)" "proxy_inv X st"
  shows "proxy_inv X st'" "quiet st st'" "srv_heap st' = srv_heap st" "server_list st' = server_list st"
  using assms next_id_inv [OF assms(2), of "Suc (next_id st)"]
  by (auto simp: server_address_def new_object_def Let_def split: option.splits if_splits)

text \<open>The last part of \<^verbatim>\<open>create_server\<close>: a UDP server is enabled if it is on a default interface, and listed.\<close>

lemma list_udp_server:
  assumes "proxy_inv X st" "srv_heap st s = Some d" "s \<notin> set (server_list st)" "server_addr d \<noteq> None" "sv_protocol d = PROTO_UDP"
    and "(if b then do { st \<leftarrow> set_enabled True (\<lambda>_. True) s st; enable_fallback False st } else Some st) = Some st'"
  shows "proxy_inv X (st'\<lparr>server_list := server_list st' @ [s]\<rparr>) \<and> quiet st st'"
proof -
  have f: "(proxy_inv X st \<longrightarrow> proxy_inv X st') \<and> quiet st st' \<and> same_ids st st'"
  proof (cases b)
    case True
    then obtain u where u: "set_enabled True (\<lambda>_. True) s st = Some u" "enable_fallback False u = Some st'"
      using assms(6) by (auto split: bind_splits)
    have "(proxy_inv X st \<longrightarrow> proxy_inv X u) \<and> quiet st u \<and> same_ids st u"
      using u(1) set_enabled_step [of X True "\<lambda>_. True"] unfolding config_step_def by blast
    then show ?thesis using enable_fallback_inv [OF u(2)] quiet_trans same_ids_trans by blast
  qed (use assms(6) in simp)
  then obtain d' where d': "srv_heap st' s = Some d'" "srv_id d' = srv_id d" using same_ids_at assms(2) by blast
  have inv: "proxy_inv X st'" using f assms(1) by blast
  have "srv_ok True d'" using srv_invD [OF inv d'(1)] d'(2) assms(4,5) by (auto simp: srv_ok_def srv_id_def)
  moreover have "server_list st' = server_list st" using f by (simp add: same_ids_def)
  ultimately show ?thesis using list_server_inv [OF inv d'(1)] assms(3) f by simp
qed

lemma create_server_inv:
  assumes "create_server env index domain server protocol st = Some (st', ret)" "proxy_inv X st"
    and "protocol = PROTO_UDP \<or> protocol = PROTO_TCP"
  shows "proxy_inv X st' \<and> quiet st st'"
proof -
  obtain st1 a where 1: "new_object env st = (st1, a)" by fastforce
  note q1 = new_object_inv [OF 1 assms(2)]
  have quiet1: "quiet st st1" unfolding q1(2) by simp
  define data where "data = new_server index domain server protocol"
  show ?thesis
  proof (cases a)
    case None
    then show ?thesis using assms(1) 1 q1(1) quiet1 by (simp add: create_server_def)
  next
    case (Some s)
    have 2: "proxy_inv X (set_srv s data st1)"
      by (rule new_srv_inv [OF q1(1) q1(4) [OF Some]]) (use q1(3) [OF Some] assms(3) in \<open>simp_all add: data_def\<close>)
    obtain st3 addr where 3: "server_address env server (set_srv s data st1) = (st3, addr)" by fastforce
    note q3 = server_address_cases [OF 3 2]
    have quiet3: "quiet st st3" by (rule quiet_trans [OF quiet1]) (use q3(2) in simp)
    have s3: "srv_heap st3 s = Some data" "s \<notin> set (server_list st3)"
      using q3(3,4) q1(4) [OF Some] proxy_invD(2) [OF q1(1)] by (auto simp: srv_inv_def)
    note body = assms(1) [unfolded create_server_def 1 Some prod.case option.case Let_def, folded data_def]
    have dead: "proxy_inv X st' \<and> quiet st st'" if "destroy_server s u = Some st'" "proxy_inv X u" "quiet st u" for u
      using destroy_server_cases(1,2) [OF that(1,2)] quiet_trans [OF that(3)] by blast
    show ?thesis
    proof (cases addr)
      case None
      then show ?thesis using body assms(3) 3 dead [OF _ q3(1) quiet3] by (auto split: bind_splits)
    next
      case (Some addr)
      let ?st4 = "set_srv s (data\<lparr>server_addr := Some addr\<rparr>) st3"
      have 4: "proxy_inv X ?st4"
        by (rule set_srv_inv [OF q3(1) s3(1)]) (auto simp: srv_ok_def data_def new_server_def)
      obtain st5 e where 5: "server_create_socket env s ?st4 = Some (st5, e)"
        using body assms(3) 3 Some by (auto split: bind_splits)
      have inv5: "proxy_inv X st5" by (rule server_create_socket_inv [OF 5 4]) (simp add: data_def new_server_def)
      have quiet5: "quiet st st5" by (rule quiet_trans [OF quiet3]) (use server_create_socket_quiet(1) [OF 5] in simp)
      have ids: "same_ids ?st4 st5" by (rule same_servers_ids [OF server_create_socket_quiet(2) [OF 5]])
      have "srv_heap ?st4 s = Some (data\<lparr>server_addr := Some addr\<rparr>)" by simp
      then obtain d where d: "srv_heap st5 s = Some d" "srv_id d = srv_id (data\<lparr>server_addr := Some addr\<rparr>)"
        by (rule same_ids_at [OF ids])
      have d5: "s \<notin> set (server_list st5)" "server_addr d \<noteq> None" "sv_protocol d = protocol"
        using ids s3(2) d(2) by (simp_all add: same_ids_def srv_id_def data_def new_server_def)
      show ?thesis
      proof (cases "e \<noteq> 0 \<or> protocol = PROTO_TCP")
        case True
        then show ?thesis
          using body assms(3) 3 Some 5 inv5 quiet5 dead [OF _ inv5 quiet5] by (auto split: bind_splits if_splits)
      next
        case False
        then have udp: "protocol = PROTO_UDP" "e = 0" using assms(3) by auto
        obtain st6 where 6: "(if default_index env index then do { st \<leftarrow> set_enabled True (\<lambda>_. True) s st5; enable_fallback False st }
            else Some st5) = Some st6" "st' = st6\<lparr>server_list := server_list st6 @ [s]\<rparr>"
          using body udp 3 Some 5 by (auto split: bind_splits)
        show ?thesis
          using list_udp_server [OF inv5 d(1) d5(1,2) _ 6(1)] d5(3) udp 6(2) quiet_trans [OF quiet5] by auto
      qed
    qed
  qed
qed

section \<open>Asking servers\<close>

definition asks :: "nat set \<Rightarrow> dns_proxy \<Rightarrow> dns_proxy \<Rightarrow> bool" where
  "asks X st st' \<longleftrightarrow> (proxy_inv X st \<longrightarrow> proxy_inv X st') \<and> quiet st st' \<and> same_servers st st'"

lemma asks_refl [simp]: "asks X st st"
  by (simp add: asks_def)

lemma asks_trans [trans]: "asks X st st' \<Longrightarrow> asks X st' st'' \<Longrightarrow> asks X st st''"
  unfolding asks_def using quiet_trans same_servers_trans by blast

lemma asks_act [simp]: "asks X st (act a st)" "asks X st (send_opt sk out addr st)"
  by (simp_all add: asks_def)

lemma asks_set_req:
  assumes "req_heap st r = Some q"
  shows "asks X st (set_req r (q\<lparr>numserv := n\<rparr>) st)" "asks X st (set_req r (q\<lparr>numserv := n, append_domain := b\<rparr>) st)"
proof -
  have "proxy_inv X st \<longrightarrow> proxy_inv X (set_req r q' st)" if "req_core q' = req_core q" for q'
  proof
    assume inv: "proxy_inv X st"
    have "rq_timeout q' = rq_timeout q" "resp q' = resp q" "resplen q' = resplen q" "rq_name q' = rq_name q"
      "request q' = request q" "request_len q' = request_len q" "rq_protocol q' = rq_protocol q" "rq_ifdata q' = rq_ifdata q"
      using that by (cases q; cases q'; simp add: req_core_def)+
    then show "proxy_inv X (set_req r q' st)"
      using req_invD [OF inv assms] by (intro set_req_inv [OF inv assms]) (simp_all add: req_ok_def resp_ok_def queued_ok_def)
  qed
  then show "asks X st (set_req r (q\<lparr>numserv := n\<rparr>) st)" "asks X st (set_req r (q\<lparr>numserv := n, append_domain := b\<rparr>) st)"
    using quiet_set_req [OF assms] by (simp_all add: asks_def req_core_def)
qed

lemma send_domains_asks:
  "send_domains env sk p r bs name ds st = Some (st', ret) \<Longrightarrow> asks X st st'"
proof (induction ds arbitrary: st)
  case (Cons d ds)
  obtain q a where q: "req_heap st r = Some q" "alt_query (alt_init env) p (altid q) bs (request_len q) name d = Some a"
    using Cons.prems by (auto split: bind_splits)
  show ?case
  proof (cases a)
    case (Inl e)
    then show ?thesis using Cons.prems q by simp
  next
    case (Inr out)
    let ?u = "act (Sendto sk out None) st"
    show ?thesis
    proof (cases "send_ok env (length (acts st))")
      case False
      then show ?thesis using Cons.prems q Inr by (auto simp: do_send_def)
    next
      case True
      then have "send_domains env sk p r bs name ds (set_req r (q\<lparr>numserv := numserv q + 1\<rparr>) ?u) = Some (st', ret)"
        using Cons.prems q Inr by (simp add: do_send_def)
      then have "asks X (set_req r (q\<lparr>numserv := numserv q + 1\<rparr>) ?u) st'" by (rule Cons.IH)
      moreover have "asks X ?u (set_req r (q\<lparr>numserv := numserv q + 1\<rparr>) ?u)" by (rule asks_set_req) (simp add: q)
      ultimately show ?thesis using asks_act(1) asks_trans by blast
    qed
  qed
qed simp

lemma resolv_cached_asks:
  "resolv_cached env st req hit = Some (st', ret) \<Longrightarrow> asks X st st'"
  using dns_serve_inv [of X st]
  by (auto simp: resolv_cached_def asks_def split: option.splits prod.splits bind_splits if_splits)

lemma ns_resolv_asks:
  assumes "ns_resolv env s r bytes name st = Some (st', ret)"
  shows "asks X st st'"
proof -
  obtain d q c hit st1 x where b: "srv_heap st s = Some d" "req_heap st r = Some q"
    "cache_check (now env) (dns st) bytes (rq_protocol q) = Some (c, hit)" "resolv_cached env (st\<lparr>dns := c\<rparr>) q hit = Some (st1, x)"
    using assms by (auto simp: ns_resolv_def split: bind_splits)
  have "asks X st (st\<lparr>dns := c\<rparr>)" using dns_check_inv [OF _ b(3)] by (simp add: asks_def)
  then have 1: "asks X st st1" using resolv_cached_asks [OF b(4)] asks_trans by blast
  have q1: "req_heap st1 r = Some q" using b(2,4)
    by (auto simp: resolv_cached_def send_opt_def split: option.splits prod.splits bind_splits if_splits)
  note body = assms [unfolded ns_resolv_def b bind.bind_lunit prod.case]
  show ?thesis
  proof (cases x)
    case (Some y)
    then show ?thesis using body 1 by simp
  next
    case None
    obtain sk bs out where s: "channel d = Some sk" "bytes = Some bs" "bytes_at bs 0 (request_len q) = Some out"
      using body None by (auto split: bind_splits)
    let ?u = "act (Sendto sk out (server_addr d)) st1"
    have 2: "asks X st ?u" using 1 asks_act asks_trans by blast
    show ?thesis
    proof (cases "send_ok env (length (acts st1))")
      case False
      then show ?thesis using body None s 2 by (auto simp: do_send_def)
    next
      case True
      obtain lookup where l: "name = Some lookup" using body None s True by (auto simp: do_send_def Let_def split: bind_splits)
      have 3: "asks X st (set_req r (q\<lparr>numserv := numserv q + 1\<rparr>) ?u)"
        "asks X st (set_req r (q\<lparr>numserv := numserv q + 1, append_domain := True\<rparr>) ?u)"
        using asks_trans [OF 2] asks_set_req [of ?u r q X] q1 by simp_all
      show ?thesis
        using body None s True l 3 asks_trans [OF 3(1) send_domains_asks] asks_trans [OF 3(2) send_domains_asks]
        by (auto simp: do_send_def Let_def split: if_splits)
    qed
  qed
qed

lemma resolv_from_asks: "resolv_from env ss r bytes name st = Some (st', ret) \<Longrightarrow> proxy_inv X st \<Longrightarrow> asks X st st'"
proof (induction ss arbitrary: st)
  case (Cons s ss)
  obtain d where d: "srv_heap st s = Some d" using Cons.prems by (auto split: bind_splits)
  show ?case
  proof (cases "sv_protocol d = PROTO_TCP \<or> \<not> enabled d")
    case True
    then show ?thesis using Cons d by auto
  next
    case False
    define cr where "cr = (if channel d = None \<and> sv_protocol d = PROTO_UDP then server_create_socket env s st else Some (st, 0))"
    obtain st1 e where 1: "cr = Some (st1, e)" using Cons.prems d False by (auto simp: cr_def split: bind_splits)
    have a1: "asks X st st1"
      using 1 Cons.prems(2) server_create_socket_inv [of env s st st1 e X] server_create_socket_quiet [of env s st st1 e]
        srv_invD [OF Cons.prems(2) d] d
      by (auto simp: cr_def asks_def srv_ok_def split: if_splits)
    have inv1: "proxy_inv X st1" using a1 Cons.prems(2) by (simp add: asks_def)
    note body = Cons.prems(1) [unfolded resolv_from.simps d bind.bind_lunit, folded cr_def, unfolded 1 bind.bind_lunit prod.case]
    show ?thesis
    proof (cases "e < 0")
      case True
      then show ?thesis using body False Cons.IH [OF _ inv1] asks_trans [OF a1] by auto
    next
      case e: False
      obtain st2 x where 2: "ns_resolv env s r bytes name st1 = Some (st2, x)" using body False e by (auto split: bind_splits)
      have a2: "asks X st st2" using asks_trans [OF a1 ns_resolv_asks [OF 2]] .
      then have inv2: "proxy_inv X st2" using Cons.prems(2) by (simp add: asks_def)
      show ?thesis using body False e 2 a2 Cons.IH [OF _ inv2] asks_trans [OF a2] by (auto split: if_splits)
    qed
  qed
qed simp

section \<open>Configuration\<close>

lemma update_domain_step: "config_step X (update_domain_of index dm add)"
  unfolding config_step_def
proof (intro allI impI)
  fix s st st' assume a: "update_domain_of index dm add s st = Some st'"
  then obtain d where d: "srv_heap st s = Some d" by (auto simp: update_domain_of_def split: bind_splits)
  show "(proxy_inv X st \<longrightarrow> proxy_inv X st') \<and> quiet st st' \<and> same_ids st st'"
    using a d set_srv_same [OF d, where d' = "d\<lparr>domains := ds\<rparr>" for ds]
    by (auto simp: update_domain_of_def srv_id_def Let_def split: if_splits)
qed

lemma offline_server_step: "config_step X (offline_server env b)"
  unfolding config_step_def
proof (intro allI impI)
  fix s st st' assume a: "offline_server env b s st = Some st'"
  then obtain st1 where 1: "set_enabled (\<not> b) (\<lambda>_. True) s st = Some st1" by (auto simp: offline_server_def split: bind_splits)
  have s1: "(proxy_inv X st \<longrightarrow> proxy_inv X st1) \<and> quiet st st1 \<and> same_ids st st1"
    using set_enabled_step 1 unfolding config_step_def by blast
  show "(proxy_inv X st \<longrightarrow> proxy_inv X st') \<and> quiet st st' \<and> same_ids st st'"
    using a 1 s1 dns_invalidate_inv [of X st1 "now env"] dns_refresh_inv [of X "st1\<lparr>dns := cache_invalidate (now env) (dns st1)\<rparr>" "now env"]
    by (auto simp: offline_server_def Let_def split: bind_splits if_splits)
qed

lemma select_server_step: "config_step X (select_server index)"
  unfolding config_step_def
proof (intro allI impI)
  fix s st st' assume a: "select_server index s st = Some st'"
  then obtain d where d: "srv_heap st s = Some d" "st' = set_srv s (d\<lparr>enabled := (sv_index d = index)\<rparr>) st"
    by (auto simp: select_server_def split: bind_splits)
  show "(proxy_inv X st \<longrightarrow> proxy_inv X st') \<and> quiet st st' \<and> same_ids st st'"
    unfolding d(2) using set_srv_same [OF d(1), where d' = "d\<lparr>enabled := (sv_index d = index)\<rparr>"] by (simp add: srv_id_def)
qed

lemma update_domain_inv:
  assumes "update_domain index dm add st = Some st'" "proxy_inv X st"
  shows "proxy_inv X st'"
  using assms each_server_inv(1) [OF update_domain_step] by (auto simp: update_domain_def split: option.splits)

lemma flush_from_inv: "flush_from env s rs st = Some st' \<Longrightarrow> proxy_inv {} st \<Longrightarrow> proxy_inv {} st'"
proof (induction rs arbitrary: st)
  case (Cons r rs)
  obtain q st1 ret where 1: "req_heap st r = Some q" "ns_resolv env s r (request q) (rq_name q) st = Some (st1, ret)"
    using Cons.prems by (auto split: bind_splits)
  have inv1: "proxy_inv {} st1" using ns_resolv_asks [OF 1(2), of "{}"] Cons.prems(2) by (simp add: asks_def)
  obtain st2 where 2: "(if ret \<noteq> 0 then release_request r st1 else restart_timeout r st1) = Some st2" "flush_from env s rs st2 = Some st'"
    using Cons.prems 1 by (auto split: bind_splits)
  have "proxy_inv {} st2" using 2(1) release_request_inv(1) [OF _ inv1] restart_timeout_inv [OF _ inv1] by (auto split: if_splits)
  then show ?case using Cons.IH 2(2) by blast
qed simp

lemma append_inv:
  assumes "connman_dnsproxy_append env index dm server st = Some (st', ret)" "proxy_inv {} st"
  shows "proxy_inv {} st'"
proof -
  have c: "proxy_inv {} u" if "create_server env index dm srv PROTO_UDP st = Some (u, a)" for u a srv
    using create_server_inv [OF that assms(2)] by simp
  have f: "proxy_inv {} u'" if "flush_requests env s u = Some u'" "proxy_inv {} u" for u u' s
    using flush_from_inv that unfolding flush_requests_def by blast
  show ?thesis
    using assms c f [OF _ c] update_domain_inv [OF _ assms(2)]
    by (auto simp: connman_dnsproxy_append_def split: option.splits bind_splits if_splits)
qed

lemma remove_server_inv:
  assumes "remove_server index server p st = Some st'" "proxy_inv X st"
  shows "proxy_inv X st'"
  using assms destroy_server_cases(1) [OF _ assms(2)] enable_fallback_inv(1) [of True]
  by (fastforce simp: remove_server_def split: option.splits bind_splits if_splits)

lemma remove_inv:
  assumes "connman_dnsproxy_remove index dm server st = Some (st', ret)" "proxy_inv X st"
  shows "proxy_inv X st'"
  using assms update_domain_inv [OF _ assms(2)] remove_server_inv
  by (auto simp: connman_dnsproxy_remove_def split: option.splits bind_splits if_splits)

lemma offline_inv:
  assumes "dnsproxy_offline_mode env b st = Some st'" "proxy_inv X st"
  shows "proxy_inv X st'"
  using assms each_server_inv(1) [OF offline_server_step] by (auto simp: dnsproxy_offline_mode_def)

lemma default_changed_inv:
  assumes "dnsproxy_default_changed env service st = Some st'" "proxy_inv X st"
  shows "proxy_inv X st'"
proof -
  let ?st = "st\<lparr>dns := cache_invalidate (now env) (dns st)\<rparr>"
  have i: "proxy_inv X ?st" by (rule dns_invalidate_inv [OF assms(2)])
  show ?thesis
  proof (cases service)
    case None
    then show ?thesis using assms(1) offline_inv [OF _ i] by (simp add: dnsproxy_default_changed_def)
  next
    case (Some index)
    show ?thesis
    proof (cases "index < 0")
      case True
      then show ?thesis using assms(1) i Some by (simp add: dnsproxy_default_changed_def)
    next
      case False
      then obtain st1 st2 c where s: "each_server (select_server index) (server_list ?st) ?st = Some st1"
        "(if list_ex (has_index st1 index) (server_list st1) then Some st1 else enable_fallback True st1) = Some st2"
        "cache_refresh (now env) (dns st2) = Some c" "st' = st2\<lparr>dns := c\<rparr>"
        using assms(1) Some by (auto simp: dnsproxy_default_changed_def split: bind_splits)
      have "proxy_inv X st1" using each_server_inv(1) [OF select_server_step s(1)] i by blast
      then have "proxy_inv X st2" using s(2) enable_fallback_inv(1) by (auto split: if_splits)
      then show ?thesis using dns_refresh_inv s(3,4) by blast
    qed
  qed
qed

section \<open>Replies\<close>

lemma set_resp_inv:
  assumes "proxy_inv X st" "req_heap st r = Some q" "n = (case x of None \<Rightarrow> 0 | Some bs \<Rightarrow> length bs)"
  shows "proxy_inv X (set_req r (q\<lparr>resp := x, resplen := n\<rparr>) st)"
  by (rule set_req_inv [OF assms(1,2)]) (use assms(3) in \<open>simp_all add: resp_ok_def queued_ok_def\<close>)

lemma keep_reply_inv:
  assumes "keep_reply env s r bs len st = Some (st', ok)" "proxy_inv X st"
  shows "proxy_inv X st'"
proof -
  obtain q d st1 a where 1: "req_heap st r = Some q" "srv_heap st s = Some d" "new_object env st = (st1, a)"
    using assms(1) by (cases "new_object env st") (auto simp: keep_reply_def split: bind_splits)
  note n = new_object_inv [OF 1(3) assms(2)]
  have q1: "req_heap st1 r = Some q" using 1(1) n(2) by simp
  show ?thesis
  proof (cases a)
    case None
    then show ?thesis using assms(1) 1 set_resp_inv [OF n(1) q1, of 0 None] by (simp add: keep_reply_def)
  next
    case (Some k)
    then obtain kept c ret where k: "bytes_at bs 0 len = Some kept"
      "cache_update (now env) (sv_protocol d) (dns st1) bs len (alloc_ok env (k + 1)) (alloc_ok env (k + 2)) = Some (c, ret)"
      "st' = set_req r (q\<lparr>resp := Some kept, resplen := len\<rparr>) (st1\<lparr>dns := c, next_id := k + 2\<rparr>)"
      using assms(1) 1 by (auto simp: keep_reply_def split: bind_splits)
    have "proxy_inv X (st1\<lparr>dns := c, next_id := k + 2\<rparr>)"
      using next_id_inv [OF dns_update_inv [OF n(1) k(2)], of "k + 2"] n(3) [OF Some] by simp
    then show ?thesis unfolding k(3) by (rule set_resp_inv) (use q1 bytes_at_length [OF k(1)] in simp_all)
  qed
qed

lemma take_reply_inv:
  assumes "take_reply env s r mem len offset st = Some (st', ret)" "proxy_inv X st"
  shows "proxy_inv X st'"
proof -
  obtain st1 a where n: "new_object env st = (st1, a)" by fastforce
  show ?thesis
    using assms n keep_reply_inv [OF _ assms(2)] keep_reply_inv [OF _ new_object_inv(1) [OF n assms(2)]] new_object_inv(1) [OF n assms(2)]
    by (auto simp: take_reply_def split: bind_splits if_splits ripped.splits option.splits)
qed

lemma act_request_list: "act a (st\<lparr>request_list := L\<rparr>) = (act a st)\<lparr>request_list := L\<rparr>"
  by (simp add: act_def)

lemma answer_client_cases:
  assumes "answer_client env r p st = Some (st', err)"
  obtains (none) "release_request r st = Some st'"
    | (sent) sk out addr where "release_request r (act (Sendto sk out addr) st) = Some st'"
  using assms that
  by (auto simp: answer_client_def release_request_def do_send_def act_request_list Let_def split: bind_splits if_splits)

lemma answer_client_inv:
  assumes "answer_client env r p st = Some (st', err)" "proxy_inv X st"
  shows "proxy_inv X st'"
  using assms(1)
  by (cases rule: answer_client_cases) (use assms(2) release_request_inv(1) act_inv in blast)+

lemma set_numresp_inv:
  assumes "proxy_inv X st" "req_heap st r = Some q"
  shows "proxy_inv X (set_req r (q\<lparr>numresp := n\<rparr>) st)"
  by (rule set_req_inv [OF assms])
    (use req_invD [OF assms] in \<open>simp_all add: req_ok_def resp_ok_def queued_ok_def\<close>)

lemma forward_dns_reply_inv:
  assumes "forward_dns_reply env s mem len p st = Some (st', ret)" "proxy_inv X st"
  shows "proxy_inv X st'"
proof (cases "protocol_offset p < 0")
  case True
  then show ?thesis using assms by (simp add: forward_dns_reply_def)
next
  case False
  let ?o = "nat (protocol_offset p)"
  obtain lo hi found where b: "byte_at mem ?o = Some lo" "byte_at mem (?o + 1) = Some hi" "find_request st (be16_of hi lo) = Some found"
    using assms(1) False by (auto simp: forward_dns_reply_def Let_def split: bind_splits)
  show ?thesis
  proof (cases found)
    case None
    then show ?thesis using assms False b by (simp add: forward_dns_reply_def)
  next
    case (Some r)
    obtain q mem' flags st1 x where c: "req_heap st r = Some q" "put_at ?o (id_bytes (srcid q)) mem = Some mem'"
      "byte_at mem' (?o + 3) = Some flags"
      "(if hdr_rcode flags = 0 \<or> resp q = None then take_reply env s r mem' len ?o (set_req r (q\<lparr>numresp := Suc (numresp q)\<rparr>) st)
        else Some (set_req r (q\<lparr>numresp := Suc (numresp q)\<rparr>) st, None)) = Some (st1, x)"
      using assms(1) False b Some by (auto simp: forward_dns_reply_def Let_def split: bind_splits)
    note i0 = set_numresp_inv [OF assms(2) c(1), of "Suc (numresp q)"]
    have i1: "proxy_inv X st1" using c(4) i0 take_reply_inv [OF _ i0] by (auto split: if_splits)
    show ?thesis
      using assms(1) False b Some c i1 answer_client_inv [OF _ i1]
      by (auto simp: forward_dns_reply_def Let_def split: option.splits bind_splits if_splits)
  qed
qed

lemma udp_server_event_inv:
  assumes "udp_server_event env s err rcv st = Some (st', keep)" "proxy_inv X st"
  shows "proxy_inv X st'"
  using assms server_destroy_socket_inv [OF _ assms(2)] forward_dns_reply_inv [OF _ assms(2)]
  by (auto simp: udp_server_event_def split: if_splits recv_result.splits bind_splits)

section \<open>Server connections\<close>

text \<open>A request over TCP may leave the list and stay in memory; its timer frees it.\<close>

lemma unlist_request_inv:
  assumes "proxy_inv X st" "req_heap st r = Some q" "rq_protocol q = PROTO_TCP" "r \<notin> X"
  shows "proxy_inv X (st\<lparr>request_list := g_list_remove r (request_list st)\<rparr>)"
  unfolding proxy_inv_def
proof (intro conjI)
  let ?st = "st\<lparr>request_list := g_list_remove r (request_list st)\<rparr>"
  have "stored ?st src = stored st src" for src by (cases src) simp_all
  then show "src_inv ?st" using proxy_invD(1) [OF assms(1)] by (simp add: src_inv_def)
  have d: "distinct (request_list st)" using proxy_invD(3) [OF assms(1)] by (simp add: req_inv_def)
  have "r' \<le> next_id st \<and> req_ok (r' \<in> X) (r' \<in> set (g_list_remove r (request_list st))) (dom (li_heap st)) q'"
    if "req_heap st r' = Some q'" for r' q'
    using req_invD [OF assms(1) that] assms(2-4) that d by (cases "r' = r") (auto simp: req_ok_def queued_ok_def)
  then show "req_inv X ?st"
    using proxy_invD(3) [OF assms(1)] d by (auto simp: req_inv_def)
qed (use proxy_invD [OF assms(1)] in \<open>simp_all add: srv_inv_def li_inv_def client_inv_def cache_part_def\<close>)

lemma send_response_length: "send_response buf len p = Some (buf', out) \<Longrightarrow> length buf' = length buf"
  by (auto simp: send_response_def dest!: set_reply_hdr_length split: if_splits bind_splits)

lemma set_request_inv:
  assumes "proxy_inv X st" "req_heap st r = Some q" "request q = Some bs" "length bs' = length bs"
  shows "proxy_inv X (set_req r (q\<lparr>numserv := n, request := Some bs'\<rparr>) st)"
  by (rule set_req_inv [OF assms(1,2)])
    (use req_invD [OF assms(1,2)] assms(3,4) in \<open>auto simp: req_ok_def resp_ok_def queued_ok_def\<close>)

lemma hangup_requests_inv:
  "hangup_requests rs st = Some st' \<Longrightarrow> proxy_inv {} st \<Longrightarrow>
     proxy_inv {} st' \<and> srv_heap st' = srv_heap st \<and> server_list st' = server_list st"
proof (induction rs arbitrary: st)
  case (Cons r rs)
  obtain q where q: "req_heap st r = Some q" using Cons.prems by (auto split: bind_splits)
  have n: "proxy_inv {} (set_req r (q\<lparr>numserv := n\<rparr>) st)" for n
    using asks_set_req(1) [OF q, of "{}" n] Cons.prems(2) by (simp add: asks_def)
  show ?case
  proof (cases "request q = None \<or> rq_protocol q = PROTO_UDP \<or> numserv q > 1")
    case True
    then show ?thesis using Cons.prems q Cons.IH [of st] Cons.IH [OF _ n] by (auto split: option.splits if_splits)
  next
    case False
    then obtain bs where bs: "request q = Some bs" by auto
    obtain bs1 bs2 out where b: "put_at 2 (id_bytes (srcid q)) bs = Some bs1" "send_response bs1 (int (request_len q)) PROTO_TCP = Some (bs2, out)"
      using Cons.prems(1) q bs False by (auto split: bind_splits)
    define u where "u = send_opt (client_sk q) out None (set_req r (q\<lparr>numserv := 0, request := Some bs2\<rparr>) st)"
    have body: "hangup_requests rs (u\<lparr>request_list := g_list_remove r (request_list u)\<rparr>) = Some st'"
      using Cons.prems(1) q bs False b by (simp add: u_def Let_def)
    have "length bs2 = length bs" using put_at_length [OF b(1)] send_response_length [OF b(2)] by simp
    then have i: "proxy_inv {} u" using set_request_inv [OF Cons.prems(2) q bs] by (simp add: u_def)
    have qu: "req_heap u r = Some (q\<lparr>numserv := 0, request := Some bs2\<rparr>)" "srv_heap u = srv_heap st" "server_list u = server_list st"
      by (simp_all add: u_def send_opt_def split: option.split)
    have "rq_protocol q = PROTO_TCP" using req_invD [OF Cons.prems(2) q] False by (auto simp: req_ok_def queued_ok_def)
    then have "proxy_inv {} (u\<lparr>request_list := g_list_remove r (request_list u)\<rparr>)" by (intro unlist_request_inv [OF i qu(1)]) simp_all
    then show ?thesis using Cons.IH [OF body] qu by simp
  qed
qed simp

lemma tcp_hangup_inv:
  assumes "tcp_hangup s st = Some st'" "proxy_inv {} st"
  shows "proxy_inv {} st'"
proof -
  obtain d st1 where 1: "srv_heap st s = Some d" "hangup_requests (request_list st) (set_srv s (d\<lparr>incoming_reply := None\<rparr>) st) = Some st1"
    "destroy_server s st1 = Some st'" using assms(1) by (auto simp: tcp_hangup_def split: bind_splits)
  have "proxy_inv {} (set_srv s (d\<lparr>incoming_reply := None\<rparr>) st)"
    by (rule set_srv_inv [OF assms(2) 1(1)]) (auto simp: srv_ok_def)
  then have "proxy_inv {} st1" using hangup_requests_inv [OF 1(2)] by blast
  then show ?thesis using destroy_server_cases(1) [OF 1(3)] by blast
qed

lemma connect_requests_inv:
  "connect_requests env s rs sent st = Some (st', ret) \<Longrightarrow> proxy_inv {} st \<Longrightarrow> proxy_inv {} st'"
proof (induction rs arbitrary: st sent)
  case (Cons r rs)
  obtain q where q: "req_heap st r = Some q" using Cons.prems by (auto split: bind_splits)
  show ?case
  proof (cases "rq_protocol q = PROTO_UDP")
    case True
    then show ?thesis using Cons q by auto
  next
    case False
    obtain st1 x where 1: "ns_resolv env s r (request q) (rq_name q) st = Some (st1, x)"
      using Cons.prems q False by (auto split: bind_splits)
    have i1: "proxy_inv {} st1" using ns_resolv_asks [OF 1, of "{}"] Cons.prems(2) by (simp add: asks_def)
    show ?thesis
      using Cons.prems(1) q False 1 i1 Cons.IH release_request_inv(1) [OF _ i1] restart_timeout_inv [OF _ i1]
      by (auto split: bind_splits if_splits)
  qed
qed simp

lemma clear_idle_inv:
  assumes "proxy_inv X st" "srv_heap st s = Some d" "srv_ok (s \<in> set (server_list st)) d'" "sv_watch d' = sv_watch d" "sv_timeout d' = 0"
  shows "proxy_inv X (set_srv s d' (source_remove (sv_timeout d) st))"
proof -
  let ?st = "set_srv s d' (source_remove (sv_timeout d) st)"
  have S: "stored ?st src = stored st src" if "src \<noteq> Srv_idle s" for src
    using that assms(2,4) by (cases src) (auto simp: set_srv_def source_remove_def)
  have sub: "sources st n = Some src \<and> stored ?st src = stored st src" if "sources ?st n = Some src" for n src
  proof -
    have n: "sources st n = Some src" "n \<noteq> sv_timeout d" using that by (auto simp: source_remove_def split: if_splits)
    then have "src \<noteq> Srv_idle s" using src_invD [OF assms(1) n(1)] assms(2) by auto
    then show ?thesis using n(1) S by blast
  qed
  show ?thesis unfolding proxy_inv_def
  proof (intro conjI)
    show "src_inv ?st" by (rule src_inv_sub [OF assms(1) _ sub]) (simp_all add: source_remove_def)
    show "srv_inv ?st" using proxy_invD(2) [OF assms(1)] assms(2,3) by (auto simp: srv_inv_def source_remove_def)
    show "cache_part ?st" using proxy_invD(6) [OF assms(1)] by (auto simp: cache_part_def source_remove_def)
  qed (use proxy_invD [OF assms(1)] in \<open>simp_all add: req_inv_def li_inv_def client_inv_def source_remove_def\<close>)
qed

text \<open>\<^verbatim>\<open>tcp_server_event\<close> on a new connection, up to the loop over the requests.\<close>

lemma tcp_connected_cases:
  assumes "tcp_connected env s st = Some (st', keep)" "srv_heap st s = Some d" "sources st 0 = None"
  obtains ds st2 sent where "connect_requests env s (request_list st) False
      (set_srv s (d\<lparr>domains := domains d @ ds, connected := True, sv_timeout := 0\<rparr>)
        (source_remove (sv_timeout d) st)\<lparr>server_list := server_list st @ [s]\<rparr>) = Some (st2, sent)"
    "if sent then st' = st2 else destroy_server s st2 = Some st'"
proof -
  let ?st = "st\<lparr>server_list := server_list st @ [s]\<rparr>"
  have e: "(if sv_timeout d > 0 then source_remove (sv_timeout d) ?st else ?st) = (source_remove (sv_timeout d) st)\<lparr>server_list := server_list st @ [s]\<rparr>"
    using assms(3) by (auto simp: source_remove_def fun_upd_idem)
  obtain ds st2 sent where c: "connect_requests env s (request_list (if sv_timeout d > 0 then source_remove (sv_timeout d) ?st else ?st)) False
      (set_srv s (d\<lparr>domains := domains d @ ds, connected := True, sv_timeout := 0\<rparr>)
        (if sv_timeout d > 0 then source_remove (sv_timeout d) ?st else ?st)) = Some (st2, sent)"
    "(if sent then Some (st2, True) else do { st \<leftarrow> destroy_server s st2; Some (st, False) }) = Some (st', keep)"
    using assms(1,2) by (auto simp: tcp_connected_def Let_def cong: if_cong split: bind_splits)
  have u: "request_list (source_remove (sv_timeout d) st\<lparr>server_list := server_list st @ [s]\<rparr>) = request_list st"
    "\<And>x. set_srv s x (source_remove (sv_timeout d) st\<lparr>server_list := server_list st @ [s]\<rparr>) =
       (set_srv s x (source_remove (sv_timeout d) st))\<lparr>server_list := server_list st @ [s]\<rparr>"
    by (simp_all add: set_srv_def source_remove_def)
  have "if sent then st' = st2 else destroy_server s st2 = Some st'" using c(2) by (auto split: if_splits bind_splits)
  then show thesis by (rule that [OF c(1) [unfolded e u]])
qed

lemma tcp_connected_inv:
  assumes "tcp_connected env s st = Some (st', keep)" "proxy_inv {} st" "srv_heap st s = Some d"
    and "\<not> connected d" "sv_protocol d = PROTO_TCP" "channel d \<noteq> None"
  shows "proxy_inv {} st'"
proof -
  from tcp_connected_cases [OF assms(1,3) src_inv_0 [OF assms(2)]]
  obtain ds st2 sent where c: "connect_requests env s (request_list st) False
      (set_srv s (d\<lparr>domains := domains d @ ds, connected := True, sv_timeout := 0\<rparr>)
        (source_remove (sv_timeout d) st)\<lparr>server_list := server_list st @ [s]\<rparr>) = Some (st2, sent)"
    "if sent then st' = st2 else destroy_server s st2 = Some st'" .
  let ?d = "d\<lparr>domains := domains d @ ds, connected := True, sv_timeout := 0\<rparr>"
  let ?st1 = "set_srv s ?d (source_remove (sv_timeout d) st)"
  have ok: "srv_ok b d \<Longrightarrow> srv_ok True ?d \<and> srv_ok b ?d" for b using assms(4-6) by (auto simp: srv_ok_def)
  have sl: "s \<notin> set (server_list st)" using srv_invD [OF assms(2,3)] assms(4,5) by (auto simp: srv_ok_def)
  have i1: "proxy_inv {} ?st1" by (rule clear_idle_inv [OF assms(2,3)]) (use srv_invD [OF assms(2,3)] ok in auto)
  have "proxy_inv {} (?st1\<lparr>server_list := server_list ?st1 @ [s]\<rparr>)"
    by (rule list_server_inv [OF i1, where d = ?d]) (use sl srv_invD [OF assms(2,3)] ok in \<open>auto simp: source_remove_def\<close>)
  then have "proxy_inv {} st2" using connect_requests_inv [OF c(1)] by (simp add: set_srv_def source_remove_def)
  then show ?thesis using c(2) destroy_server_cases(1) by (auto split: if_splits)
qed

lemma set_incoming_inv:
  assumes "proxy_inv X st" "srv_heap st s = Some d"
  shows "proxy_inv X (set_srv s (d\<lparr>incoming_reply := x\<rparr>) st)"
  by (rule set_srv_inv [OF assms]) (auto simp: srv_ok_def)

lemma tcp_reply_inv:
  assumes "tcp_reply env s rs st = Some (st', keep)" "proxy_inv X st"
  shows "proxy_inv X st'"
proof -
  obtain d len got where 1: "srv_heap st s = Some d" "incoming_reply d = Some (len, got)"
    using assms(1) by (auto simp: tcp_reply_def split: bind_splits)
  obtain got' c where 2: "tcp_read len got rs = (got', c)" by fastforce
  note i = set_incoming_inv [OF assms(2) 1(1), of "Some (len, got')"]
  show ?thesis
    using assms(1) 1 2 i forward_dns_reply_inv [OF _ i] destroy_server_cases(1) [OF _ forward_dns_reply_inv [OF _ i]]
    by (auto simp: tcp_reply_def Let_def split: bind_splits if_splits)
qed

lemma tcp_server_event_inv:
  assumes "tcp_server_event env s cond peek rs st = Some (st', keep)" "proxy_inv {} st" "srv_heap st s = Some d"
    and "sv_protocol d = PROTO_TCP" "channel d \<noteq> None"
  shows "proxy_inv {} st'"
proof -
  obtain st1 a where n: "new_object env st = (st1, a)" by fastforce
  note i1 = new_object_inv(1) [OF n assms(2)]
  have d1: "srv_heap st1 s = Some d" using new_object_inv(2) [OF n assms(2)] assms(3) by simp
  have r: "proxy_inv {} st'" if "tcp_reply env s rs (set_srv s (d\<lparr>incoming_reply := x\<rparr>) st1) = Some (st', keep)" for x
    using tcp_reply_inv [OF that set_incoming_inv [OF i1 d1]] .
  show ?thesis
    using assms n i1 r tcp_hangup_inv [OF _ assms(2)] tcp_reply_inv [OF _ assms(2)] tcp_connected_inv [OF _ assms(2,3)]
    by (auto simp: tcp_server_event_def Let_def split: bind_splits if_splits recv_result.splits option.splits)
qed

section \<open>Timers of requests\<close>

lemma send_opt_request_list: "send_opt sk out addr (st\<lparr>request_list := L\<rparr>) = (send_opt sk out addr st)\<lparr>request_list := L\<rparr>"
  by (simp add: send_opt_def act_request_list split: option.split)

lemma free_partial_request_list: "free_partial_reqs sk (st\<lparr>request_list := L\<rparr>) = (free_partial_reqs sk st)\<lparr>request_list := L\<rparr>"
  by (simp add: free_partial_reqs_def client_reset_def Let_def source_remove_def act_def split: option.split)

lemma send_opt_fields [simp]:
  "req_heap (send_opt sk out addr st) = req_heap st" "request_list (send_opt sk out addr st) = request_list st"
  "sources (send_opt sk out addr st) = sources st" "li_heap (send_opt sk out addr st) = li_heap st"
  "clients (send_opt sk out addr st) = clients st" "next_id (send_opt sk out addr st) = next_id st"
  "dns (send_opt sk out addr st) = dns st" "server_list (send_opt sk out addr st) = server_list st"
  "srv_heap (send_opt sk out addr st) = srv_heap st"
  by (simp_all add: send_opt_def split: option.split)

lemma free_partial_fields [simp]:
  "req_heap (free_partial_reqs sk st) = req_heap st" "request_list (free_partial_reqs sk st) = request_list st"
  "li_heap (free_partial_reqs sk st) = li_heap st" "next_id (free_partial_reqs sk st) = next_id st"
  "dns (free_partial_reqs sk st) = dns st" "server_list (free_partial_reqs sk st) = server_list st"
  "srv_heap (free_partial_reqs sk st) = srv_heap st" "clients (free_partial_reqs sk st) = (clients st)(sk := None)"
  by (auto simp: free_partial_reqs_def split: option.split)

text \<open>What a time-out does before the request is gone: nothing to the lists, possibly a message, possibly a client less.\<close>

definition timeout_answered :: "request_data \<Rightarrow> dns_proxy \<Rightarrow> dns_proxy option" where
  "timeout_answered req st =
     (if rq_protocol req = PROTO_UDP then do {
        sk \<leftarrow> get_req_udp_socket st req;
        out \<leftarrow> timeout_answer req sk;
        Some (send_opt sk out (Some (rq_sa req)) st) }
      else if rq_protocol req = PROTO_TCP then do {
        out \<leftarrow> timeout_answer req (client_sk req);
        Some (free_partial_reqs (client_sk req) (send_opt (client_sk req) out None st)) }
      else Some st)"

lemma get_req_udp_socket_list [simp]: "get_req_udp_socket (st\<lparr>request_list := L\<rparr>) req = get_req_udp_socket st req"
  by (simp add: get_req_udp_socket_def)

lemma request_timeout_drop:
  assumes "req_heap st r = Some q"
  shows "map_option (source_remove (rq_timeout q)) (request_timeout r st) = map_option (drop_req r (rq_timeout q)) (timeout_answered q st)"
  using assms
  by (auto simp: request_timeout_def timeout_answered_def send_opt_request_list free_partial_request_list destroy_request_data_def
      set_req_def source_remove_def drop_req_def map_option_bind Let_def o_def split: bind_splits)

lemma timeout_answered_inv:
  assumes "timeout_answered q st = Some u" "proxy_inv X st"
  shows "proxy_inv X u" "req_heap u = req_heap st"
  using assms free_partial_reqs_inv by (auto simp: timeout_answered_def split: bind_splits if_splits)

lemma request_timeout_inv:
  assumes "request_timeout r st = Some st'" "proxy_inv {} st" "sources st n = Some (Req_timeout r)"
  shows "proxy_inv {} (source_remove n st')"
proof -
  obtain q where q: "req_heap st r = Some q" "rq_timeout q = n" using src_invD [OF assms(2,3)] by auto
  obtain u where u: "timeout_answered q st = Some u" "source_remove n st' = drop_req r n u"
    using request_timeout_drop [OF q(1)] assms(1) q(2) by (cases "timeout_answered q st") auto
  have "req_heap u r = Some q" using timeout_answered_inv(2) [OF u(1) assms(2)] q(1) by simp
  then show ?thesis unfolding u(2) using drop_req_inv [OF timeout_answered_inv(1) [OF u(1) assms(2)]] q(2) by blast
qed

section \<open>Clients\<close>

lemma parse_request_length:
  assumes "parse_request buf b len sz = Some (buf', name, e)"
  shows "length buf' = length buf" "0 \<le> e \<Longrightarrow> 12 \<le> len"
proof -
  have l: "length x = length buf" if "bump_edns0 buf lst = Some x" for x lst
    using that by (auto simp: bump_edns0_def dest!: put_at_length split: bind_splits if_splits)
  show "length buf' = length buf" using assms l
    by (auto simp: parse_request_def split: bind_splits if_splits option.splits)
  show "0 \<le> e \<Longrightarrow> 12 \<le> len" using assms by (auto simp: parse_request_def split: bind_splits if_splits)
qed

lemma client_invD: "proxy_inv X st \<Longrightarrow> clients st sk = Some c \<Longrightarrow> client_ok c"
  using proxy_invD(5) [of X st] by (simp add: client_inv_def)

lemma set_buf_inv:
  assumes "set_buf sk buf st = Some st'" "proxy_inv X st" "length buf = TCP_MAX_BUF_LEN"
  shows "proxy_inv X st'"
proof -
  obtain c where c: "clients st sk = Some c" "st' = set_client sk (c\<lparr>tc_buf := Some buf\<rparr>) st" using assms(1) by (auto simp: set_buf_def)
  show ?thesis unfolding c(2)
    by (rule set_client_inv [OF assms(2) c(1)]) (use client_invD [OF assms(2) c(1)] assms(3) in \<open>simp_all add: client_ok_def\<close>)
qed

lemma set_buf_fields:
  assumes "set_buf sk buf st = Some st'"
  shows "req_heap st' = req_heap st" "li_heap st' = li_heap st" "server_list st' = server_list st"
  using assms by (auto simp: set_buf_def)

lemma tcp_send_failure_cases:
  assumes "tcp_send_failure sk buf len st = Some (buf', st')"
  shows "length buf' = length buf" "proxy_inv X st' = proxy_inv X st" "clients st' = clients st"
  using assms by (auto simp: tcp_send_failure_def dest: send_response_length split: bind_splits)

lemma connect_servers_inv:
  "connect_servers env ss w st = Some (st', w') \<Longrightarrow> proxy_inv X st \<Longrightarrow> proxy_inv X st' \<and> quiet st st'"
proof (induction ss arbitrary: st w)
  case (Cons s ss)
  obtain d where d: "srv_heap st s = Some d" using Cons.prems by (auto split: bind_splits)
  show ?case
  proof (cases "sv_protocol d \<noteq> PROTO_UDP \<or> \<not> enabled d")
    case True
    then show ?thesis using Cons d by auto
  next
    case False
    then obtain st1 a where 1: "create_server env (sv_index d) None (sv_server d) PROTO_TCP st = Some (st1, a)"
      "connect_servers env ss (w \<or> a \<noteq> None) st1 = Some (st', w')"
      using Cons.prems(1) d by (auto split: bind_splits)
    have "proxy_inv X st1 \<and> quiet st st1" by (rule create_server_inv [OF 1(1) Cons.prems(2)]) simp
    then show ?thesis using Cons.IH [OF 1(2)] quiet_trans by blast
  qed
qed simp

lemma quiet_req:
  assumes "quiet st st'" "req_heap st r = Some q"
  obtains q' where "req_heap st' r = Some q'" "req_core q' = req_core q"
  using assms by (fastforce simp: quiet_def dest!: spec [of _ r])

lemma req_core_fields:
  assumes "req_core q' = req_core q"
  shows "rq_protocol q' = rq_protocol q" "request_len q' = request_len q" "rq_ifdata q' = rq_ifdata q" "srcid q' = srcid q"
    "dstid q' = dstid q" "rq_sa q' = rq_sa q" "client_sk q' = client_sk q" "rq_family q' = rq_family q" "resp q' = resp q"
    "numresp q' = numresp q"
  using assms by (cases q; cases q'; simp add: req_core_def)+

lemma queue_tcp_inv:
  assumes "queue_tcp env sk r buf query len st = Some (st', out)" "proxy_inv {r} st" "req_heap st r = Some q"
    and "rq_protocol q = PROTO_TCP" "request_len q = len" "14 \<le> len" "length buf = TCP_MAX_BUF_LEN"
  shows "proxy_inv {} st'"
proof -
  obtain st1 w where 1: "connect_servers env (server_list st) False st = Some (st1, w)"
    using assms(1) by (auto simp: queue_tcp_def split: bind_splits)
  have i1: "proxy_inv {r} st1" "quiet st st1" using connect_servers_inv [OF 1 assms(2)] by auto
  have fail: "proxy_inv {} v" if "tcp_send_failure sk buf len (u\<lparr>req_heap := (req_heap u)(r := None)\<rparr>) = Some (b, u')"
    "set_buf sk b u' = Some v" "proxy_inv {r} u" for u u' v b
    using set_buf_inv [OF that(2)] tcp_send_failure_cases [OF that(1)] drop_fresh_inv [OF that(3)] assms(7) by simp
  show ?thesis
  proof (cases w)
    case False
    then show ?thesis using assms(1) 1 fail i1(1) by (auto simp: queue_tcp_def Let_def split: bind_splits)
  next
    case True
    obtain st2 a st3 b where 2: "new_object env st1 = (st2, a)" "new_object env st2 = (st3, b)"
      by (cases "new_object env st1"; cases "new_object env (fst (new_object env st1))") auto
    note i2 = new_object_inv [OF 2(1) i1(1)]
    note i3 = new_object_inv [OF 2(2) i2(1)]
    have "quiet st st3" using i1(2) unfolding i3(2) i2(2) by simp
    then obtain q' where q': "req_heap st3 r = Some q'" "req_core q' = req_core q" using quiet_req assms(3) by blast
    have q: "proxy_inv {} v" if "bytes_at buf 0 len = Some bs" "queue_request r bs query st3 = Some u" "set_buf sk buf u = Some v" for bs u v
      using set_buf_inv [OF that(3) queue_request_inv [OF that(2) i3(1) _ q'(1)]] bytes_at_length [OF that(1)] assms(4-7)
        req_core_fields [OF q'(2)] by simp
    show ?thesis
      using assms(1) 1 2 True fail [OF _ _ i3(1)] q by (auto simp: queue_tcp_def Let_def split: bind_splits if_splits)
  qed
qed

lemma get_id_inv: "get_id env st = (st', i) \<Longrightarrow> proxy_inv X st \<Longrightarrow> proxy_inv X st' \<and> st' = st\<lparr>next_id := Suc (next_id st)\<rparr>"
  by (auto simp: get_id_def Let_def intro: next_id_inv)

text \<open>The request made for a question, in memory and not yet queued.\<close>

lemma new_question_inv:
  assumes "new_object env st = (st1, Some r)" "get_id env st1 = (st2, dst)" "get_id env st2 = (st3, alt)" "proxy_inv {} st"
  shows "proxy_inv {r} (set_req r (new_request sa sk p fam src dst alt len l) st3)"
    "st3 = st\<lparr>next_id := Suc (Suc (Suc (next_id st)))\<rparr>"
proof -
  note 1 = new_object_inv [OF assms(1,4)]
  note 2 = get_id_inv [OF assms(2) 1(1)]
  note 3 = get_id_inv [OF assms(3)]
  have i3: "proxy_inv {} st3" using 2 3 by blast
  have e3: "st3 = st1\<lparr>next_id := Suc (Suc (next_id st1))\<rparr>" using 2 get_id_inv [OF assms(3), of "{}"] by auto
  show "st3 = st\<lparr>next_id := Suc (Suc (Suc (next_id st)))\<rparr>" unfolding e3 1(2) by simp
  show "proxy_inv {r} (set_req r (new_request sa sk p fam src dst alt len l) st3)"
    by (rule new_req_inv [OF i3]) (use 1(3,5) e3 in \<open>simp_all add: new_request_def resp_ok_def\<close>)
qed

lemma tcp_question_inv:
  assumes "tcp_question env sk addr msg_len st = Some (st', out)" "proxy_inv {} st"
  shows "proxy_inv {} st'"
proof -
  obtain c buf buf1 query e where 1: "clients st sk = Some c" "tc_buf c = Some buf"
    "parse_request buf 2 (int msg_len) TCP_MAX_BUF_LEN = Some (buf1, query, e)"
    using assms(1) by (auto simp: tcp_question_def split: bind_splits)
  have len: "length buf1 = TCP_MAX_BUF_LEN"
    using parse_request_length(1) [OF 1(3)] client_invD [OF assms(2) 1(1)] 1(2) by (simp add: client_ok_def)
  note body = assms(1) [unfolded tcp_question_def 1 bind.bind_lunit prod.case]
  show ?thesis
  proof (cases "e < 0 \<or> server_list st = []")
    case True
    then obtain b u where "tcp_send_failure sk buf1 (msg_len + 2) st = Some (b, u)" "set_buf sk b u = Some st'"
      using body by (auto split: bind_splits)
    then show ?thesis using set_buf_inv tcp_send_failure_cases assms(2) len by metis
  next
    case False
    obtain st1 a where n: "new_object env st = (st1, a)" by fastforce
    show ?thesis
    proof (cases a)
      case None
      then show ?thesis using body False n set_buf_inv [OF _ new_object_inv(1) [OF n assms(2)] len] by (auto split: bind_splits)
    next
      case (Some r)
      obtain st2 dst st3 alt where g: "get_id env st1 = (st2, dst)" "get_id env st2 = (st3, alt)" by fastforce
      define q where "q = new_request addr sk PROTO_TCP (tc_family c) (be16_of (buf1 ! 3) (buf1 ! 2)) dst alt (msg_len + 2) (tc_ifdata c)"
      have i3: "proxy_inv {r} (set_req r q st3)" unfolding q_def by (rule new_question_inv(1) [OF n [unfolded Some] g assms(2)])
      obtain buf2 st4 cc hit st5 ret where b: "put_at 2 (id_bytes dst) buf1 = Some buf2" "set_buf sk buf2 (set_req r q st3) = Some st4"
        "cache_check (now env) (dns st4) (Some buf2) PROTO_TCP = Some (cc, hit)" "resolv_cached env (st4\<lparr>dns := cc\<rparr>) q hit = Some (st5, ret)"
        "(if ret \<noteq> None then Some (st5\<lparr>req_heap := (req_heap st5)(r := None)\<rparr>, True)
            else queue_tcp env sk r buf2 query (msg_len + 2) st5) = Some (st', out)"
        using body False n Some g by (auto simp: Let_def q_def split: bind_splits)
      have l2: "length buf2 = TCP_MAX_BUF_LEN" using put_at_length [OF b(1)] len by simp
      have i5: "proxy_inv {r} st5" "quiet st4 st5"
        using resolv_cached_asks [OF b(4), of "{r}"] dns_check_inv [OF set_buf_inv [OF b(2) i3 l2] b(3)] by (simp_all add: asks_def)
      have "req_heap st4 r = Some q" by (simp add: set_buf_fields [OF b(2)])
      then obtain q' where q': "req_heap st5 r = Some q'" "req_core q' = req_core q" by (rule quiet_req [OF i5(2)])
      have "14 \<le> msg_len + 2" using parse_request_length(2) [OF 1(3)] False by simp
      then show ?thesis
        using b(5) drop_fresh_inv [OF i5(1)] queue_tcp_inv [OF _ i5(1) q'(1)] req_core_fields [OF q'(2)] l2
        by (auto simp: q_def new_request_def split: if_splits)
    qed
  qed
qed

lemma clear_client_timeout:
  assumes "proxy_inv X st" "clients st sk = Some c" "tc_watch c' = tc_watch c" "tc_timeout c' = 0" "client_ok c'"
  shows "proxy_inv X (set_client sk c' (source_remove (tc_timeout c) st))"
proof -
  let ?st = "set_client sk c' (source_remove (tc_timeout c) st)"
  have S: "stored ?st src = stored st src" if "src \<noteq> Client_timeout sk" for src
    using that assms(2,3) by (cases src) (auto simp: set_client_def source_remove_def)
  have sub: "sources st n = Some src \<and> stored ?st src = stored st src" if "sources ?st n = Some src" for n src
  proof -
    have n: "sources st n = Some src" "n \<noteq> tc_timeout c" using that by (auto simp: source_remove_def split: if_splits)
    then have "src \<noteq> Client_timeout sk" using src_invD [OF assms(1) n(1)] assms(2) by auto
    then show ?thesis using n(1) S by blast
  qed
  show ?thesis unfolding proxy_inv_def
  proof (intro conjI)
    show "src_inv ?st" by (rule src_inv_sub [OF assms(1) _ sub]) (simp_all add: source_remove_def)
    show "client_inv ?st" using proxy_invD(5) [OF assms(1)] assms(5) by (auto simp: client_inv_def source_remove_def)
    show "cache_part ?st" using proxy_invD(6) [OF assms(1)] by (auto simp: cache_part_def source_remove_def)
  qed (use proxy_invD [OF assms(1)] in \<open>simp_all add: req_inv_def li_inv_def srv_inv_def source_remove_def\<close>)
qed

lemma tcp_shift_inv:
  assumes "tcp_shift sk msg_len st = Some (st', nxt)" "proxy_inv X st"
  shows "proxy_inv X st'"
proof -
  obtain c buf where c: "clients st sk = Some c" "tc_buf c = Some buf" using assms(1) by (auto simp: tcp_shift_def split: bind_splits)
  have ok: "client_ok c" by (rule client_invD [OF assms(2) c(1)])
  show ?thesis
  proof (cases "buf_end c > msg_len + 2")
    case True
    then obtain bs buf' where b: "put_at 0 bs buf = Some buf'"
      "st' = set_client sk (c\<lparr>tc_buf := Some buf', buf_end := buf_end c - (msg_len + 2)\<rparr>) st"
      using assms(1) c by (auto simp: tcp_shift_def Let_def split: bind_splits)
    show ?thesis unfolding b(2)
      by (rule set_client_inv [OF assms(2) c(1)]) (use ok c(2) put_at_length [OF b(1)] in \<open>auto simp: client_ok_def\<close>)
  next
    case False
    let ?c = "c\<lparr>tc_buf := Some (replicate TCP_MAX_BUF_LEN 0), buf_end := 0, tc_timeout := 0\<rparr>"
    have "proxy_inv X (set_client sk ?c (source_remove (tc_timeout c) st))"
      by (rule clear_client_timeout [OF assms(2) c(1)]) (simp_all add: client_ok_def)
    then show ?thesis using assms(1) c False by (auto simp: tcp_shift_def)
  qed
qed

lemma read_messages_inv:
  assumes "read_messages env sk addr n st = Some st'"
  shows "proxy_inv {} st \<longrightarrow> proxy_inv {} st'"
proof (rule read_messages.raw_induct [OF _ assms], goal_cases)
  case (1 rec env sk addr n st st')
  show ?case
  proof
    assume i: "proxy_inv {} st"
    obtain c where c: "clients st sk = Some c" using 1(2) by (auto split: bind_splits)
    show "proxy_inv {} st'"
    proof (cases "buf_end c < n + 2")
      case True
      then show ?thesis using 1(2) c i by simp
    next
      case False
      then obtain st1 out where q: "tcp_question env sk addr n st = Some (st1, out)" using 1(2) c by (auto split: bind_splits)
      have i1: "proxy_inv {} st1" by (rule tcp_question_inv [OF q i])
      show ?thesis
      proof (cases out)
        case True
        then obtain st2 x where h: "tcp_shift sk n st1 = Some (st2, x)" using 1(2) c False q by (auto split: bind_splits)
        have i2: "proxy_inv {} st2" by (rule tcp_shift_inv [OF h i1])
        then show ?thesis using 1(2) c False q True h i2 1(1) by (cases x) auto
      qed (use 1(2) c False q i1 in simp)
    qed
  qed
qed

lemma read_tcp_data_inv:
  assumes "read_tcp_data env sk addr n st = Some (st', keep)" "proxy_inv {} st"
    and "\<And>c. clients st sk = Some c \<Longrightarrow> buf_end c + n \<le> TCP_MAX_BUF_LEN"
  shows "proxy_inv {} st'"
proof (cases "n = 0")
  case True
  then show ?thesis using assms free_partial_reqs_inv by (auto simp: read_tcp_data_def)
next
  case False
  then obtain c buf where c: "clients st sk = Some c" "tc_buf c = Some buf" using assms(1) by (auto simp: read_tcp_data_def split: bind_splits)
  let ?st = "set_client sk (c\<lparr>buf_end := buf_end c + n\<rparr>) st"
  have i: "proxy_inv {} ?st"
    by (rule set_client_inv [OF assms(2) c(1)]) (use client_invD [OF assms(2) c(1)] assms(3) [OF c(1)] in \<open>simp_all add: client_ok_def\<close>)
  show ?thesis
    using assms(1) False c i free_partial_reqs_inv [OF i] read_messages_inv [where st = ?st]
    by (auto simp: read_tcp_data_def Let_def split: bind_splits if_splits)
qed

lemma tcp_client_event_inv:
  assumes "tcp_client_event env sk err (rcv, addr) st = Some (st', keep)" "proxy_inv {} st"
  shows "proxy_inv {} st'"
proof -
  have r: "proxy_inv {} st'" if c: "clients st sk = Some c" "tc_buf c = Some buf"
    and b: "put_at (buf_end c) (take (TCP_MAX_BUF_LEN - buf_end c) bs) buf = Some buf'" "set_buf sk buf' st = Some u"
    and d: "read_tcp_data env sk addr (length (take (TCP_MAX_BUF_LEN - buf_end c) bs)) u = Some (st', keep)" for c bs buf buf' u
  proof (rule read_tcp_data_inv [OF d])
    have ok: "client_ok c" by (rule client_invD [OF assms(2) c(1)])
    show "proxy_inv {} u"
      by (rule set_buf_inv [OF b(2) assms(2)]) (use put_at_length [OF b(1)] ok c(2) in \<open>simp add: client_ok_def\<close>)
    show "buf_end c' + length (take (TCP_MAX_BUF_LEN - buf_end c) bs) \<le> TCP_MAX_BUF_LEN" if "clients u sk = Some c'" for c'
      using that b(2) c(1) ok by (auto simp: set_buf_def client_ok_def)
  qed
  show ?thesis
    using assms free_partial_reqs_inv [OF assms(2)] r
    by (auto simp: tcp_client_event_def Let_def split: if_splits bind_splits recv_result.splits)
qed

text \<open>A new client: its watch, its buffer and its timer.\<close>

lemma new_client_inv:
  assumes "proxy_inv X st" "clients st sk = None" "tc_watch c = Suc (next_id st)" "tc_timeout c = 0" "client_ok c"
  shows "proxy_inv X (set_client sk c (fst (add_source (Client_watch sk) st)))"
proof -
  let ?n = "Suc (next_id st)"
  let ?st = "st\<lparr>sources := (sources st)(?n \<mapsto> Client_watch sk), next_id := ?n, clients := (clients st)(sk \<mapsto> c)\<rparr>"
  have none: "sources st m \<noteq> Some (Client_watch sk)" "sources st m \<noteq> Some (Client_timeout sk)" for m
    using src_invD [OF assms(1), of m] assms(2) by auto
  have next1: "proxy_inv X (st\<lparr>next_id := ?n\<rparr>)" by (rule next_id_inv [OF assms(1)]) simp
  have S: "stored ?st src = (if src = Client_watch sk then Some ?n else stored st src)" if "src \<noteq> Client_timeout sk" for src
    using that assms(3) by (cases src) auto
  have "proxy_inv X ?st" unfolding proxy_inv_def
  proof (intro conjI)
    show "src_inv ?st"
    proof (rule src_invI [OF assms(1)])
      fix m src assume m: "sources ?st m = Some src"
      then have "src \<noteq> Client_timeout sk" using none(2) [of m] by (auto split: if_splits)
      then show "sources st m = Some src \<and> stored ?st src = stored st src \<or> 0 < m \<and> m \<le> next_id ?st \<and> stored ?st src = Some m"
        using m S [of src] none(1) [of m] by (cases "m = ?n") auto
    qed simp
    show "srv_inv ?st" using proxy_invD(2) [OF next1] by (simp add: srv_inv_def)
    show "req_inv X ?st" using proxy_invD(3) [OF next1] by (simp add: req_inv_def)
    show "li_inv ?st" using proxy_invD(4) [OF next1] by (simp add: li_inv_def)
  qed (use proxy_invD [OF assms(1)] assms(5) in \<open>auto simp: client_inv_def cache_part_def\<close>)
  then show ?thesis by (simp add: set_client_def add_source_def Let_def)
qed

lemma accept_client_inv:
  assumes "accept_client env l sk st = (st', ok)" "proxy_inv X st"
  shows "proxy_inv X st'"
proof (cases "clients st sk")
  case (Some c)
  then show ?thesis using assms by (simp add: accept_client_def)
next
  case None
  obtain st1 a where n: "new_object env st = (st1, a)" by fastforce
  note i1 = new_object_inv(1) [OF n assms(2)]
  have "clients st1 sk = None" using new_object_inv(2) [OF n assms(2)] None by simp
  then show ?thesis
    using assms(1) None n i1 new_client_inv [OF i1, of sk "\<lparr>tc_family = 0, tc_ifdata = l, tc_channel = Some sk, tc_watch = Suc (next_id st1),
        tc_buf = None, buf_end = 0, tc_timeout = 0\<rparr>"]
    by (auto simp: accept_client_def add_source_def Let_def client_ok_def split: option.splits)
qed

lemma client_timer_inv:
  assumes "proxy_inv X st" "clients st sk = Some c" "tc_timeout c = 0" "tc_watch c' = tc_watch c" "tc_timeout c' = Suc (next_id st)" "client_ok c'"
  shows "proxy_inv X (set_client sk c' (fst (add_source (Client_timeout sk) st)))"
proof -
  let ?n = "Suc (next_id st)"
  let ?st = "st\<lparr>sources := (sources st)(?n \<mapsto> Client_timeout sk), next_id := ?n, clients := (clients st)(sk \<mapsto> c')\<rparr>"
  have none: "sources st m \<noteq> Some (Client_timeout sk)" for m using src_invD [OF assms(1), of m] assms(2,3) by auto
  have next1: "proxy_inv X (st\<lparr>next_id := ?n\<rparr>)" by (rule next_id_inv [OF assms(1)]) simp
  have S: "stored ?st src = (if src = Client_timeout sk then Some ?n else stored st src)" for src
    using assms(2,4,5) by (cases src) auto
  have "proxy_inv X ?st" unfolding proxy_inv_def
  proof (intro conjI)
    show "src_inv ?st" by (rule src_inv_add [OF assms(1) _ _ _ _ none S]) simp_all
    show "srv_inv ?st" using proxy_invD(2) [OF next1] by (simp add: srv_inv_def)
    show "req_inv X ?st" using proxy_invD(3) [OF next1] by (simp add: req_inv_def)
    show "li_inv ?st" using proxy_invD(4) [OF next1] by (simp add: li_inv_def)
  qed (use proxy_invD [OF assms(1)] assms(6) in \<open>auto simp: client_inv_def cache_part_def\<close>)
  then show ?thesis by (simp add: set_client_def add_source_def Let_def)
qed

lemma prepare_client_inv:
  assumes "prepare_client env family sk st = Some (st', ok)" "proxy_inv X st"
  shows "proxy_inv X st'" "ok \<Longrightarrow> \<exists>c. clients st' sk = Some c \<and> buf_end c = 0"
proof -
  obtain c where c: "clients st sk = Some c" using assms(1) by (auto simp: prepare_client_def split: bind_splits)
  define al where "al = (if tc_buf c = None then new_object env st else (st, Some 0))"
  obtain st1 a where 1: "al = (st1, a)" by fastforce
  have i1: "proxy_inv X st1" "clients st1 sk = Some c"
    using 1 assms(2) c new_object_inv(1,2) [of env st st1 a X] by (auto simp: al_def split: if_splits)
  let ?c = "\<lambda>t. c\<lparr>tc_buf := Some (replicate TCP_MAX_BUF_LEN 0), buf_end := 0, tc_family := family, tc_timeout := t\<rparr>"
  note body = assms(1) [unfolded prepare_client_def c bind.bind_lunit, folded al_def, unfolded 1 Let_def prod.case]
  have old: "proxy_inv X (set_client sk (?c (tc_timeout c)) st1)"
    by (rule set_client_inv [OF i1]) (simp_all add: client_ok_def)
  have new: "proxy_inv X (set_client sk (?c (Suc (next_id st1))) (fst (add_source (Client_timeout sk) st1)))" if "tc_timeout c = 0"
    by (rule client_timer_inv [OF i1 that]) (simp_all add: client_ok_def)
  show "proxy_inv X st'" using body i1(1) old new by (auto simp: add_source_def Let_def split: if_splits)
  show "\<exists>c. clients st' sk = Some c \<and> buf_end c = 0" if ok using body that by (auto simp: add_source_def Let_def split: if_splits)
qed

lemma first_data_inv:
  assumes "first_data env sk rcv addr st = Some (st', keep)" "proxy_inv {} st" "clients st sk = Some c" "buf_end c = 0"
  shows "proxy_inv {} st'"
proof (cases rcv)
  case (Recv bs)
  let ?bs = "take TCP_MAX_BUF_LEN bs"
  obtain buf buf' where b: "tc_buf c = Some buf" "put_at 0 ?bs buf = Some buf'"
    using assms(1,3) Recv by (auto simp: first_data_def Let_def split: bind_splits)
  have l: "length buf' = TCP_MAX_BUF_LEN"
    using put_at_length [OF b(2)] client_invD [OF assms(2,3)] b(1) by (simp add: client_ok_def)
  have w: "proxy_inv {} (set_client sk (c\<lparr>tc_buf := Some buf', buf_end := length ?bs\<rparr>) st)"
    by (rule set_client_inv [OF assms(2,3)]) (simp_all add: client_ok_def l)
  have r: "proxy_inv {} st'" if "set_buf sk buf' st = Some u" "read_tcp_data env sk addr (length ?bs) u = Some (st', keep)" for u
    by (rule read_tcp_data_inv [OF that(2) set_buf_inv [OF that(1) assms(2) l]]) (use that(1) assms(3,4) in \<open>auto simp: set_buf_def\<close>)
  show ?thesis
    using assms(1,3) Recv b w r free_partial_reqs_inv [OF assms(2)] by (auto simp: first_data_def Let_def split: bind_splits if_splits)
qed (use assms free_partial_reqs_inv in \<open>auto simp: first_data_def\<close>)

text \<open>Listeners: clearing a watch keeps the invariant once its source is gone.\<close>

definition li_watch :: "source \<Rightarrow> (nat \<times> (listener_data \<Rightarrow> nat)) option" where
  "li_watch src =
     (case src of
        Udp4_watch l \<Rightarrow> Some (l, udp4_watch) | Tcp4_watch l \<Rightarrow> Some (l, tcp4_watch)
      | Udp6_watch l \<Rightarrow> Some (l, udp6_watch) | Tcp6_watch l \<Rightarrow> Some (l, tcp6_watch) | _ \<Rightarrow> None)"

lemma clear_watch_inv:
  assumes "proxy_inv X st" "li_heap st l = Some d"
    and "\<And>src w. li_watch src = Some (l, w) \<Longrightarrow> w d' = w d \<or> (\<forall>m. sources st m \<noteq> Some src)"
  shows "proxy_inv X (st\<lparr>li_heap := (li_heap st)(l \<mapsto> d')\<rparr>)"
proof -
  let ?st = "st\<lparr>li_heap := (li_heap st)(l \<mapsto> d')\<rparr>"
  have sub: "sources st n = Some src \<and> stored ?st src = stored st src" if "sources ?st n = Some src" for n src
    using that assms(2) assms(3) [of src] by (cases src) (auto simp: li_watch_def)
  show ?thesis unfolding proxy_inv_def
  proof (intro conjI)
    show "src_inv ?st" by (rule src_inv_sub [OF assms(1) _ sub]) simp_all
    have "dom ((li_heap st)(l \<mapsto> d')) = dom (li_heap st)" using assms(2) by auto
    then show "req_inv X ?st" "li_inv ?st" using proxy_invD(3,4) [OF assms(1)] assms(2) by (auto simp: req_inv_def li_inv_def)
  qed (use proxy_invD [OF assms(1)] in \<open>simp_all add: srv_inv_def client_inv_def cache_part_def\<close>)
qed

lemma source_unique: "proxy_inv X st \<Longrightarrow> sources st n = Some src \<Longrightarrow> sources st m = Some src \<Longrightarrow> m = n"
  using src_invD [of X st n src] src_invD [of X st m src] by simp

lemma source_remove_li_heap: "source_remove n (st\<lparr>li_heap := h\<rparr>) = (source_remove n st)\<lparr>li_heap := h\<rparr>" "li_heap (source_remove n st) = li_heap st"
  by (simp_all add: source_remove_def)

lemma clear_udp_watch:
  assumes "proxy_inv X st" "li_heap st l = Some d" "sources st n = Some (if fam = AF_INET then Udp4_watch l else Udp6_watch l)"
  shows "proxy_inv X (source_remove n (st\<lparr>li_heap := (li_heap st)(l \<mapsto> (if fam = AF_INET then d\<lparr>udp4_watch := 0\<rparr> else d\<lparr>udp6_watch := 0\<rparr>))\<rparr>))"
proof -
  let ?d = "if fam = AF_INET then d\<lparr>udp4_watch := 0\<rparr> else d\<lparr>udp6_watch := 0\<rparr>"
  let ?st = "source_remove n st"
  note gone = source_unique [OF assms(1,3)]
  have "proxy_inv X (?st\<lparr>li_heap := (li_heap ?st)(l \<mapsto> ?d)\<rparr>)"
    by (rule clear_watch_inv [OF source_remove_inv [OF assms(1)], where d = d])
      (use assms(2) gone in \<open>auto simp: source_remove_def li_watch_def split: source.splits\<close>)
  then show ?thesis by (simp only: source_remove_li_heap)
qed

lemma clear_tcp_watch:
  assumes "proxy_inv X st" "li_heap st l = Some d" "sources st n = Some (if fam = AF_INET then Tcp4_watch l else Tcp6_watch l)"
  shows "proxy_inv X (source_remove n (st\<lparr>li_heap := (li_heap st)(l \<mapsto> set_tcp_watch fam 0 d)\<rparr>))"
proof -
  let ?st = "source_remove n st"
  note gone = source_unique [OF assms(1,3)]
  have "proxy_inv X (?st\<lparr>li_heap := (li_heap ?st)(l \<mapsto> set_tcp_watch fam 0 d)\<rparr>)"
    by (rule clear_watch_inv [OF source_remove_inv [OF assms(1)], where d = d])
      (use assms(2) gone in \<open>auto simp: source_remove_def li_watch_def set_tcp_watch_def split: source.splits\<close>)
  then show ?thesis by (simp only: source_remove_li_heap)
qed

lemma tcp_listener_event_inv:
  assumes "tcp_listener_event env l fam err accepted rcv st = Some (st', keep)" "proxy_inv {} st"
    and "sources st n = Some (if fam = AF_INET then Tcp4_watch l else Tcp6_watch l)"
  shows "proxy_inv {} (after n (st', keep))"
proof -
  obtain d where d: "li_heap st l = Some d" using assms(1) by (auto simp: tcp_listener_event_def split: bind_splits)
  have w: "tcp_watch fam d = n" using src_invD [OF assms(2,3)] d by (auto simp: tcp_watch_def split: if_splits)
  have n: "n > 0" using src_invD [OF assms(2,3)] by simp
  let ?cl = "\<lambda>st. st\<lparr>li_heap := (li_heap st)(l \<mapsto> set_tcp_watch fam 0 d)\<rparr>"
  have cl: "proxy_inv {} (source_remove n (?cl st))" by (rule clear_tcp_watch [OF assms(2) d assms(3)])
  have twice: "source_remove n (?cl (source_remove n st)) = source_remove n (?cl st)" by (simp add: source_remove_def)
  have a: "proxy_inv {} (after n (u, k))" if "proxy_inv {} u" for u k using that by (auto simp: after_def)
  show ?thesis
  proof (cases "err \<or> (\<exists>sk addr. accepted = Some (sk, addr) \<and> sk < 0)")
    case True
    then show ?thesis using assms(1) d w n cl twice by (auto simp: tcp_listener_event_def Let_def after_def split: if_splits)
  next
    case False
    have "proxy_inv {} st'"
    proof (cases accepted)
      case None
      then show ?thesis using assms(1,2) d False by (simp add: tcp_listener_event_def)
    next
      case (Some x)
      obtain sk addr where x: "x = (sk, addr)" by (cases x)
      obtain st1 ok where 1: "accept_client env l sk st = (st1, ok)" by fastforce
      have i1: "proxy_inv {} st1" by (rule accept_client_inv [OF 1 assms(2)])
      show ?thesis
        using assms(1) d False Some x 1 i1 prepare_client_inv [OF _ i1] first_data_inv
        by (cases ok) (auto simp: tcp_listener_event_def Let_def split: bind_splits if_splits, blast)
    qed
    then show ?thesis by (rule a)
  qed
qed

lemma udp_question_inv:
  assumes "new_object env st = (st1, Some r)" "get_id env st1 = (st2, dst)" "get_id env st2 = (st3, alt)" "proxy_inv {} st"
    and "resolv env r bytes name (set_req r q st3) = Some (st4, cached)"
    and "q = new_request addr 0 PROTO_UDP fam src dst alt len l" "12 \<le> len" "l \<in> dom (li_heap st)" "length bs = len"
  shows "proxy_inv {} (st4\<lparr>req_heap := (req_heap st4)(r := None)\<rparr>)"
    and "queue_request r bs query st4 = Some st5 \<Longrightarrow> proxy_inv {} st5"
proof -
  have i3: "proxy_inv {r} (set_req r q st3)" unfolding assms(6) by (rule new_question_inv(1) [OF assms(1-4)])
  have a: "asks {r} (set_req r q st3) st4" by (rule resolv_from_asks [OF assms(5) [unfolded resolv_def] i3])
  then have i4: "proxy_inv {r} st4" "quiet (set_req r q st3) st4" using i3 by (simp_all add: asks_def)
  then show "proxy_inv {} (st4\<lparr>req_heap := (req_heap st4)(r := None)\<rparr>)" using drop_fresh_inv by blast
  have "req_heap (set_req r q st3) r = Some q" by simp
  then obtain q' where q': "req_heap st4 r = Some q'" "req_core q' = req_core q" by (rule quiet_req [OF i4(2)])
  have "li_heap st4 = li_heap st" using i4(2) new_question_inv(2) [OF assms(1-4)] by (simp add: quiet_def)
  then show "proxy_inv {} st5" if "queue_request r bs query st4 = Some st5"
    by (intro queue_request_inv [OF that i4(1) _ q'(1)])
      (use req_core_fields [OF q'(2)] assms(6-9) in \<open>simp_all add: new_request_def\<close>)
qed

lemma udp_listener_event_inv:
  assumes "udp_listener_event env l fam err (rcv, addr) st = Some (st', keep)" "proxy_inv {} st"
    and "sources st n = Some (if fam = AF_INET then Udp4_watch l else Udp6_watch l)"
  shows "proxy_inv {} (after n (st', keep))"
proof -
  obtain d where d: "li_heap st l = Some d" using assms(1) by (auto simp: udp_listener_event_def split: bind_splits)
  have a: "proxy_inv {} (after n (u, k))" if "proxy_inv {} u" for u k using that by (auto simp: after_def)
  show ?thesis
  proof (cases err)
    case True
    then show ?thesis using assms(1) d clear_udp_watch [OF assms(2) d assms(3)] by (auto simp: udp_listener_event_def after_def)
  next
    case False
    note body = assms(1) [unfolded udp_listener_event_def d bind.bind_lunit prod.case Let_def]
    have "proxy_inv {} st'"
    proof (cases "\<exists>bs. rcv = Recv bs \<and> 2 \<le> length bs")
      case no: False
      then show ?thesis using body False assms(2) by (auto split: recv_result.splits if_splits)
    next
      case True
      then obtain bs where bs: "rcv = Recv bs" "2 \<le> length bs" by blast
      let ?mem = "bs @ take (768 - length bs) (stale env)"
      obtain sk buf query e where p: "(if fam = AF_INET then udp4_channel d else udp6_channel d) = Some sk"
        "parse_request ?mem 0 (int (length bs)) 512 = Some (buf, query, e)"
        using body False bs by (auto split: bind_splits)
      show ?thesis
      proof (cases "e < 0 \<or> server_list st = []")
        case True
        then show ?thesis using body False bs p assms(2) by (auto split: bind_splits)
      next
        case ok: False
        obtain st1 a where 1: "new_object env st = (st1, a)" by fastforce
        obtain st2 dst st3 alt where 2: "get_id env st1 = (st2, dst)" "get_id env st2 = (st3, alt)" by fastforce
        have len: "12 \<le> length bs" "length bs \<le> length buf" using parse_request_length [OF p(2)] ok by simp_all
        show ?thesis
        proof (cases a)
          case None
          then show ?thesis using body False bs p ok 1 new_object_inv(1) [OF 1 assms(2)] by (auto split: bind_splits)
        next
          case (Some r)
          define q where "q = new_request addr 0 PROTO_UDP fam (be16_of (buf ! 1) (buf ! 0)) dst alt (length bs) l"
          obtain buf2 st4 cached where b: "put_at 0 (id_bytes dst) buf = Some buf2"
            "resolv env r (Some buf2) (Some query) (set_req r q st3) = Some (st4, cached)"
            "(if cached then Some (st4\<lparr>req_heap := (req_heap st4)(r := None)\<rparr>, True)
               else do { st \<leftarrow> queue_request r (take (length bs) buf2) query st4; Some (st, True) }) = Some (st', keep)"
            using body False bs p ok 1 Some 2 by (auto simp: Let_def q_def split: bind_splits)
          have l2: "length (take (length bs) buf2) = length bs" using put_at_length [OF b(1)] len(2) by simp
          note uq = udp_question_inv [OF 1 [unfolded Some] 2 assms(2) b(2) q_def len(1) _ l2]
          show ?thesis using b(3) uq d by (auto split: if_splits bind_splits)
        qed
      qed
    qed
    then show ?thesis by (rule a)
  qed
qed

section \<open>Listeners\<close>

text \<open>While a listener is made its sources are registered before it is in the table: apart from them, and the
  counter, nothing changes.\<close>

definition same_objects :: "dns_proxy \<Rightarrow> dns_proxy \<Rightarrow> bool" where
  "same_objects st st' \<longleftrightarrow> dns st' = dns st \<and> srv_heap st' = srv_heap st \<and> server_list st' = server_list st \<and>
     req_heap st' = req_heap st \<and> request_list st' = request_list st \<and> clients st' = clients st \<and> li_heap st' = li_heap st \<and>
     listener_table st' = listener_table st \<and> cache_timer st' = cache_timer st"

lemma same_objects_refl [simp]: "same_objects st st"
  by (simp add: same_objects_def)

lemma same_objects_upd [simp]:
  "same_objects st (act a u) = same_objects st u" "same_objects st (source_remove n u) = same_objects st u"
  "same_objects st (u\<lparr>sources := m\<rparr>) = same_objects st u" "same_objects st (u\<lparr>next_id := k\<rparr>) = same_objects st u"
  by (simp_all add: same_objects_def source_remove_def)

lemma same_objects_stored: "same_objects st st' \<Longrightarrow> stored st' src = stored st src"
  by (cases src) (simp_all add: same_objects_def)

definition grown :: "nat \<Rightarrow> listener_data \<Rightarrow> dns_proxy \<Rightarrow> dns_proxy \<Rightarrow> bool" where
  "grown l d st st' \<longleftrightarrow> same_objects st st' \<and> next_id st \<le> next_id st' \<and>
     (\<forall>n src. sources st' n = Some src \<longrightarrow> sources st n = Some src \<or>
        0 < n \<and> n \<le> next_id st' \<and> (\<exists>w. li_watch src = Some (l, w) \<and> w d = n))"

lemma grown_act [simp]: "grown l d st (act a u) = grown l d st u"
  by (simp add: grown_def)

lemma get_listener_grown: "grown l d st u \<Longrightarrow> get_listener env fam p i u = (u', c) \<Longrightarrow> grown l d st u'"
  by (auto simp: get_listener_def Let_def split: if_splits option.splits)

lemma grown_same_watches:
  "grown l d st u \<Longrightarrow> (\<And>src w. li_watch src = Some (l, w) \<Longrightarrow> w d' = w d) \<Longrightarrow> grown l d' st u"
  unfolding grown_def by metis

lemma watch_opt_grown:
  assumes "grown l d st u" "watch_opt src0 c (w0 d) u = (u', n)" "w0 d = 0" "li_watch src0 = Some (l, w0)" "w0 d' = n"
    and "\<And>src w. li_watch src = Some (l, w) \<Longrightarrow> src \<noteq> src0 \<Longrightarrow> w d' = w d"
  shows "grown l d' st u'"
proof (cases "c = None")
  case True
  then have "u' = u" "n = 0" using assms(2,3) by (simp_all add: watch_opt_def)
  then show ?thesis using assms grown_same_watches [of l d st u d'] by (metis option.inject prod.inject)
next
  case False
  then have u': "u' = u\<lparr>sources := (sources u)(n \<mapsto> src0), next_id := n\<rparr>" "n = Suc (next_id u)"
    using assms(2) by (auto simp: watch_opt_def add_source_def Let_def)
  have "sources st m = Some src \<or> 0 < m \<and> m \<le> n \<and> (\<exists>w. li_watch src = Some (l, w) \<and> w d' = m)"
    if "sources u' m = Some src" for m src
  proof (cases "m = n")
    case True
    then show ?thesis using that u' assms(4,5) by auto
  next
    case False
    then have m: "sources u m = Some src" using that u' by simp
    show ?thesis
    proof (cases "sources st m = Some src")
      case no: False
      then obtain w where w: "li_watch src = Some (l, w)" "w d = m" "0 < m" "m \<le> next_id u" using assms(1) m by (auto simp: grown_def)
      then have "src \<noteq> src0" using assms(3,4) by auto
      then show ?thesis using assms(6) w u'(2) by auto
    qed simp
  qed
  then show ?thesis using assms(1) u' by (auto simp: grown_def)
qed

lemma li_watch_distinct:
  "li_watch (Udp4_watch l) = Some (l, udp4_watch)" "li_watch (Udp6_watch l) = Some (l, udp6_watch)"
  "li_watch (Tcp4_watch l) = Some (l, tcp4_watch)" "li_watch (Tcp6_watch l) = Some (l, tcp6_watch)"
  by (simp_all add: li_watch_def)

lemma li_watch_cases:
  assumes "li_watch src = Some (l, w)"
  obtains "src = Udp4_watch l" "w = udp4_watch" | "src = Udp6_watch l" "w = udp6_watch"
    | "src = Tcp4_watch l" "w = tcp4_watch" | "src = Tcp6_watch l" "w = tcp6_watch"
  using assms by (auto simp: li_watch_def split: source.splits)

lemma create_udp_grown:
  assumes "create_dns_listener env PROTO_UDP l d st = (st', d', e)" "udp4_watch d = 0" "udp6_watch d = 0" "grown l d st0 st"
  shows "grown l d' st0 st'" "tcp4_watch d' = tcp4_watch d" "tcp6_watch d' = tcp6_watch d"
    "e AND UDP_FAILED = UDP_FAILED \<Longrightarrow> udp4_watch d' = 0 \<and> udp6_watch d' = 0"
proof -
  obtain s1 c4 s2 w4 s3 c6 s4 w6 where s: "get_listener env AF_INET PROTO_UDP (li_index d) st = (s1, c4)"
    "watch_opt (Udp4_watch l) c4 (udp4_watch d) s1 = (s2, w4)" "get_listener env AF_INET6 PROTO_UDP (li_index d) s2 = (s3, c6)"
    "watch_opt (Udp6_watch l) c6 (udp6_watch d) s3 = (s4, w6)"
    by (metis surj_pair)
  have r: "st' = s4" "d' = d\<lparr>udp4_channel := c4, udp4_watch := w4, udp6_channel := c6, udp6_watch := w6\<rparr>"
    "e = (if c4 = None then UDP_IPv4_FAILED else 0) OR (if c6 = None then UDP_IPv6_FAILED else 0)"
    using assms(1) s by (simp_all add: create_dns_listener_def Let_def)
  have 1: "grown l d st0 s1" by (rule get_listener_grown [OF assms(4) s(1)])
  have 2: "grown l (d\<lparr>udp4_channel := c4, udp4_watch := w4\<rparr>) st0 s2"
    by (rule watch_opt_grown [OF 1 s(2) assms(2) li_watch_distinct(1)]) (auto elim!: li_watch_cases)
  have 3: "grown l (d\<lparr>udp4_channel := c4, udp4_watch := w4\<rparr>) st0 s3" by (rule get_listener_grown [OF 2 s(3)])
  have "watch_opt (Udp6_watch l) c6 (udp6_watch (d\<lparr>udp4_channel := c4, udp4_watch := w4\<rparr>)) s3 = (s4, w6)" using s(4) by simp
  then show "grown l d' st0 st'" unfolding r(1,2)
    by (rule watch_opt_grown [OF 3 _ _ li_watch_distinct(2)]) (use assms(3) in \<open>auto elim!: li_watch_cases\<close>)
  show "tcp4_watch d' = tcp4_watch d" "tcp6_watch d' = tcp6_watch d" by (simp_all add: r)
  show "udp4_watch d' = 0 \<and> udp6_watch d' = 0" if "e AND UDP_FAILED = UDP_FAILED"
    using that s(2,4) assms(2,3) by (auto simp: r watch_opt_def split: if_splits)
qed

lemma create_tcp_grown:
  assumes "create_dns_listener env PROTO_TCP l d st = (st', d', e)" "tcp4_watch d = 0" "tcp6_watch d = 0" "grown l d st0 st"
  shows "grown l d' st0 st'" "udp4_watch d' = udp4_watch d" "udp6_watch d' = udp6_watch d"
    "e AND TCP_FAILED = TCP_FAILED \<Longrightarrow> tcp4_watch d' = 0 \<and> tcp6_watch d' = 0"
proof -
  obtain s1 c4 s2 w4 s3 c6 s4 w6 where s: "get_listener env AF_INET PROTO_TCP (li_index d) st = (s1, c4)"
    "watch_opt (Tcp4_watch l) c4 (tcp4_watch d) s1 = (s2, w4)" "get_listener env AF_INET6 PROTO_TCP (li_index d) s2 = (s3, c6)"
    "watch_opt (Tcp6_watch l) c6 (tcp6_watch d) s3 = (s4, w6)"
    by (metis surj_pair)
  have r: "st' = s4" "d' = d\<lparr>tcp4_channel := c4, tcp4_watch := w4, tcp6_channel := c6, tcp6_watch := w6\<rparr>"
    "e = (if c4 = None then TCP_IPv4_FAILED else 0) OR (if c6 = None then TCP_IPv6_FAILED else 0)"
    using assms(1) s by (simp_all add: create_dns_listener_def Let_def)
  have 1: "grown l d st0 s1" by (rule get_listener_grown [OF assms(4) s(1)])
  have 2: "grown l (d\<lparr>tcp4_channel := c4, tcp4_watch := w4\<rparr>) st0 s2"
    by (rule watch_opt_grown [OF 1 s(2) assms(2) li_watch_distinct(3)]) (auto elim!: li_watch_cases)
  have 3: "grown l (d\<lparr>tcp4_channel := c4, tcp4_watch := w4\<rparr>) st0 s3" by (rule get_listener_grown [OF 2 s(3)])
  have "watch_opt (Tcp6_watch l) c6 (tcp6_watch (d\<lparr>tcp4_channel := c4, tcp4_watch := w4\<rparr>)) s3 = (s4, w6)" using s(4) by simp
  then show "grown l d' st0 st'" unfolding r(1,2)
    by (rule watch_opt_grown [OF 3 _ _ li_watch_distinct(4)]) (use assms(3) in \<open>auto elim!: li_watch_cases\<close>)
  show "udp4_watch d' = udp4_watch d" "udp6_watch d' = udp6_watch d" by (simp_all add: r)
  show "tcp4_watch d' = 0 \<and> tcp6_watch d' = 0" if "e AND TCP_FAILED = TCP_FAILED"
    using that s(2,4) assms(2,3) by (auto simp: r watch_opt_def split: if_splits)
qed

lemma close_channel_simps [simp]:
  "sources (close_channel c st) = sources st" "next_id (close_channel c st) = next_id st"
  "same_objects st (close_channel c u) = same_objects st u"
  by (simp_all add: close_channel_def split: option.split)

lemma remove_watch_simps [simp]: "next_id (remove_watch n st) = next_id st" "same_objects st (remove_watch n u) = same_objects st u"
  by (simp_all add: remove_watch_def source_remove_def)

lemma remove_watch_sources: "sources (remove_watch n st) m = Some src \<longleftrightarrow> sources st m = Some src \<and> (m \<noteq> n \<or> n = 0)"
  by (auto simp: remove_watch_def source_remove_def)

lemma destroy_udp_sources:
  "sources (destroy_udp_listener d st) m = Some src \<longleftrightarrow>
     sources st m = Some src \<and> (m \<noteq> udp4_watch d \<or> udp4_watch d = 0) \<and> (m \<noteq> udp6_watch d \<or> udp6_watch d = 0)"
  by (auto simp: destroy_udp_listener_def Let_def remove_watch_sources)

lemma destroy_tcp_sources:
  "sources (destroy_tcp_listener d st) m = Some src \<longleftrightarrow>
     sources st m = Some src \<and> (m \<noteq> tcp4_watch d \<or> tcp4_watch d = 0) \<and> (m \<noteq> tcp6_watch d \<or> tcp6_watch d = 0)"
  by (auto simp: destroy_tcp_listener_def Let_def remove_watch_sources)

lemma destroy_listener_objects [simp]:
  "same_objects st (destroy_udp_listener d u) = same_objects st u" "same_objects st (destroy_tcp_listener d u) = same_objects st u"
  "next_id (destroy_udp_listener d u) = next_id u" "next_id (destroy_tcp_listener d u) = next_id u"
  by (simp_all add: destroy_udp_listener_def destroy_tcp_listener_def Let_def)

lemma create_udp_bits: "create_dns_listener env PROTO_UDP l d st = (st', d', e) \<Longrightarrow> e AND TCP_FAILED = 0"
  by (auto simp: create_dns_listener_def Let_def split: prod.splits if_splits)

text \<open>A listener that could not be made leaves no source behind.\<close>

lemma grown_none:
  assumes "grown l x st u" "sources u n = Some src" "udp4_watch x = 0 \<or> n \<noteq> udp4_watch x" "udp6_watch x = 0 \<or> n \<noteq> udp6_watch x"
      "tcp4_watch x = 0 \<or> n \<noteq> tcp4_watch x" "tcp6_watch x = 0 \<or> n \<noteq> tcp6_watch x"
  shows "sources st n = Some src"
proof (rule ccontr)
  assume "sources st n \<noteq> Some src"
  then obtain w where "0 < n" "li_watch src = Some (l, w)" "w x = n" using assms(1,2) by (auto simp: grown_def)
  then show False using assms(3-6) by (auto elim!: li_watch_cases)
qed

lemma create_listener_grown:
  assumes "create_listener env l (new_listener index) st = (st', d, err)"
  shows "err < 0 \<Longrightarrow> same_objects st st' \<and> next_id st \<le> next_id st' \<and> (\<forall>n src. sources st' n = Some src \<longrightarrow> sources st n = Some src)"
    and "\<not> err < 0 \<Longrightarrow> grown l d st st'"
proof -
  obtain s1 d1 e1 where 1: "create_dns_listener env PROTO_UDP l (new_listener index) st = (s1, d1, e1)" by (metis surj_pair)
  obtain s2 d2 e2 where 2: "create_dns_listener env PROTO_TCP l d1 s1 = (s2, d2, e2)" by (metis surj_pair)
  have g0: "grown l (new_listener index) st st" by (simp add: grown_def)
  note g1 = create_udp_grown [OF 1 _ _ g0, simplified new_listener_def, simplified]
  note g2 = create_tcp_grown [OF 2 _ _ g1(1)]
  show "grown l d st st'" if "\<not> err < 0"
    using assms that 1 2 g1 g2(1) by (auto simp: create_listener_def Let_def split: if_splits)
  show "same_objects st st' \<and> next_id st \<le> next_id st' \<and> (\<forall>n src. sources st' n = Some src \<longrightarrow> sources st n = Some src)" if "err < 0"
  proof (cases "e1 AND UDP_FAILED = UDP_FAILED")
    case True
    then have "st' = s1" using assms 1 by (simp add: create_listener_def)
    moreover have "sources st n = Some src" if "sources s1 n = Some src" for n src
      by (rule grown_none [OF g1(1) that]) (use g1(2-4) True in auto)
    ultimately show ?thesis using g1(1) by (simp add: grown_def)
  next
    case False
    have failed: "(e1 OR e2) AND TCP_FAILED = TCP_FAILED" using assms that 1 2 False by (auto simp: create_listener_def Let_def split: if_splits)
    then have st': "st' = destroy_udp_listener d2 s2" using assms 1 2 False by (auto simp: create_listener_def Let_def)
    have "e2 AND TCP_FAILED = TCP_FAILED" using failed create_udp_bits [OF 1] by (simp add: bit.conj_disj_distrib2)
    then have t: "tcp4_watch d2 = 0" "tcp6_watch d2 = 0" using g2(4) g1(2,3) by auto
    have "sources st n = Some src" if "sources st' n = Some src" for n src
      using that grown_none [OF g2(1)] t unfolding st' destroy_udp_sources by (auto simp: g1(2,3))
    then show ?thesis using g2(1) [OF g1(2,3)] by (auto simp: st' grown_def)
  qed
qed

lemma shrink_inv:
  assumes "proxy_inv X st" "same_objects st st'" "next_id st \<le> next_id st'" "\<And>n src. sources st' n = Some src \<Longrightarrow> sources st n = Some src"
  shows "proxy_inv X st'"
  unfolding proxy_inv_def
proof (intro conjI)
  note o = assms(2) [unfolded same_objects_def]
  note n = next_id_inv [OF assms(1,3)]
  show "src_inv st'" by (rule src_inv_sub [OF assms(1,3)]) (use assms(4) same_objects_stored [OF assms(2)] in simp)
  show "srv_inv st'" using proxy_invD(2) [OF n] o by (simp add: srv_inv_def)
  show "req_inv X st'" using proxy_invD(3) [OF n] o by (simp add: req_inv_def)
  show "li_inv st'" using proxy_invD(4) [OF n] o by (simp add: li_inv_def)
  show "client_inv st'" using proxy_invD(5) [OF n] o by (simp add: client_inv_def)
  show "cache_part st'" using proxy_invD(6) [OF assms(1)] o assms(4) [of _ Cache_timer] unfolding cache_part_def by metis
qed

lemma req_ok_mono: "req_ok f b L q \<Longrightarrow> L \<subseteq> L' \<Longrightarrow> req_ok f b L' q"
  by (auto simp: req_ok_def queued_ok_def split: if_splits)

lemma table_listener_inv:
  assumes "proxy_inv X st" "grown l d st st'" "li_heap st l = None" "l \<le> next_id st'" "listener_table st = Some t" "map_of t index = None"
  shows "proxy_inv X (st'\<lparr>li_heap := (li_heap st')(l \<mapsto> d), listener_table := Some ((index, l) # t)\<rparr>)"
    (is "proxy_inv X ?st")
  unfolding proxy_inv_def
proof (intro conjI)
  have o: "same_objects st st'" "next_id st \<le> next_id st'" using assms(2) by (simp_all add: grown_def)
  note o1 = o(1) [unfolded same_objects_def]
  note n = next_id_inv [OF assms(1) o(2)]
  have S: "stored ?st src = stored st src" if "li_watch src = None \<or> (\<exists>l' w. li_watch src = Some (l', w) \<and> l' \<noteq> l)" for src
    using that o1 by (cases src) (auto simp: li_watch_def)
  have S2: "stored ?st src = Some (w d)" if "li_watch src = Some (l, w)" for src w
    using that by (auto elim!: li_watch_cases)
  have old: "li_watch src = None \<or> (\<exists>l' w. li_watch src = Some (l', w) \<and> l' \<noteq> l)" if "sources st m = Some src" for m src
    using src_invD [OF assms(1) that] assms(3) by (cases src) (auto simp: li_watch_def)
  show "src_inv ?st"
  proof (rule src_invI [OF assms(1)])
    fix m src assume m: "sources ?st m = Some src"
    show "sources st m = Some src \<and> stored ?st src = stored st src \<or> 0 < m \<and> m \<le> next_id ?st \<and> stored ?st src = Some m"
    proof (cases "sources st m = Some src")
      case True
      then show ?thesis using S [OF old [OF True]] by blast
    next
      case False
      then obtain w where "0 < m" "m \<le> next_id st'" "li_watch src = Some (l, w)" "w d = m" using assms(2) m by (auto simp: grown_def)
      then show ?thesis using S2 by auto
    qed
  qed (use o in simp)
  show "srv_inv ?st" using proxy_invD(2) [OF n] o1 by (simp add: srv_inv_def)
  show "req_inv X ?st"
    using proxy_invD(3) [OF n] o1 req_ok_mono [of _ _ "dom (li_heap st)"] unfolding req_inv_def by (fastforce simp: subset_insertI)
  have "l \<notin> snd ` set t" using proxy_invD(4) [OF assms(1)] assms(3,5) by (auto simp: li_inv_def)
  moreover have "index \<notin> fst ` set t" using assms(6) by (auto simp: map_of_eq_None_iff)
  ultimately show "li_inv ?st" using proxy_invD(4) [OF n] o1 assms(4,5) by (auto simp: li_inv_def)
  have "sources st m = Some Cache_timer" if "sources st' m = Some Cache_timer" for m
  proof -
    have "li_watch Cache_timer = None" by (simp add: li_watch_def)
    then show ?thesis using that assms(2) unfolding grown_def by (metis option.distinct(1))
  qed
  then show "cache_part ?st" using proxy_invD(6) [OF assms(1)] o1 by (auto simp: cache_part_def)
qed (use proxy_invD(5) [OF assms(1)] assms(2) in \<open>simp add: client_inv_def grown_def same_objects_def\<close>)

lemma add_listener_inv:
  assumes "connman_dnsproxy_add_listener env index st = (st', ret)" "proxy_inv X st"
  shows "proxy_inv X st'"
proof -
  obtain st1 a where 1: "new_object env st = (st1, a)" by fastforce
  note n = new_object_inv [OF 1 assms(2)]
  show ?thesis
  proof (cases "index < 0 \<or> a = None \<or> (case listener_table st of None \<Rightarrow> True | Some t \<Rightarrow> map_of t index \<noteq> None)")
    case True
    then show ?thesis using assms 1 n(1) by (auto simp: connman_dnsproxy_add_listener_def split: option.splits if_splits)
  next
    case False
    then obtain l t where l: "a = Some l" "listener_table st = Some t" "map_of t index = None" by (auto split: option.splits)
    obtain s d err where c: "create_listener env l (new_listener index) st1 = (s, d, err)" by (metis surj_pair)
    note g = create_listener_grown [OF c]
    show ?thesis
    proof (cases "err < 0")
      case True
      then have "proxy_inv X s" using shrink_inv [OF n(1)] g(1) by blast
      then show ?thesis using assms(1) False 1 l c True by (simp add: connman_dnsproxy_add_listener_def)
    next
      case ok: False
      have t1: "listener_table st1 = Some t" using l(2) n(2) by simp
      have "l \<le> next_id s" using g(2) [OF ok] n(3) [OF l(1)] by (simp add: grown_def)
      then have "proxy_inv X (s\<lparr>li_heap := (li_heap s)(l \<mapsto> d), listener_table := Some ((index, l) # t)\<rparr>)"
        using table_listener_inv [OF n(1) g(2) [OF ok] n(6) [OF l(1)]] t1 l(3) by simp
      then show ?thesis using assms(1) False 1 l c ok by (simp add: connman_dnsproxy_add_listener_def)
    qed
  qed
qed

text \<open>Dropping all requests of the list, one after the other.\<close>

lemma drop_requests_inv:
  "drop_requests rs st = Some st' \<Longrightarrow> proxy_inv {} (st\<lparr>request_list := rs\<rparr>) \<Longrightarrow>
     proxy_inv {} (st'\<lparr>request_list := []\<rparr>) \<and> li_heap st' = li_heap st \<and> listener_table st' = listener_table st"
proof (induction rs arbitrary: st)
  case (Cons r rs)
  obtain st1 where 1: "destroy_request_data r st = Some st1" "drop_requests rs st1 = Some st'" using Cons.prems(1) by (auto split: bind_splits)
  then have "release_request r (st\<lparr>request_list := r # rs\<rparr>) = Some (st1\<lparr>request_list := rs\<rparr>)"
    by (auto simp: release_request_def destroy_request_data_def source_remove_def split: bind_splits if_splits)
  then have "proxy_inv {} (st1\<lparr>request_list := rs\<rparr>)" using release_request_inv(1) Cons.prems(2) by blast
  moreover have "li_heap st1 = li_heap st" "listener_table st1 = listener_table st"
    using 1(1) by (auto simp: destroy_request_data_def source_remove_def split: bind_splits if_splits)
  ultimately show ?case using Cons.IH [OF 1(2)] by simp
qed simp

text \<open>A listener leaves the table when no request is left in the list and its sources are gone.\<close>

lemma untable_listener_inv:
  assumes "proxy_inv {} st" "request_list st = []" "listener_table st = Some t" "map_of t index = Some l"
    and "\<And>m src w. sources st m = Some src \<Longrightarrow> li_watch src \<noteq> Some (l, w)"
  shows "proxy_inv {} (st\<lparr>li_heap := (li_heap st)(l := None), listener_table := Some (AList.delete index t)\<rparr>)" (is "proxy_inv {} ?st")
  unfolding proxy_inv_def
proof (intro conjI)
  have S: "stored ?st src = stored st src" if "\<And>w. li_watch src \<noteq> Some (l, w)" for src
    using that by (cases src) (auto simp: li_watch_def)
  show "src_inv ?st" by (rule src_inv_sub [OF assms(1)]) (use S assms(5) in auto)
  have "req_ok False False L' q" if "req_ok False False L q" for L L' q using that by (auto simp: req_ok_def queued_ok_def)
  then show "req_inv {} ?st" using proxy_invD(3) [OF assms(1)] assms(2) unfolding req_inv_def by simp blast
  have t: "distinct (map fst t)" "distinct (map snd t)" "snd ` set t \<subseteq> dom (li_heap st)" "(index, l) \<in> set t"
    using proxy_invD(4) [OF assms(1)] assms(3,4) by (auto simp: li_inv_def dest: map_of_SomeD)
  have "l \<notin> snd ` set (AList.delete index t)"
  proof
    assume "l \<in> snd ` set (AList.delete index t)"
    then obtain i where "(i, l) \<in> set t" "i \<noteq> index" by (auto simp: AList.delete_eq)
    then show False using t(2,4) inj_onD [of snd "set t" "(i, l)" "(index, l)"] by (auto simp: distinct_map)
  qed
  moreover have "distinct (map fst (AList.delete index t))" "distinct (map snd (AList.delete index t))"
    "snd ` set (AList.delete index t) \<subseteq> dom (li_heap st)"
    using t(1-3) by (auto simp: AList.delete_eq distinct_map inj_on_def)
  ultimately show "li_inv ?st" using proxy_invD(4) [OF assms(1)] by (auto simp: li_inv_def)
qed (use proxy_invD [OF assms(1)] in \<open>simp_all add: srv_inv_def client_inv_def cache_part_def\<close>)

lemma remove_listener_inv:
  assumes "connman_dnsproxy_remove_listener env index st = Some st'" "proxy_inv {} st"
  shows "proxy_inv {} st'"
proof (cases "\<exists>t l. listener_table st = Some t \<and> map_of t index = Some l")
  case False
  then show ?thesis using assms by (auto simp: connman_dnsproxy_remove_listener_def split: option.splits)
next
  case True
  then obtain t l where t: "listener_table st = Some t" "map_of t index = Some l" by blast
  obtain d st1 where 1: "li_heap st l = Some d" "destroy_listener env d st = Some st1"
    "st' = st1\<lparr>li_heap := (li_heap st1)(l := None), listener_table := Some (AList.delete index t)\<rparr>"
    using assms(1) t by (auto simp: connman_dnsproxy_remove_listener_def free_listener_def split: bind_splits)
  define u where "u = (if li_index d = lo_index env then act (Resolvfile_remove (lo_index env) ''::1'')
      (act (Resolvfile_remove (lo_index env) ''127.0.0.1'') st) else st)"
  obtain v where v: "drop_requests (request_list u) u = Some v"
    "st1 = destroy_udp_listener d (destroy_tcp_listener d (v\<lparr>request_list := []\<rparr>))"
    using 1(2) by (auto simp: destroy_listener_def u_def Let_def split: bind_splits)
  have "proxy_inv {} u" using assms(2) by (simp add: u_def)
  then have iv: "proxy_inv {} (v\<lparr>request_list := []\<rparr>)" "li_heap v = li_heap u" "listener_table v = listener_table u"
    using drop_requests_inv [OF v(1)] by simp_all
  have o: "same_objects (v\<lparr>request_list := []\<rparr>) st1" unfolding v(2) by simp
  have i1: "proxy_inv {} st1"
    by (rule shrink_inv [OF iv(1) o]) (auto simp: v(2) destroy_udp_sources destroy_tcp_sources)
  have tab: "listener_table st1 = Some t" "li_heap st1 l = Some d" "request_list st1 = []"
    using o iv(2,3) t 1(1) by (simp_all add: same_objects_def u_def split: if_splits)
  have gone: "li_watch src \<noteq> Some (l, w)" if "sources st1 m = Some src" for m src w
  proof
    assume w: "li_watch src = Some (l, w)"
    have "stored st1 src = Some m" "0 < m" using src_invD [OF i1 that] by simp_all
    then have "m = w d" "0 < m" using w tab(2) by (auto elim!: li_watch_cases)
    then show False using that w unfolding v(2) destroy_udp_sources destroy_tcp_sources by (auto elim!: li_watch_cases)
  qed
  show ?thesis unfolding 1(3) using untable_listener_inv [OF i1 tab(3,1) t(2)] gone by blast
qed

lemma cache_timeout_inv:
  assumes "proxy_inv X st" "sources st n = Some Cache_timer"
  shows "proxy_inv X (source_remove n (cache_timeout st))"
proof -
  let ?st = "source_remove n (cache_timeout st)"
  have one: "sources st m = Some Cache_timer \<Longrightarrow> m = n" for m using source_unique [OF assms] .
  have tbl: "cache_tbl (dns st) \<noteq> None" using proxy_invD(6) [OF assms(1)] assms(2) by (auto simp: cache_part_def)
  have S: "stored ?st src = stored st src" if "src \<noteq> Cache_timer" for src
    using that by (cases src) (auto simp: source_remove_def cache_timeout_def)
  have sub: "sources st m = Some src \<and> stored ?st src = stored st src" if "sources ?st m = Some src" for m src
  proof -
    have m: "sources st m = Some src" "m \<noteq> n" using that by (auto simp: source_remove_def cache_timeout_def split: if_splits)
    then have "src \<noteq> Cache_timer" using one by blast
    then show ?thesis using m(1) S by blast
  qed
  show ?thesis unfolding proxy_inv_def
  proof (intro conjI)
    show "src_inv ?st" by (rule src_inv_sub [OF assms(1) _ sub]) (simp_all add: source_remove_def cache_timeout_def)
    show "cache_part ?st"
      using cache_reach.remove [OF cache_reachD [OF assms(1)] tbl] one by (auto simp: cache_part_def source_remove_def cache_timeout_def)
  qed (use proxy_invD [OF assms(1)] in \<open>simp_all add: srv_inv_def req_inv_def li_inv_def client_inv_def source_remove_def cache_timeout_def\<close>)
qed

section \<open>The main loop\<close>

lemma after_inv: "proxy_inv X st \<Longrightarrow> proxy_inv X (after n (st, keep))"
  by (auto simp: after_def)

lemma server_event_inv:
  assumes "server_event env s io st = Some (st', keep)" "proxy_inv {} st" "sources st n = Some (Srv_watch s)"
  shows "proxy_inv {} st'"
proof -
  obtain d where d: "srv_heap st s = Some d" "sv_watch d = n" "0 < n" using src_invD [OF assms(2,3)] by auto
  then have "channel d \<noteq> None" using srv_invD [OF assms(2) d(1)] by (auto simp: srv_ok_def split: if_splits)
  then show ?thesis
    using assms(1) d tcp_server_event_inv [OF _ assms(2) d(1)] udp_server_event_inv [OF _ assms(2)]
    by (auto simp: server_event_def split: if_splits)
qed

lemma run_source_inv:
  assumes "run_source env io src st = Some (st', keep)" "proxy_inv {} st" "sources st n = Some src"
  shows "proxy_inv {} (after n (st', keep))"
proof (cases src)
  case (Req_timeout r)
  then show ?thesis using assms request_timeout_inv [OF _ assms(2)] by (auto simp: run_source_def after_def)
next
  case (Srv_watch s)
  then show ?thesis using assms server_event_inv [OF _ assms(2)] by (auto simp: run_source_def intro: after_inv)
next
  case (Srv_idle s)
  then show ?thesis using assms destroy_server_cases(1) [OF _ assms(2)]
    by (auto simp: run_source_def tcp_idle_timeout_def intro: after_inv)
next
  case (Client_watch sk)
  then show ?thesis using assms tcp_client_event_inv [OF _ assms(2)] by (auto simp: run_source_def intro: after_inv)
next
  case (Client_timeout sk)
  then show ?thesis using assms free_partial_reqs_inv [OF assms(2)] by (auto simp: run_source_def client_timeout_def intro: after_inv)
next
  case (Udp4_watch l)
  then show ?thesis using assms udp_listener_event_inv [where fam = AF_INET and l = l and n = n and st = st] by (auto simp: run_source_def)
next
  case (Udp6_watch l)
  then show ?thesis using assms udp_listener_event_inv [where fam = AF_INET6 and l = l and n = n and st = st] by (auto simp: run_source_def)
next
  case (Tcp4_watch l)
  then show ?thesis using assms tcp_listener_event_inv [where fam = AF_INET and l = l and n = n and st = st] by (auto simp: run_source_def)
next
  case (Tcp6_watch l)
  then show ?thesis using assms tcp_listener_event_inv [where fam = AF_INET6 and l = l and n = n and st = st] by (auto simp: run_source_def)
next
  case Cache_timer
  then show ?thesis using assms cache_timeout_inv by (auto simp: run_source_def after_def)
qed

lemma proxy_step_inv: "proxy_step st st' \<Longrightarrow> proxy_inv {} st \<Longrightarrow> proxy_inv {} st'"
proof (induction rule: proxy_step.induct)
  case (dispatch st n src env io res)
  then show ?case by (cases res) (auto intro: run_source_inv)
qed (blast intro: append_inv remove_inv offline_inv default_changed_inv add_listener_inv remove_listener_inv)+

lemma proxy_zero_inv: "proxy_inv {} (proxy_zero\<lparr>listener_table := Some [], clients := Map.empty\<rparr>)"
  by (simp add: inv_defs proxy_zero_def cache_reach.start)

lemma proxy_init_inv:
  assumes "connman_dnsproxy_init env registered proxy_zero = Some (st, ret)"
  shows "proxy_inv {} st"
proof -
  obtain u e where u: "connman_dnsproxy_add_listener env (lo_index env) (proxy_zero\<lparr>listener_table := Some [], clients := Map.empty\<rparr>) = (u, e)"
    by fastforce
  have "proxy_inv {} u" by (rule add_listener_inv [OF u proxy_zero_inv])
  then show ?thesis using assms u remove_listener_inv by (auto simp: connman_dnsproxy_init_def split: if_splits bind_splits)
qed

lemma proxy_reach_inv: "proxy_reach st \<Longrightarrow> proxy_inv {} st"
  by (induction rule: proxy_reach.induct) (blast intro: proxy_init_inv proxy_step_inv)+

end
