(* ===== verification/DnsCorrect.thy ===== *)
theory DnsCorrect
  imports DnsInvariant
begin

text \<open>
  The properties of the DNS proxy: its reachable states, the life of a request from the question of the client to
  the answer, the queries sent with a search domain, the reassembly of replies over TCP, and the choice of the
  servers that are asked.
\<close>

section \<open>Time-outs\<close>

lemma take_mem_write: "n \<le> p \<Longrightarrow> n \<le> length m \<Longrightarrow> take n (mem_write p bs m) = take n m"
  by (simp add: mem_write_def)

lemma set_reply_hdr_ok:
  assumes "h + 12 \<le> length buf" "rc AND 0xf0 = 0"
  obtains buf' where "set_reply_hdr buf h rc n = Some buf'" "length buf' = length buf" "take (h + 2) buf' = take (h + 2) buf"
    "hdr_rcode (buf' ! (h + 3)) = rc"
proof -
  let ?b1 = "mem_write (h + 2) [buf ! (h + 2) OR 0x80] buf"
  let ?b2 = "mem_write (h + 3) [(?b1 ! (h + 3) AND 0xf0) OR rc] ?b1"
  let ?b3 = "mem_write (h + 6) (be16_bytes n @ [0, 0, 0, 0]) ?b2"
  have l: "length ?b1 = length buf" "length ?b2 = length buf" using assms(1) by simp_all
  have be: "length (be16_bytes n) = 2" by (simp add: be16_bytes_def)
  have "set_reply_hdr buf h rc n = Some ?b3" using assms(1) l be by (simp add: set_reply_hdr_def byte_at_def put_at_def)
  moreover have "length ?b3 = length buf" using assms(1) l be by simp
  moreover have "take (h + 2) ?b3 = take (h + 2) buf" using assms(1) l by (simp add: take_mem_write)
  moreover have "?b3 ! (h + 3) = (?b1 ! (h + 3) AND 0xf0) OR rc"
    using assms(1) l be by (simp add: nth_mem_write)
  moreover have "hdr_rcode ((x AND 0xf0) OR rc) = rc" for x
  proof -
    have "((x AND 0xf0) OR rc) AND 0x0f = rc AND 0x0f" by (simp add: bit.conj_disj_distrib2 and.assoc)
    also have "\<dots> = (rc AND 0x0f) OR (rc AND 0xf0)" using assms(2) by simp
    also have "\<dots> = rc AND (0x0f OR 0xf0)" by (rule bit.conj_disj_distrib [symmetric])
    also have "(0x0f OR 0xf0 :: u8) = - 1" by simp
    finally show ?thesis by (simp add: hdr_rcode_def)
  qed
  ultimately show thesis using that by metis
qed

text \<open>What the client is sent: the answer kept from a server, or its own question marked as failed.\<close>

definition timeout_message :: "request_data \<Rightarrow> u8 list \<Rightarrow> bool" where
  "timeout_message q bs \<longleftrightarrow>
     (case resp q of
        Some r \<Rightarrow> r \<noteq> [] \<longrightarrow> bs = r
      | None \<Rightarrow>
          let off = nat (protocol_offset (rq_protocol q)) in
          length bs = request_len q \<and> take 2 (drop off bs) = id_bytes (srcid q) \<and> hdr_rcode (bs ! (off + 3)) = 2)"

lemma id_bytes_length [simp]: "length (id_bytes i) = 2"
  by (simp add: id_bytes_def)

lemma failure_answer:
  assumes "request q = Some bs" "length bs = request_len q" "off = nat (protocol_offset (rq_protocol q))"
    "rq_protocol q = PROTO_UDP \<or> rq_protocol q = PROTO_TCP" "off + 12 \<le> request_len q"
  obtains bs1 bs2 where "put_at off (id_bytes (srcid q)) bs = Some bs1"
    "send_response bs1 (int (request_len q)) (rq_protocol q) = Some (bs2, Some bs2)"
    "length bs2 = request_len q" "take 2 (drop off bs2) = id_bytes (srcid q)" "hdr_rcode (bs2 ! (off + 3)) = 2"
proof -
  let ?bs1 = "mem_write off (id_bytes (srcid q)) bs"
  have l: "length ?bs1 = request_len q" using assms(2,5) by simp
  have "off + 12 \<le> length ?bs1" "(2 :: u8) AND 0xf0 = 0" using l assms(5) by simp_all
  then obtain b where b: "set_reply_hdr ?bs1 off 2 0 = Some b" "length b = request_len q" "take (off + 2) b = take (off + 2) ?bs1"
    "hdr_rcode (b ! (off + 3)) = 2" by (rule set_reply_hdr_ok) (simp_all only: l)
  have p: "protocol_offset (rq_protocol q) = int off" using assms(3,4) by (auto simp: protocol_offset_def)
  have "take 2 (drop off b) = drop off (take (off + 2) b)" by (simp add: take_drop)
  also have "\<dots> = drop off (take (off + 2) ?bs1)" by (simp only: b(3))
  also have "\<dots> = id_bytes (srcid q)" using assms(2,5) by (simp add: mem_write_def)
  finally have t: "take 2 (drop off b) = id_bytes (srcid q)" .
  have "put_at off (id_bytes (srcid q)) bs = Some ?bs1" using assms(2,5) by (simp add: put_at_def)
  moreover have "send_response ?bs1 (int (request_len q)) (rq_protocol q) = Some (b, Some b)"
    using assms(5) b(1,2) by (simp add: send_response_def p bytes_at_def)
  ultimately show thesis using that b(2,4) t by blast
qed

lemma timeout_answer_ok:
  assumes "queued_ok listed L q" "resp_ok q" "0 \<le> sk"
  shows "\<exists>out. timeout_answer q sk = Some (Some out) \<and> timeout_message q out"
proof -
  let ?off = "nat (protocol_offset (rq_protocol q))"
  obtain bs where bs: "request q = Some bs" "length bs = request_len q" "rq_protocol q = PROTO_UDP \<or> rq_protocol q = PROTO_TCP"
    "?off + 12 \<le> request_len q" using assms(1) by (auto simp: queued_ok_def protocol_offset_def)
  from failure_answer [OF bs(1,2) refl bs(3,4)]
  obtain bs1 bs2 where f: "put_at ?off (id_bytes (srcid q)) bs = Some bs1"
    "send_response bs1 (int (request_len q)) (rq_protocol q) = Some (bs2, Some bs2)"
    "length bs2 = request_len q" "take 2 (drop ?off bs2) = id_bytes (srcid q)" "hdr_rcode (bs2 ! (?off + 3)) = 2" .
  show ?thesis
  proof (cases "resp q")
    case None
    then show ?thesis using bs f assms(3) by (simp add: timeout_answer_def timeout_message_def Let_def)
  next
    case (Some r)
    then show ?thesis using assms(2,3) bs f
      by (cases "r = []") (auto simp: timeout_answer_def timeout_message_def resp_ok_def bytes_at_def)
  qed
qed

lemma timeout_answer_none:
  assumes "queued_ok listed L q" "sk < 0"
  shows "timeout_answer q sk = Some None"
proof -
  let ?off = "nat (protocol_offset (rq_protocol q))"
  obtain bs where bs: "request q = Some bs" "?off + 2 \<le> length bs"
    using assms(1) by (auto simp: queued_ok_def protocol_offset_def)
  then show ?thesis using assms(2) by (auto simp: timeout_answer_def put_at_def)
qed

lemma request_timeout_eq:
  assumes "req_heap st r = Some q" "timeout_answered q st = Some u"
  shows "request_timeout r st = Some (u\<lparr>request_list := g_list_remove r (request_list u), req_heap := (req_heap u)(r := None)\<rparr>)"
  using assms
  by (auto simp: request_timeout_def timeout_answered_def send_opt_request_list free_partial_request_list destroy_request_data_def
      set_req_def Let_def split: bind_splits if_splits)

lemma client_reset_acts: "\<exists>cl. acts (client_reset c st) = acts st @ cl"
  by (auto simp: client_reset_def source_remove_def act_def Let_def split: option.split)

lemma free_partial_acts: "\<exists>cl. acts (free_partial_reqs sk st) = acts st @ cl"
  using client_reset_acts by (auto simp: free_partial_reqs_def split: option.split)

lemma send_opt_acts: "acts (send_opt sk (Some bs) addr st) = acts st @ [Sendto sk bs addr]"
  by (simp add: send_opt_def act_def)

text \<open>The answer a time-out gives, for a request in order.\<close>

lemma timeout_answered_ok:
  assumes "proxy_inv {} st" "req_heap st r = Some q"
  obtains sk u where "timeout_answered q st = Some u" "req_heap u = req_heap st" "request_list u = request_list st"
    "if rq_protocol q = PROTO_UDP then get_req_udp_socket st q = Some sk else sk = client_sk q \<and> clients u sk = None"
    "0 \<le> sk \<longrightarrow> (\<exists>bs rest. acts u = acts st @ Sendto sk bs (if rq_protocol q = PROTO_UDP then Some (rq_sa q) else None) # rest \<and>
       timeout_message q bs \<and> (rq_protocol q = PROTO_UDP \<longrightarrow> rest = []))"
proof -
  have ok: "queued_ok (r \<in> set (request_list st)) (dom (li_heap st)) q" "resp_ok q"
    using req_invD [OF assms] by (simp_all add: req_ok_def)
  show thesis
  proof (cases "rq_protocol q = PROTO_UDP")
    case True
    then obtain d where d: "li_heap st (rq_ifdata q) = Some d" using ok(1) by (auto simp: queued_ok_def)
    then obtain sk where sk: "get_req_udp_socket st q = Some sk" by (auto simp: get_req_udp_socket_def)
    obtain out where out: "timeout_answer q sk = Some out" "0 \<le> sk \<Longrightarrow> \<exists>bs. out = Some bs \<and> timeout_message q bs"
      using timeout_answer_ok [OF ok, of sk] timeout_answer_none [OF ok(1), of sk] by (cases "0 \<le> sk") auto
    have "timeout_answered q st = Some (send_opt sk out (Some (rq_sa q)) st)" using True sk out(1) by (simp add: timeout_answered_def)
    then show thesis by (rule that [of _ sk]) (use True sk out(2) send_opt_acts in auto)
  next
    case False
    then have tcp: "rq_protocol q = PROTO_TCP" using ok(1) by (auto simp: queued_ok_def)
    let ?sk = "client_sk q"
    obtain out where out: "timeout_answer q ?sk = Some out" "0 \<le> ?sk \<Longrightarrow> \<exists>bs. out = Some bs \<and> timeout_message q bs"
      using timeout_answer_ok [OF ok, of ?sk] timeout_answer_none [OF ok(1), of ?sk] by (cases "0 \<le> ?sk") auto
    let ?u = "free_partial_reqs ?sk (send_opt ?sk out None st)"
    have u: "timeout_answered q st = Some ?u" using False tcp out(1) by (simp add: timeout_answered_def)
    obtain cl where cl: "acts ?u = acts (send_opt ?sk out None st) @ cl" using free_partial_acts by blast
    show thesis by (rule that [OF u, of ?sk]) (use False cl out(2) send_opt_acts in auto)
  qed
qed


section \<open>Forwarding replies\<close>

lemma find_request_sound:
  "find_request_from h rs i = Some (Some r) \<Longrightarrow> r \<in> set rs \<and> (\<exists>q. h r = Some q \<and> (dstid q = i \<or> altid q = i))"
  by (induction rs) (auto split: bind_splits if_splits)

text \<open>Taking a reply changes what the request keeps, and nothing else of it.\<close>

definition kept_of :: "dns_proxy \<Rightarrow> dns_proxy \<Rightarrow> nat \<Rightarrow> request_data \<Rightarrow> bool" where
  "kept_of st st' r q \<longleftrightarrow> acts st' = acts st \<and> request_list st' = request_list st \<and> li_heap st' = li_heap st \<and>
     (\<exists>x n. req_heap st' r = Some (q\<lparr>resp := x, resplen := n\<rparr>))"

lemma keep_reply_kept:
  assumes "keep_reply env s r bs len st = Some (st', ok)" "req_heap st r = Some q"
  shows "kept_of st st' r q"
proof -
  obtain d st1 a where 1: "srv_heap st s = Some d" "new_object env st = (st1, a)" "st1 = st\<lparr>next_id := Suc (next_id st)\<rparr>"
    using assms(1) by (auto simp: keep_reply_def new_object_def Let_def split: bind_splits)
  have k: "kept_of st (set_req r (q\<lparr>resp := x, resplen := n\<rparr>) (st1\<lparr>dns := c, next_id := m\<rparr>)) r q"
    "kept_of st (set_req r (q\<lparr>resp := x, resplen := n\<rparr>) st1) r q" for x n c m
    unfolding kept_of_def 1(3) by (simp_all, blast+)
  show ?thesis
  proof (cases a)
    case None
    then show ?thesis using assms 1(1,2) k(2) by (auto simp: keep_reply_def)
  next
    case (Some b)
    then show ?thesis using assms 1(1,2) k(1) by (auto simp: keep_reply_def split: bind_splits)
  qed
qed

lemma kept_of_refl: "req_heap st r = Some q \<Longrightarrow> kept_of st st r q"
  unfolding kept_of_def by (intro conjI exI [of _ "resp q"] exI [of _ "resplen q"]) simp_all

lemma take_reply_kept:
  assumes "take_reply env s r mem len off st = Some (st', ret)" "req_heap st r = Some q"
  shows "kept_of st st' r q"
proof -
  obtain st1 a where n: "new_object env st = (st1, a)" by fastforce
  have e: "st1 = st\<lparr>next_id := Suc (next_id st)\<rparr>" using n by (simp add: new_object_def Let_def)
  have q1: "req_heap st1 r = Some q" using assms(2) e by simp
  have k1: "kept_of st u r q" if "kept_of st1 u r q" for u using that by (simp add: kept_of_def e)
  show ?thesis
    using assms n kept_of_refl [OF assms(2)] k1 [OF kept_of_refl [OF q1]] k1 [OF keep_reply_kept [OF _ q1]] keep_reply_kept [OF _ assms(2)]
    by (auto simp: take_reply_def split: bind_splits if_splits ripped.splits option.splits)
qed

text \<open>The client of a request, as its answer is addressed.\<close>

definition addressed :: "dns_proxy \<Rightarrow> int \<Rightarrow> request_data \<Rightarrow> int \<Rightarrow> u8 list option \<Rightarrow> bool" where
  "addressed st p q sk dest \<longleftrightarrow>
     (if p = PROTO_UDP then get_req_udp_socket st q = Some sk \<and> dest = Some (rq_sa q) else sk = client_sk q \<and> dest = None)"

lemma answer_client_sends:
  assumes "answer_client env r p st = Some (st', err)" "req_heap st r = Some q" "distinct (request_list st)"
  shows "req_heap st' r = None" "r \<notin> set (request_list st')"
    "acts st' = acts st \<or> (\<exists>sk bs dest. acts st' = acts st @ [Sendto sk bs dest] \<and> addressed st p q sk dest)"
proof -
  show "req_heap st' r = None" "r \<notin> set (request_list st')"
    using assms(1,3) by (cases rule: answer_client_cases, auto simp: release_request_def destroy_request_data_def source_remove_def split: bind_splits if_splits)+
  show "acts st' = acts st \<or> (\<exists>sk bs dest. acts st' = acts st @ [Sendto sk bs dest] \<and> addressed st p q sk dest)"
    using assms(1,2)
    by (auto simp: answer_client_def addressed_def do_send_def destroy_request_data_def source_remove_def act_def Let_def
        split: bind_splits if_splits)
qed

lemma addressed_kept:
  assumes "li_heap st' = li_heap st"
  shows "addressed st' p (q\<lparr>numresp := k, resp := x, resplen := n\<rparr>) sk dest = addressed st p q sk dest"
    "addressed st' p (q\<lparr>numresp := k\<rparr>) sk dest = addressed st p q sk dest"
  using assms by (simp_all add: addressed_def get_req_udp_socket_def)

text \<open>The identifier of a message.\<close>

definition message_id :: "u8 list \<Rightarrow> int \<Rightarrow> u16" where
  "message_id mem p = (let off = nat (protocol_offset p) in be16_of (mem ! (off + 1)) (mem ! off))"


lemma take_reply_plain:
  assumes "req_heap st r = Some q" "\<not> append_domain q" "srv_heap st s = Some d" "offset + 6 \<le> length mem" "len \<le> length mem"
    and "alloc_ok env (Suc (next_id st))"
    and "cache_update (now env) (sv_protocol d) (dns st) mem len (alloc_ok env (next_id st + 2)) (alloc_ok env (next_id st + 3)) = Some (c, ret)"
  shows "take_reply env s r mem len offset st =
     Some (set_req r (q\<lparr>resp := Some (take len mem), resplen := len\<rparr>) (st\<lparr>dns := c, next_id := next_id st + 3\<rparr>), None)"
proof -
  have q: "\<exists>x. be16_at mem (offset + 4) = Some x" using assms(4) by (simp add: be16_at_def byte_at_def)
  have k: "keep_reply env s r mem len st =
     Some (set_req r (q\<lparr>resp := Some (take len mem), resplen := len\<rparr>) (st\<lparr>dns := c, next_id := next_id st + 3\<rparr>), True)"
    using assms(1,3,5-7) by (simp add: keep_reply_def new_object_def Let_def bytes_at_def numeral_3_eq_3)
  show ?thesis using assms(1,2) q k by (auto simp: take_reply_def)
qed

lemma get_req_udp_socket_cong:
  "li_heap st' = li_heap st \<Longrightarrow> rq_ifdata q' = rq_ifdata q \<Longrightarrow> rq_family q' = rq_family q \<Longrightarrow>
     get_req_udp_socket st' q' = get_req_udp_socket st q"
  by (simp add: get_req_udp_socket_def)

lemma answer_client_udp:
  assumes "req_heap st r = Some q" "get_req_udp_socket st q = Some sk" "0 \<le> sk" "resp q = Some bs" "resplen q = length bs"
  shows "\<exists>st' ret. answer_client env r PROTO_UDP st = Some (st', ret) \<and>
     acts st' = acts st @ [Sendto sk bs (Some (rq_sa q))] \<and> req_heap st' r = None"
proof -
  let ?u = "st\<lparr>request_list := g_list_remove r (request_list st)\<rparr>"
  let ?v = "act (Sendto sk bs (Some (rq_sa q))) ?u"
  have "\<exists>w. destroy_request_data r ?v = Some w \<and> acts w = acts ?v \<and> req_heap w r = None"
    using assms(1) by (simp add: destroy_request_data_def source_remove_def act_def Let_def)
  then obtain w where w: "destroy_request_data r ?v = Some w" "acts w = acts ?v" "req_heap w r = None" by blast
  have "answer_client env r PROTO_UDP st = Some (w, if send_ok env (length (acts st)) then int (resplen q) else - 1)"
    using assms w(1) by (simp add: answer_client_def bytes_at_def do_send_def Let_def)
  then show ?thesis using w(2,3) by (auto simp: act_def)
qed

text \<open>C11. A reply to a request that was sent as the client wrote it reaches the client unchanged but for the
  identifier, which is again the client's own: it is sent from the listener's socket to the client's address, and the
  request is released. A reply with an error code is held back as long as other servers may answer.\<close>

theorem reply_reaches_client:
  assumes "find_request st (be16_of hi lo) = Some (Some r)" "req_heap st r = Some q" "\<not> append_domain q" "resp q = None"
    and "get_req_udp_socket st q = Some sk" "0 \<le> sk" "srv_heap st s = Some d" "10 \<le> length body"
    and "hdr_rcode (body ! 1) = 0 \<or> numserv q \<le> numresp q + 1" "alloc_ok env (Suc (next_id st))"
    and "cache_update (now env) (sv_protocol d) (dns st) (id_bytes (srcid q) @ body @ junk) (length body + 2)
           (alloc_ok env (next_id st + 2)) (alloc_ok env (next_id st + 3)) = Some (c, cret)"
  shows "\<exists>st' ret. forward_dns_reply env s (lo # hi # body @ junk) (length body + 2) PROTO_UDP st = Some (st', ret) \<and>
     acts st' = acts st @ [Sendto sk (id_bytes (srcid q) @ body) (Some (rq_sa q))] \<and> req_heap st' r = None"
proof -
  let ?mem = "id_bytes (srcid q) @ body @ junk"
  define st1 where "st1 = set_req r (q\<lparr>numresp := Suc (numresp q)\<rparr>) st"
  define st2 where "st2 = set_req r (q\<lparr>numresp := Suc (numresp q), resp := Some (take (length body + 2) ?mem), resplen := length body + 2\<rparr>)
     (st1\<lparr>dns := c, next_id := next_id st1 + 3\<rparr>)"
  have t: "take_reply env s r ?mem (length body + 2) 0 st1 = Some (st2, None)" unfolding st2_def
    by (rule take_reply_plain) (use assms in \<open>simp_all add: st1_def\<close>)
  have put: "put_at 0 (id_bytes (srcid q)) (lo # hi # body @ junk) = Some ?mem" by (simp add: put_at_def mem_write_def)
  have lohi: "byte_at (lo # hi # body @ junk) 0 = Some lo" "byte_at (lo # hi # body @ junk) (Suc 0) = Some hi" by (simp_all add: byte_at_def)
  have fl: "byte_at ?mem 3 = Some (body ! 1)" "\<exists>a. be16_at ?mem 6 = Some a"
    using assms(8) by (simp_all add: byte_at_def be16_at_def id_bytes_def nth_append numeral_3_eq_3)
  have k: "take (length body + 2) ?mem = id_bytes (srcid q) @ body" by simp
  have "get_req_udp_socket st2 (the (req_heap st2 r)) = Some sk"
    using assms(5) get_req_udp_socket_cong [of st2 st "the (req_heap st2 r)" q] by (simp add: st2_def st1_def)
  then obtain st' ret where a: "answer_client env r PROTO_UDP st2 = Some (st', ret)"
    "acts st' = acts st2 @ [Sendto sk (id_bytes (srcid q) @ body) (Some (rq_sa q))]" "req_heap st' r = None"
    using answer_client_udp [of st2 r "the (req_heap st2 r)" sk "id_bytes (srcid q) @ body" env] assms(6) k by (auto simp: st2_def)
  have "forward_dns_reply env s (lo # hi # body @ junk) (length body + 2) PROTO_UDP st = Some (st', ret)"
    using assms(1-4,9) lohi put fl t [unfolded st1_def] a(1) by (auto simp: forward_dns_reply_def protocol_offset_def)
  then show ?thesis using a(2,3) by (auto simp: st2_def st1_def)
qed

section \<open>Replies over TCP\<close>

text \<open>A reply arrives in pieces, several of them in one event; the handler runs for each event until it is done.\<close>

fun tcp_events :: "dns_env \<Rightarrow> nat \<Rightarrow> io_cond \<Rightarrow> recv_result \<Rightarrow> u8 list list list \<Rightarrow> dns_proxy \<Rightarrow> (dns_proxy \<times> bool) option" where
  "tcp_events env s cond peek [] st = Some (st, True)"
| "tcp_events env s cond peek (e # es) st = do {
     (st, keep) \<leftarrow> tcp_server_event env s cond peek (map Recv e) st;
     if keep then tcp_events env s cond peek es st else Some (st, False) }"

lemma tcp_read_pieces:
  "[] \<notin> set e \<Longrightarrow> length got + length (concat e) \<le> len \<Longrightarrow>
     tcp_read len got (map Recv e) = (got @ concat e, length got + length (concat e) = len)"
proof (induction e arbitrary: got)
  case Nil
  then show ?case by (simp add: tcp_read.simps)
next
  case (Cons c e)
  then have "c \<noteq> []" by auto
  then have c: "c \<noteq> []" "length got < len" using Cons.prems(2) by (cases c; simp)+
  have "tcp_read len got (map Recv (c # e)) = tcp_read len (got @ c) (map Recv e)"
    using Cons.prems(2) c by (subst tcp_read.simps) simp
  then show ?case using Cons by (simp add: add.assoc)
qed

definition reading :: "io_cond \<Rightarrow> server_data \<Rightarrow> bool" where
  "reading cond d \<longleftrightarrow> \<not> io_err cond \<and> io_in cond \<and> connected d \<and> channel d \<noteq> Some 0"

lemma tcp_event_partial:
  assumes "srv_heap st s = Some d" "reading cond d" "incoming_reply d = Some (len, got)" "[] \<notin> set e" "length got + length (concat e) < len"
  shows "tcp_server_event env s cond peek (map Recv e) st = Some (set_srv s (d\<lparr>incoming_reply := Some (len, got @ concat e)\<rparr>) st, True)"
  using assms tcp_read_pieces [of e got len]
  by (simp add: tcp_server_event_def reading_def tcp_reply_def)

lemma tcp_event_complete:
  assumes "srv_heap st s = Some d" "reading cond d" "incoming_reply d = Some (len, got)" "[] \<notin> set e" "length got + length (concat e) = len"
  shows "tcp_server_event env s cond peek (map Recv e) st = do {
     (st, ret) \<leftarrow> forward_dns_reply env s (got @ concat e @ take 2 (stale env)) len PROTO_TCP (set_srv s (d\<lparr>incoming_reply := Some (len, got @ concat e)\<rparr>) st);
     st \<leftarrow> destroy_server s st;
     Some (st, False) }"
  using assms tcp_read_pieces [of e got len]
  by (simp add: tcp_server_event_def reading_def tcp_reply_def)


section \<open>Search domains\<close>

lemma dot_join_length: "ds \<noteq> [] \<Longrightarrow> length (dot_join ds) + 1 = length (enc_name ds)"
  by (induction ds rule: dot_join.induct) (simp_all add: enc_name_def)

text \<open>Consecutive writes from the start of a buffer.\<close>

lemma mem_write_next:
  "length xs + length ys \<le> length m \<Longrightarrow> mem_write (length xs) ys (xs @ drop (length xs) m) = xs @ ys @ drop (length xs + length ys) m"
  by (simp add: mem_write_def add.commute)


section \<open>Which servers are asked\<close>

text \<open>A change made to every server of the list.\<close>

definition map_servers :: "(server_data \<Rightarrow> server_data) \<Rightarrow> nat set \<Rightarrow> dns_proxy \<Rightarrow> dns_proxy" where
  "map_servers g S st = st\<lparr>srv_heap := (\<lambda>s. if s \<in> S then map_option g (srv_heap st s) else srv_heap st s)\<rparr>"

lemma each_server_map:
  assumes "\<And>s st d. srv_heap st s = Some d \<Longrightarrow> f s st = Some (set_srv s (g d) st)"
  shows "distinct ss \<Longrightarrow> set ss \<subseteq> dom (srv_heap st) \<Longrightarrow> each_server f ss st = Some (map_servers g (set ss) st)"
proof (induction ss arbitrary: st)
  case Nil
  then show ?case by (simp add: map_servers_def)
next
  case (Cons s ss)
  then obtain d where d: "srv_heap st s = Some d" by auto
  have "each_server f ss (set_srv s (g d) st) = Some (map_servers g (set ss) (set_srv s (g d) st))"
    using Cons.prems by (intro Cons.IH) auto
  moreover have "map_servers g (set ss) (set_srv s (g d) st) = map_servers g (set (s # ss)) st"
    using Cons.prems(1) d by (auto simp: map_servers_def set_srv_def fun_eq_iff)
  ultimately show ?case using assms [OF d] by simp
qed

lemma set_enabled_eq: "srv_heap st s = Some d \<Longrightarrow> set_enabled b P s st = Some (set_srv s (if P d then d\<lparr>enabled := b\<rparr> else d) st)"
  by (simp add: set_enabled_def set_srv_def fun_upd_idem)

lemma select_server_eq: "srv_heap st s = Some d \<Longrightarrow> select_server i s st = Some (set_srv s (d\<lparr>enabled := (sv_index d = i)\<rparr>) st)"
  by (simp add: select_server_def)

lemma enable_fallback_map:
  assumes "distinct (server_list st)" "set (server_list st) \<subseteq> dom (srv_heap st)"
  shows "enable_fallback b st =
     Some (map_servers (\<lambda>d. if sv_index d = - 1 then d\<lparr>enabled := b\<rparr> else d) (set (server_list st)) st)"
  unfolding enable_fallback_def by (rule each_server_map [OF set_enabled_eq assms])

text \<open>C21. When another service becomes the default one, exactly the servers of its interface are asked from then on;
  when it has none, exactly the fallback servers are.\<close>

theorem default_changed_selects:
  assumes "proxy_reach st" "0 \<le> index" "cache_refresh (now env) (cache_invalidate (now env) (dns st)) = Some c"
  shows "\<exists>st'. dnsproxy_default_changed env (Some index) st = Some st' \<and> server_list st' = server_list st \<and>
     (\<forall>s \<in> set (server_list st). \<exists>d. srv_heap st s = Some d \<and>
        srv_heap st' s = Some (d\<lparr>enabled := (if \<exists>s' \<in> set (server_list st). has_index st index s'
          then sv_index d = index else sv_index d = - 1)\<rparr>))"
proof -
  let ?S = "set (server_list st)"
  have l: "distinct (server_list st)" "?S \<subseteq> dom (srv_heap st)"
    using proxy_invD(2) [OF proxy_reach_inv [OF assms(1)]] by (simp_all add: srv_inv_def)
  define st0 where "st0 = st\<lparr>dns := cache_invalidate (now env) (dns st)\<rparr>"
  define st1 where "st1 = map_servers (\<lambda>d. d\<lparr>enabled := (sv_index d = index)\<rparr>) ?S st0"
  have f0: "server_list st0 = server_list st" "srv_heap st0 = srv_heap st" by (simp_all add: st0_def)
  have 1: "each_server (select_server index) (server_list st0) st0 = Some st1"
    unfolding st1_def f0(1) by (rule each_server_map [OF select_server_eq]) (use l f0 in simp_all)
  have f1: "server_list st1 = server_list st" "dns st1 = cache_invalidate (now env) (dns st)" "dom (srv_heap st1) = dom (srv_heap st)"
    by (auto simp: st1_def map_servers_def st0_def split: if_splits)
  have idx: "has_index st1 index s = has_index st index s" if "s \<in> ?S" for s
    using that by (auto simp: has_index_def st1_def map_servers_def f0 option.map_comp comp_def)
  define g where "g = (\<lambda>d :: server_data. if sv_index d = - 1 then d\<lparr>enabled := True\<rparr> else d)"
  define st2 where "st2 = (if list_ex (has_index st1 index) (server_list st1) then st1 else map_servers g ?S st1)"
  have 2: "(if list_ex (has_index st1 index) (server_list st1) then Some st1 else enable_fallback True st1) = Some st2"
    using enable_fallback_map [of st1 True] l f1 by (simp add: st2_def g_def)
  have ex: "list_ex (has_index st1 index) (server_list st1) \<longleftrightarrow> (\<exists>s' \<in> ?S. has_index st index s')"
    using idx f1(1) by (auto simp: list_ex_iff)
  have f2: "dns st2 = cache_invalidate (now env) (dns st)" "server_list st2 = server_list st"
    using f1 by (auto simp: st2_def map_servers_def)
  have "dnsproxy_default_changed env (Some index) st = Some (st2\<lparr>dns := c\<rparr>)"
    using assms(2,3) 1 2 f2(1) by (simp add: dnsproxy_default_changed_def st0_def [symmetric] Let_def)
  moreover have "\<exists>d. srv_heap st s = Some d \<and> srv_heap (st2\<lparr>dns := c\<rparr>) s = Some (d\<lparr>enabled := (if \<exists>s' \<in> ?S. has_index st index s'
          then sv_index d = index else sv_index d = - 1)\<rparr>)" if s: "s \<in> ?S" for s
  proof -
    obtain d where d: "srv_heap st s = Some d" using l(2) s by auto
    have "sv_index d \<noteq> index" if "\<not> (\<exists>s' \<in> ?S. has_index st index s')" using that s d by (auto simp: has_index_def)
    then show ?thesis using d s ex by (auto simp: st2_def st1_def map_servers_def f0 g_def)
  qed
  ultimately show ?thesis using f2(2) by auto
qed

section \<open>Reachable states\<close>

text \<open>The sources that are timers, not sockets.\<close>

fun is_timer :: "source \<Rightarrow> bool" where
  "is_timer (Req_timeout r) = True"
| "is_timer (Srv_idle s) = True"
| "is_timer (Client_timeout sk) = True"
| "is_timer Cache_timer = True"
| "is_timer _ = False"

lemma destroy_server_some: "srv_heap st s \<noteq> None \<Longrightarrow> destroy_server s st \<noteq> None"
  by (auto simp: destroy_server_def server_destroy_socket_def Let_def)

lemma timers_return:
  assumes "proxy_reach st" "sources st n = Some src"
    and "is_timer src"
  shows "run_source env io src st \<noteq> None"
proof -
  note inv = proxy_reach_inv [OF assms(1)]
  show ?thesis
  proof (cases src)
    case (Req_timeout r)
    then obtain q where "req_heap st r = Some q" using src_invD [OF inv assms(2)] by auto
    moreover obtain u where "timeout_answered q st = Some u" using timeout_answered_ok [OF inv calculation] by metis
    ultimately show ?thesis using Req_timeout request_timeout_eq by (simp add: run_source_def)
  next
    case (Srv_idle s)
    then show ?thesis using src_invD [OF inv assms(2)] destroy_server_some [of st s] by (auto simp: run_source_def tcp_idle_timeout_def)
  qed (use assms(3) in \<open>simp_all add: run_source_def\<close>)
qed

text \<open>C3. In every reachable state each event source registered with the main loop belongs to an object in memory
  that stores the identifier of the source, no object is twice in a list, and every object in a list is in memory:
  no callback runs on a released object, and releasing an object finds its sources. Every callback of a timer returns
  without a memory fault.\<close>

theorem proxy_sources_live:
  assumes "proxy_reach st"
  shows "((\<forall>n src. sources st n = Some src \<longrightarrow> stored st src = Some n) \<and>
    distinct (server_list st) \<and> set (server_list st) \<subseteq> dom (srv_heap st) \<and>
    distinct (request_list st) \<and> set (request_list st) \<subseteq> dom (req_heap st) \<and>
    (\<forall>t. listener_table st = Some t \<longrightarrow> distinct (map fst t) \<and> snd ` set t \<subseteq> dom (li_heap st))) \<and>
    (\<forall>n src env io. sources st n = Some src \<and> is_timer src \<longrightarrow> run_source env io src st \<noteq> None)"
  (is "?live \<and> ?timers")
proof
  show ?live using proxy_reach_inv [OF assms] by (simp add: inv_defs)
  show ?timers using timers_return [OF assms] by blast
qed

text \<open>C18. In every reachable state the objects have the shape their handlers rely on: a server speaks UDP or TCP and a
  server in the list has an address and, over TCP, is connected; a request has its question with the length it
  records, at least a header long, and a request over UDP is in the list and its listener is in memory; the answer kept has the length
  recorded; a TCP client's buffer has 4096 bytes and its fill level is inside it.\<close>

theorem proxy_state_typed:
  assumes "proxy_reach st"
  shows "(\<forall>s d. srv_heap st s = Some d \<longrightarrow>
      (sv_protocol d = PROTO_UDP \<or> sv_protocol d = PROTO_TCP) \<and>
      (s \<in> set (server_list st) \<longrightarrow> server_addr d \<noteq> None \<and> (sv_protocol d = PROTO_TCP \<longrightarrow> connected d))) \<and>
    (\<forall>r q. req_heap st r = Some q \<longrightarrow>
      (\<exists>bs. request q = Some bs \<and> length bs = request_len q) \<and> resplen q = (case resp q of None \<Rightarrow> 0 | Some bs \<Rightarrow> length bs) \<and>
      (rq_protocol q = PROTO_UDP \<and> 12 \<le> request_len q \<and> r \<in> set (request_list st) \<and> rq_ifdata q \<in> dom (li_heap st) \<or>
       rq_protocol q = PROTO_TCP \<and> 14 \<le> request_len q)) \<and>
    (\<forall>sk c. clients st sk = Some c \<longrightarrow>
      buf_end c \<le> TCP_MAX_BUF_LEN \<and> (\<forall>b. tc_buf c = Some b \<longrightarrow> length b = TCP_MAX_BUF_LEN))"
  using proxy_reach_inv [OF assms]
  by (simp add: inv_defs srv_ok_def req_ok_def queued_ok_def resp_ok_def client_ok_def)

text \<open>C17. Through every run of the proxy the cache only changes by its own operations, and it exists whenever the
  timer that releases it is armed; so what holds of every state of the cache holds in the proxy, and in particular the
  counter of entries stays exact and at most 256.\<close>

theorem proxy_refines_cache:
  assumes "proxy_reach st"
  shows "cache_reach (dns st) \<and> ((\<exists>n. sources st n = Some Cache_timer) \<longrightarrow> cache_tbl (dns st) \<noteq> None) \<and>
    cache_size (dns st) = int (length (case cache_tbl (dns st) of None \<Rightarrow> [] | Some t \<Rightarrow> t)) \<and> cache_size (dns st) \<le> MAX_CACHE_SIZE"
proof -
  have "cache_part st" using proxy_invD(6) [OF proxy_reach_inv [OF assms]] .
  then show ?thesis using cache_reach_inv [of "dns st"] by (auto simp: cache_part_def cache_inv_def split: option.splits)
qed

section \<open>An example run\<close>

text \<open>A run of the proxy: it starts, gets a server, and a client asks for the address of \<^verbatim>\<open>a\<close> over UDP.\<close>

definition ex_env :: dns_env where
  "ex_env = \<lparr>now = 1000, send_ok = (\<lambda>_. True), alloc_ok = (\<lambda>_. True), rand16 = of_nat, alt_init = replicate 1024 0, stale = [],
     getaddrinfo = (\<lambda>_. Some (AF_INET, [8, 8, 8, 8])),
     sock_of = (\<lambda>_ _ _. \<lparr>sock_fd = Inr 9, bind_err = 0, channel_ok = True, connect_err = 0\<rparr>),
     listen_of = (\<lambda>_ _ _. \<lparr>ls_fd = Some 5, ls_device = True, ls_address = True, ls_bind = True, ls_listen = True, ls_channel = True\<rparr>),
     default_index = (\<lambda>_. True), lo_index = 1, dn_expand = (\<lambda>_ _ _. None), dn_comp = (\<lambda>_ _. None)\<rparr>"

definition ex_question :: "u8 list" where
  "ex_question = [0x34, 0x12, 1, 0, 0, 1, 0, 0, 0, 0, 0, 0, 1, 97, 0, 0, 1, 0, 1]"

definition ex_io :: io_data where
  "ex_io = \<lparr>io_cond = \<lparr>io_err = False, io_out = False, io_in = True\<rparr>, io_recv = Recv ex_question, io_more = [],
     io_addr = [192, 168, 0, 7], io_accept = None\<rparr>"

definition ex_start :: dns_proxy where
  "ex_start = fst (the (connman_dnsproxy_init ex_env 0 proxy_zero))"

definition ex_server :: dns_proxy where
  "ex_server = fst (the (connman_dnsproxy_append ex_env 2 None (Some [56]) ex_start))"

definition ex_asked :: dns_proxy where
  "ex_asked = after 2 (the (run_source ex_env ex_io (Udp4_watch 1) ex_server))"

lemma ex_server_reach: "proxy_reach ex_server"
proof -
  have "connman_dnsproxy_init ex_env 0 proxy_zero \<noteq> None" by code_simp
  then have "proxy_reach ex_start" unfolding ex_start_def by (auto intro: proxy_reach.start)
  moreover have "connman_dnsproxy_append ex_env 2 None (Some [56]) ex_start \<noteq> None" by code_simp
  then have "proxy_step ex_start ex_server" unfolding ex_server_def by (auto intro: proxy_step.append)
  ultimately show ?thesis by (rule proxy_reach.step)
qed

lemma ex_asked_reach: "proxy_reach ex_asked"
proof -
  have "run_source ex_env ex_io (Udp4_watch 1) ex_server \<noteq> None" by code_simp
  moreover have "sources ex_server 2 = Some (Udp4_watch 1)" by code_simp
  ultimately have "proxy_step ex_server ex_asked" unfolding ex_asked_def by (auto intro: proxy_step.dispatch)
  with ex_server_reach show ?thesis by (rule proxy_reach.step)
qed

lemma ex_asked_timer: "sources ex_asked 12 = Some (Req_timeout 9)"
  by code_simp

text \<open>The server's answer, under the identifier the proxy chose.\<close>

definition ex_body :: "u8 list" where
  "ex_body = [0x81, 0x80, 0, 1, 0, 1, 0, 0, 0, 0, 1, 97, 0, 0, 1, 0, 1, 0xc0, 12, 0, 1, 0, 1, 0, 0, 1, 0, 0, 4, 10, 0, 0, 1]"

definition ex_done :: dns_proxy where
  "ex_done = fst (the (forward_dns_reply ex_env 6 (10 # 0 # ex_body) (length ex_body + 2) PROTO_UDP ex_asked))"


lemma ex_done_some: "forward_dns_reply ex_env 6 (10 # 0 # ex_body) (length ex_body + 2) PROTO_UDP ex_asked \<noteq> None"
  by code_simp


lemma ex_heaps: "find_request ex_asked (be16_of 0 10) = Some (Some 9)" "req_heap ex_asked 9 \<noteq> None" "srv_heap ex_asked 6 \<noteq> None"
  by code_simp+

theorem reply_reaches_client_witness:
  "\<exists>st' ret. forward_dns_reply ex_env 6 (10 # 0 # ex_body @ []) (length ex_body + 2) PROTO_UDP ex_asked = Some (st', ret) \<and>
     acts st' = acts ex_asked @ [Sendto 5 (id_bytes (srcid (the (req_heap ex_asked 9))) @ ex_body) (Some (rq_sa (the (req_heap ex_asked 9))))] \<and>
     req_heap st' 9 = None"
proof (rule reply_reaches_client)
  show "find_request ex_asked (be16_of 0 10) = Some (Some 9)" by code_simp
  show "req_heap ex_asked 9 = Some (the (req_heap ex_asked 9))" "srv_heap ex_asked 6 = Some (the (srv_heap ex_asked 6))"
    using ex_heaps by auto
  show "\<not> append_domain (the (req_heap ex_asked 9))" by code_simp
  show "resp (the (req_heap ex_asked 9)) = None" by code_simp
  show "get_req_udp_socket ex_asked (the (req_heap ex_asked 9)) = Some 5" by code_simp
  show "10 \<le> length ex_body" "(0 :: int) \<le> 5" by (simp_all add: ex_body_def)
  show "hdr_rcode (ex_body ! 1) = 0 \<or> numserv (the (req_heap ex_asked 9)) \<le> numresp (the (req_heap ex_asked 9)) + 1" by code_simp
  show "alloc_ok ex_env (Suc (next_id ex_asked))" by (simp add: ex_env_def)
  let ?u = "cache_update (now ex_env) (sv_protocol (the (srv_heap ex_asked 6))) (dns ex_asked)
      (id_bytes (srcid (the (req_heap ex_asked 9))) @ ex_body @ []) (length ex_body + 2)
      (alloc_ok ex_env (next_id ex_asked + 2)) (alloc_ok ex_env (next_id ex_asked + 3))"
  have "?u \<noteq> None" by code_simp
  then show "?u = Some (fst (the ?u), snd (the ?u))" by simp
qed

definition ex_tcp :: server_data where
  "ex_tcp = \<lparr>sv_index = 2, domains = [], sv_server = [56], server_addr = Some [8, 8, 8, 8], sv_protocol = PROTO_TCP, channel = Some 9,
     sv_watch = 0, sv_timeout = 0, enabled = True, connected = True, incoming_reply = Some (length ex_body + 4, [0, 35])\<rparr>"



theorem default_changed_selects_witness:
  "\<exists>st'. dnsproxy_default_changed ex_env (Some 3) ex_asked = Some st' \<and> server_list st' = server_list ex_asked \<and>
     (\<forall>s \<in> set (server_list ex_asked). \<exists>d. srv_heap ex_asked s = Some d \<and>
        srv_heap st' s = Some (d\<lparr>enabled := (if \<exists>s' \<in> set (server_list ex_asked). has_index ex_asked 3 s'
          then sv_index d = 3 else sv_index d = - 1)\<rparr>))"
proof (rule default_changed_selects [OF ex_asked_reach])
  let ?c = "cache_refresh (now ex_env) (cache_invalidate (now ex_env) (dns ex_asked))"
  have "?c \<noteq> None" by code_simp
  then show "?c = Some (the ?c)" by simp
qed simp

theorem proxy_sources_live_witness:
  "stored ex_asked (Req_timeout 9) = Some 12 \<and> distinct (request_list ex_asked) \<and> set (request_list ex_asked) \<subseteq> dom (req_heap ex_asked) \<and>
   run_source ex_env ex_io (Req_timeout 9) ex_asked \<noteq> None"
proof -
  note live = proxy_sources_live [OF ex_asked_reach]
  have "stored ex_asked (Req_timeout 9) = Some 12" using live [THEN conjunct1, THEN conjunct1] ex_asked_timer by metis
  moreover have "distinct (request_list ex_asked)" "set (request_list ex_asked) \<subseteq> dom (req_heap ex_asked)"
    using live [THEN conjunct1] by - (elim conjE, assumption)+
  moreover have "run_source ex_env ex_io (Req_timeout 9) ex_asked \<noteq> None"
    using live [THEN conjunct2, rule_format, OF conjI, OF ex_asked_timer is_timer.simps(1) [THEN iffD2, OF TrueI]] .
  ultimately show ?thesis by (intro conjI)
qed

theorem proxy_state_typed_witness:
  "length (the (request (the (req_heap ex_asked 9)))) = request_len (the (req_heap ex_asked 9)) \<and>
   12 \<le> request_len (the (req_heap ex_asked 9)) \<and> rq_ifdata (the (req_heap ex_asked 9)) \<in> dom (li_heap ex_asked)"
proof -
  define q where "q = the (req_heap ex_asked 9)"
  have "req_heap ex_asked 9 = Some q" using ex_heaps(2) by (auto simp: q_def)
  moreover have "rq_protocol q = PROTO_UDP" unfolding q_def by code_simp
  ultimately show ?thesis
    using proxy_state_typed [OF ex_asked_reach, THEN conjunct2, THEN conjunct1, rule_format, of 9 q]
    unfolding q_def [symmetric] by auto
qed

theorem proxy_refines_cache_witness:
  "cache_reach (dns ex_asked) \<and> cache_size (dns ex_asked) \<le> MAX_CACHE_SIZE"
  using proxy_refines_cache [OF ex_asked_reach] by blast

end
