(* ===== verification/Spec2Isabelle.thy ===== *)
theory Spec2Isabelle
  imports DhcpServer DhcpClientCorrect IpPool DnsCorrect
begin

text \<open>
  A verification development for the network daemon ConnMan (\<^verbatim>\<open>src/connman/connman\<close>).

  \<^bold>\<open>Parts of the program.\<close> When ConnMan shares a connection it takes an address pool (\<^verbatim>\<open>src/ippool.c\<close>), starts
  a DHCP server on it (\<^verbatim>\<open>gdhcp/server.c\<close>, over the packet library \<^verbatim>\<open>gdhcp/common.c\<close>), and answers the clients' DNS
  questions with a caching proxy (\<^verbatim>\<open>src/dnsproxy.c\<close>), which also serves the machine itself. These parts parse what
  the network sends, and they are the ones modelled here.

  \<^bold>\<open>Conventions.\<close> A C struct is a record with the fields of the source, an enum a datatype. Machine integers are
  words of their width, and the host is little-endian with signed plain chars. Memory is a list of bytes; reading or writing outside
  of it, following a null or released pointer, and a loop that does not end are all the outer result \<open>None\<close>. Objects that are
  shared between lists, tables and callbacks live in heaps from addresses to records, and the lists hold
  addresses, so that aliasing and use after release can be stated. Error codes are negative integers as in the source.
  The kernel, the allocator, the clock, random numbers and the resolver library of the C library are arguments: every
  theorem holds for whatever they answer. Debug output is left out.

  \<^bold>\<open>Theories.\<close>
  \<^item> \<open>ConnBase\<close>: byte and word conversions, byte lists as memory, singly linked list operations, the proof rule
    collections of the other theories.
  \<^item> \<open>DhcpCommon\<close> (\<^verbatim>\<open>gdhcp/unaligned.h\<close>, \<^verbatim>\<open>common.h\<close>, \<^verbatim>\<open>common.c\<close>): packets and their memory image, the option walks and writers of
    DHCPv4 and DHCPv6, the checksum, raw frames, receiving. The locale of an option store is interpreted on the
    packet. Shown: options and frames round-trip, the walks stay in bounds and end, and the packet for which the
    walk runs forever.
  \<^item> \<open>DhcpServer\<close> (\<^verbatim>\<open>gdhcp/server.c\<close>): the lease table (heap, sorted list, hash), the address search, replies, the handler of the socket
    and the public calls. Shown: the invariant of all reachable states, that unexpired leases of other clients are
    kept, that \<^verbatim>\<open>add_lease\<close> refines replacement in a set of leases (locale of a lease table, interpreted on the server),
    that replies only name leased addresses, that a DISCOVER is answered while there is a free address, and that the handler
    returns on every packet.
  \<^item> \<open>IpPool\<close> (\<^verbatim>\<open>src/ippool.c\<close>): the search for a free private block, the allocated ranges with reference counts,
    collisions and all public calls. Shown: the invariant of reachable states, that a new pool lies in a free private block, that the
    walk over blocks is complete and ends, and when it does not.
  \<^item> \<open>DnsMessage\<close>, \<open>DnsCache\<close> (\<^verbatim>\<open>src/dnsproxy.c\<close>, lines 229 to 1592): the parsers of replies and questions, the writer of
    queries, and the cache with its expiry, refresh and size limit. Shown: what the parsers return against an
    abstract message, round trips, freshness of cached answers, the counter invariant.
  \<^item> \<open>DnsProxy\<close>: servers, requests, sending a request to a server and its search domains, time-outs, and the configuration
    calls. \<open>DnsReply\<close>: replies of servers, removal of the search domain, UDP and TCP sockets of servers.
    \<open>DnsListener\<close>: listeners, questions over UDP and TCP, start and end, and \<open>proxy_step\<close>, the main loop: a
    registered source runs its callback, or the daemon calls the proxy.
  \<^item> \<open>DnsInvariant\<close>: \<open>proxy_inv\<close>, one preservation lemma per operation, and \<open>proxy_reach_inv\<close>: it holds in every reachable state.
    \<open>DnsCorrect\<close>: what follows. Every source of the main loop belongs to a live object that stores
    its identifier; a request that times out is answered and released; a reply goes to nobody but the client that asked, and reaches it
    unchanged; replies over TCP are reassembled whatever the pieces; search domains complete the name; the servers
    asked follow the default service; and the cache inside the proxy is the cache of \<open>DnsCache\<close>.

  \<^bold>\<open>Loops and fuel.\<close> No definition takes fuel. Loops over lists and buffers are structural or have a measure. Five
  loops of the source need not end or not without a bound on the input and are \<^verbatim>\<open>partial_function (option)\<close>: the
  DHCP option walk, the address search of the server, the block search of the pools, the loop of \<^verbatim>\<open>strip_domains\<close> and the loop
  over the questions of a TCP client (as well as the label loop of \<^verbatim>\<open>cache_refresh_entry\<close>). For the first three it is proved when they return and when not.

  \<^bold>\<open>Not modelled.\<close> The remaining sources are clients of other processes and of the kernel (D-Bus objects, netlink, iptables, wpa_supplicant,
  VPN programs) whose effects are calls to code outside of this repository; start-up, storage and logging; and
  the trees of the other programs of the repository (a boot loader, a C++ serialisation library and an audio file library).
\<close>

end
